(* ===== verification/Prelude.thy ===== *)
theory Prelude
  imports Main "HOL-Library.List_Lexorder" "HOL-Library.Char_ord"
begin

text \<open>
  What the components share: the collections the component proofs draw on, association
  lists in insertion order (the shape of a JavaScript Map), cutting a list into chunks
  (the loops that slice a batch by a maximum size), and insertion by a key into a
  list that is sorted stably (the shape of SQL's ORDER BY).
\<close>

named_theorems js_simps "evaluation rules for the JavaScript text primitives"
named_theorems d1_defs "unfolding rules for the D1 monad"
named_theorems sql_defs "definitions of the single SQL statements"

section \<open>Maps in insertion order\<close>

text \<open>
  A JavaScript Map iterates its entries in the order in which the keys were first set.
  \<open>al_put\<close> is Map.set: an existing key keeps its place, a new key goes to the end.
\<close>

fun al_put :: "'k \<Rightarrow> 'v \<Rightarrow> ('k \<times> 'v) list \<Rightarrow> ('k \<times> 'v) list" where
  "al_put k v [] = [(k, v)]"
| "al_put k v ((k', v') # m) = (if k' = k then (k, v) # m else (k', v') # al_put k v m)"

lemma map_of_al_put [simp]: "map_of (al_put k v m) = (map_of m)(k \<mapsto> v)"
  by (induction m) (auto simp: fun_eq_iff)

lemma keys_al_put [simp]:
  "map fst (al_put k v m) = (if k \<in> fst ` set m then map fst m else map fst m @ [k])"
proof (induction m)
  case (Cons p m)
  then show ?case by (cases p) auto
qed simp

lemma set_keys_al_put [simp]: "fst ` set (al_put k v m) = insert k (fst ` set m)"
proof -
  have "set (map fst (al_put k v m)) = insert k (set (map fst m))"
    by (subst keys_al_put) auto
  then show ?thesis by (simp only: set_map)
qed

lemma distinct_al_put [intro]:
  "distinct (map fst m) \<Longrightarrow> distinct (map fst (al_put k v m))"
  by simp

lemma map_of_eq_None_keys: "map_of m k = None \<longleftrightarrow> k \<notin> fst ` set m"
  by (simp add: map_of_eq_None_iff)

section \<open>Distinct values in insertion order\<close>

text \<open>\<open>[...new Set(xs)]\<close>: every value once, where it first occurs.\<close>

definition js_set :: "'a list \<Rightarrow> 'a list" where
  "js_set xs = rev (remdups (rev xs))"

lemma js_set_Nil [simp]: "js_set [] = []"
  by (simp add: js_set_def)

lemma js_set_snoc: "js_set (xs @ [x]) = (if x \<in> set xs then js_set xs else js_set xs @ [x])"
  by (simp add: js_set_def)

lemma set_js_set [simp]: "set (js_set xs) = set xs"
  by (simp add: js_set_def)

lemma distinct_js_set [simp]: "distinct (js_set xs)"
  by (simp add: js_set_def)

lemma length_js_set: "length (js_set xs) \<le> length xs"
  by (metis js_set_def length_remdups_leq length_rev)

lemma js_set_distinct [simp]: "distinct xs \<Longrightarrow> js_set xs = xs"
  by (simp add: js_set_def distinct_remdups_id)

lemma js_set_const:
  "ys \<noteq> [] \<Longrightarrow> set ys \<subseteq> {k} \<Longrightarrow> k \<notin> set xs \<Longrightarrow> js_set (xs @ ys) = js_set xs @ [k]"
proof (induction ys rule: rev_induct)
  case (snoc y ys)
  then have y: "y = k" "set ys \<subseteq> {k}" by auto
  have "js_set ((xs @ ys) @ [y]) = js_set xs @ [k]"
  proof (cases "ys = []")
    case True
    with snoc.prems(3) y(1) show ?thesis by (simp add: js_set_snoc)
  next
    case False
    with y(2) have "k \<in> set (xs @ ys)" by (cases ys) auto
    then have "js_set ((xs @ ys) @ [k]) = js_set (xs @ ys)" by (simp only: js_set_snoc if_True)
    with y snoc.IH [OF False y(2) snoc.prems(3)] show ?thesis by simp
  qed
  then show ?case by simp
qed simp

text \<open>Blocks of equal keys, one block for each key.\<close>

lemma js_set_blocks:
  assumes "distinct ks" "\<And>k. k \<in> set ks \<Longrightarrow> f k \<noteq> [] \<and> key ` set (f k) \<subseteq> {k}"
  shows "js_set (map key (concat (map f ks))) = ks"
  using assms
proof (induction ks rule: rev_induct)
  case (snoc k ks)
  then have IH: "js_set (map key (concat (map f ks))) = ks" by simp
  have "key y \<noteq> k" if "y \<in> set (f k')" "k' \<in> set ks" for y k'
    using that snoc.prems(1) snoc.prems(2) [of k'] by auto
  then have "k \<notin> set (map key (concat (map f ks)))" by auto
  moreover have "map key (f k) \<noteq> []" "set (map key (f k)) \<subseteq> {k}" using snoc.prems(2) [of k] by auto
  ultimately have "js_set (map key (concat (map f ks)) @ map key (f k))
      = js_set (map key (concat (map f ks))) @ [k]"
    by (intro js_set_const)
  then show ?case using IH by simp
qed simp

section \<open>Cutting a list into chunks\<close>

text \<open>
  \<open>for (let i = 0; i < xs.length; i += n) xs.slice(i, i + n)\<close>: consecutive slices of
  at most \<open>n\<close> elements. Every use in the program has a positive constant for \<open>n\<close>.
\<close>

function chunks :: "nat \<Rightarrow> 'a list \<Rightarrow> 'a list list" where
  "chunks n xs = (if xs = [] \<or> n = 0 then [] else take n xs # chunks n (drop n xs))"
  by pat_completeness auto
termination
  by (relation "measure (\<lambda>(n, xs). length xs)") auto

declare chunks.simps [simp del]

lemma chunks_Nil [simp]: "chunks n [] = []"
  by (simp add: chunks.simps)

lemma concat_chunks [simp]: "0 < n \<Longrightarrow> concat (chunks n xs) = xs"
proof (induction n xs rule: chunks.induct)
  case (1 n xs)
  then show ?case by (cases "xs = []") (simp_all add: chunks.simps [of n xs])
qed

lemma chunks_size: "c \<in> set (chunks n xs) \<Longrightarrow> c \<noteq> [] \<and> length c \<le> n"
proof (induction n xs rule: chunks.induct)
  case (1 n xs)
  then show ?case
    by (cases "xs = [] \<or> n = 0") (auto simp: chunks.simps [of n xs])
qed

lemma chunks_short: "xs \<noteq> [] \<Longrightarrow> length xs \<le> n \<Longrightarrow> chunks n xs = [xs]"
  by (cases xs; subst chunks.simps) auto

lemma replicate_numeral: "replicate (numeral k) x = x # replicate (pred_numeral k) x"
  by (simp add: numeral_eq_Suc)

section \<open>Stable sorting by a strict order\<close>

text \<open>
  ORDER BY with a list of sort terms: \<open>before x y\<close> says that \<open>x\<close> must come before \<open>y\<close>.
  Rows that no term separates keep the order in which they are stored.
\<close>

fun insert_by :: "('a \<Rightarrow> 'a \<Rightarrow> bool) \<Rightarrow> 'a \<Rightarrow> 'a list \<Rightarrow> 'a list" where
  "insert_by before x [] = [x]"
| "insert_by before x (y # ys) = (if before y x then y # insert_by before x ys else x # y # ys)"

fun sort_by :: "('a \<Rightarrow> 'a \<Rightarrow> bool) \<Rightarrow> 'a list \<Rightarrow> 'a list" where
  "sort_by before [] = []"
| "sort_by before (x # xs) = insert_by before x (sort_by before xs)"

lemma set_insert_by [simp]: "set (insert_by before x ys) = insert x (set ys)"
  by (induction ys) auto

lemma set_sort_by [simp]: "set (sort_by before xs) = set xs"
  by (induction xs) auto

lemma length_insert_by [simp]: "length (insert_by before x ys) = Suc (length ys)"
  by (induction ys) auto

lemma length_sort_by [simp]: "length (sort_by before xs) = length xs"
  by (induction xs) auto

lemma distinct_insert_by [simp]:
  "distinct (map f (insert_by before x ys)) \<longleftrightarrow> distinct (map f (x # ys))"
  by (induction ys) auto

lemma distinct_sort_by [simp]: "distinct (map f (sort_by before xs)) \<longleftrightarrow> distinct (map f xs)"
  by (induction xs) (auto simp: image_image)

text \<open>
  What an ORDER BY clause promises: a strict weak order on the rows. Then nothing stands
  after a row that should have come before it.
\<close>

locale sql_order =
  fixes before :: "'a \<Rightarrow> 'a \<Rightarrow> bool"
  assumes before_asym: "before a b \<Longrightarrow> \<not> before b a"
    and before_weak: "before a b \<Longrightarrow> before a c \<or> before c b"
begin

lemma insert_sorted:
  "sorted_wrt (\<lambda>a b. \<not> before b a) ys
    \<Longrightarrow> sorted_wrt (\<lambda>a b. \<not> before b a) (insert_by before x ys)"
proof (induction ys)
  case Nil
  then show ?case by simp
next
  case (Cons y ys)
  show ?case
  proof (cases "before y x")
    case True
    with Cons before_asym show ?thesis by auto
  next
    case False
    with Cons.prems before_weak have "\<forall>z \<in> set ys. \<not> before z x" by fastforce
    with False Cons.prems show ?thesis by simp
  qed
qed

lemma sort_sorted: "sorted_wrt (\<lambda>a b. \<not> before b a) (sort_by before xs)"
  by (induction xs) (simp_all add: insert_sorted)

text \<open>With LIMIT: every row left out could come no earlier than a row returned.\<close>

lemma limit_best:
  assumes "x \<in> set (take n (sort_by before xs))" and "y \<in> set (drop n (sort_by before xs))"
  shows "\<not> before y x"
proof -
  have "sorted_wrt (\<lambda>a b. \<not> before b a)
      (take n (sort_by before xs) @ drop n (sort_by before xs))"
    by (simp add: sort_sorted)
  with assms show ?thesis by (subst (asm) sorted_wrt_append) blast
qed

end

end
