(* ===== verification/D1.thy ===== *)
theory D1
  imports Prelude
begin

text \<open>
  The effects of the handlers: asynchronous calls to the D1 database, thrown errors, and
  everything that can happen between two calls. A computation is a state-passing function
  that ends in a thrown error or a result. Each call takes the next turn of a script: what
  other requests committed before the call, and whether the call succeeds, is rejected
  before it takes effect, or takes effect while its reply is lost. An empty script is a
  request that runs alone and without faults. A batch call is atomic, as D1 documents, so it
  takes one turn however many statements it holds.
\<close>

datatype js_error = RangeError | TypeError | D1Error | JsError string

type_synonym 'a res = "js_error + 'a"

datatype outcome = Done | Rejected | Lost

record 't turn =
  others :: "'t \<Rightarrow> 't"
  fate :: outcome

record 't d1 =
  store :: 't
  script :: "'t turn list"

type_synonym ('t, 'a) prog = "'t d1 \<Rightarrow> 'a res \<times> 't d1"

section \<open>The operations\<close>

definition ret :: "'a \<Rightarrow> ('t, 'a) prog" where
  "ret x db = (Inr x, db)"

definition throw :: "js_error \<Rightarrow> ('t, 'a) prog" where
  "throw e db = (Inl e, db)"

definition andThen :: "('t, 'a) prog \<Rightarrow> ('a \<Rightarrow> ('t, 'b) prog) \<Rightarrow> ('t, 'b) prog" where
  "andThen m f db = (case m db of (Inl e, db') \<Rightarrow> (Inl e, db') | (Inr x, db') \<Rightarrow> f x db')"

text \<open>\<open>try { m } catch (e) { h e }\<close>.\<close>

definition catching :: "('t, 'a) prog \<Rightarrow> (js_error \<Rightarrow> ('t, 'a) prog) \<Rightarrow> ('t, 'a) prog" where
  "catching m h db = (case m db of (Inl e, db') \<Rightarrow> h e db' | (Inr x, db') \<Rightarrow> (Inr x, db'))"

text \<open>A computation that may throw but does not touch the database.\<close>

definition lift :: "'a res \<Rightarrow> ('t, 'a) prog" where
  "lift r db = (r, db)"

text \<open>\<open>for (const x of xs) await f(x)\<close>.\<close>

fun each :: "('x \<Rightarrow> ('t, unit) prog) \<Rightarrow> 'x list \<Rightarrow> ('t, unit) prog" where
  "each f [] = ret ()"
| "each f (x # xs) = andThen (f x) (\<lambda>_. each f xs)"

text \<open>\<open>xs.map(f)\<close> where \<open>f\<close> may throw.\<close>

fun map_res :: "('x \<Rightarrow> 'a res) \<Rightarrow> 'x list \<Rightarrow> 'a list res" where
  "map_res f [] = Inr []"
| "map_res f (x # xs) =
     (case f x of
        Inl e \<Rightarrow> Inl e
      | Inr y \<Rightarrow> (case map_res f xs of Inl e \<Rightarrow> Inl e | Inr ys \<Rightarrow> Inr (y # ys)))"

text \<open>One round trip to the database.\<close>

definition call :: "('t \<Rightarrow> 'a \<times> 't) \<Rightarrow> ('t, 'a) prog" where
  "call stmt db =
     (case script db of
        [] \<Rightarrow> (case stmt (store db) of (x, t) \<Rightarrow> (Inr x, db\<lparr>store := t\<rparr>))
      | turn # rest \<Rightarrow>
          (case stmt (others turn (store db)) of
             (x, t) \<Rightarrow>
               (case fate turn of
                  Done \<Rightarrow> (Inr x, \<lparr>store = t, script = rest\<rparr>)
                | Rejected \<Rightarrow> (Inl D1Error, \<lparr>store = others turn (store db), script = rest\<rparr>)
                | Lost \<Rightarrow> (Inl D1Error, \<lparr>store = t, script = rest\<rparr>))))"

definition query :: "('t \<Rightarrow> 'a) \<Rightarrow> ('t, 'a) prog" where
  "query q = call (\<lambda>t. (q t, t))"

definition exec :: "('t \<Rightarrow> 't) \<Rightarrow> ('t, unit) prog" where
  "exec f = call (\<lambda>t. ((), f t))"

text \<open>A request that runs alone and without faults.\<close>

definition quiet :: "'t \<Rightarrow> 't d1" where
  "quiet t = \<lparr>store = t, script = []\<rparr>"

lemma ret_eq [d1_defs]: "ret x db = (Inr x, db)"
  by (simp add: ret_def)

lemma throw_eq [d1_defs]: "throw e db = (Inl e, db)"
  by (simp add: throw_def)

lemma lift_eq [d1_defs]: "lift r db = (r, db)"
  by (simp add: lift_def)

lemma bind_quiet [d1_defs]:
  "andThen m f db = (case m db of (Inl e, db') \<Rightarrow> (Inl e, db') | (Inr x, db') \<Rightarrow> f x db')"
  by (simp add: andThen_def)

lemma call_quiet [simp]: "call stmt (quiet t) = (Inr (fst (stmt t)), quiet (snd (stmt t)))"
  by (simp add: call_def quiet_def split: prod.split)

lemma query_quiet [simp]: "query q (quiet t) = (Inr (q t), quiet t)"
  by (simp add: query_def)

lemma exec_quiet [simp]: "exec f (quiet t) = (Inr (), quiet (f t))"
  by (simp add: exec_def)

lemma store_quiet [simp]: "store (quiet t) = t"
  by (simp add: quiet_def)

lemma bind_assoc: "andThen (andThen m f) g = andThen m (\<lambda>x. andThen (f x) g)"
  by (rule ext) (auto simp: andThen_def split: prod.split sum.split)

lemma ret_bind [simp]: "andThen (ret x) f = f x"
  by (rule ext) (simp add: andThen_def ret_def)

lemma each_append: "each f (xs @ ys) = andThen (each f xs) (\<lambda>_. each f ys)"
  by (induction xs) (simp_all add: bind_assoc)

lemma each_quiet:
  assumes "\<And>x t. x \<in> set xs \<Longrightarrow> f x (quiet t) = (Inr (), quiet (g x t))"
  shows "each f xs (quiet t) = (Inr (), quiet (fold g xs t))"
  using assms by (induction xs arbitrary: t) (simp_all add: d1_defs)

lemma map_res_Inr: "map_res f xs = Inr ys \<longleftrightarrow> list_all2 (\<lambda>x y. f x = Inr y) xs ys"
proof (induction xs arbitrary: ys)
  case (Cons x xs)
  show ?case
    by (cases "f x"; cases "map_res f xs") (auto simp: list_all2_Cons1 Cons.IH [symmetric])
qed auto

lemma map_res_pure: "(\<And>x. x \<in> set xs \<Longrightarrow> f x = Inr (g x)) \<Longrightarrow> map_res f xs = Inr (map g xs)"
  by (induction xs) simp_all

section \<open>What a computation can do to the database\<close>

text \<open>
  Rely and guarantee in one relation: if everything other requests do is an \<open>R\<close> step and
  every call of the computation is an \<open>R\<close> step, then so is the whole run, whatever faults
  and interleavings the script holds.
\<close>

locale guarantee =
  fixes R :: "'t \<Rightarrow> 't \<Rightarrow> bool"
  assumes R_refl: "R t t"
    and R_trans: "R t u \<Longrightarrow> R u v \<Longrightarrow> R t v"
begin

definition legit :: "'t d1 \<Rightarrow> bool" where
  "legit db \<longleftrightarrow> (\<forall>turn \<in> set (script db). \<forall>t. R t (others turn t))"

definition stays :: "('t, 'a) prog \<Rightarrow> bool" where
  "stays m \<longleftrightarrow> (\<forall>db. legit db \<longrightarrow> R (store db) (store (snd (m db))) \<and> legit (snd (m db)))"

lemma legit_quiet [simp]: "legit (quiet t)"
  by (simp add: legit_def quiet_def)

lemma stays_ret [intro]: "stays (ret x)"
  by (simp add: stays_def ret_def R_refl)

lemma stays_throw [intro]: "stays (throw e)"
  by (simp add: stays_def throw_def R_refl)

lemma stays_lift [intro]: "stays (lift r)"
  by (simp add: stays_def lift_def R_refl)

lemma stays_bind [intro]: "stays m \<Longrightarrow> (\<And>x. stays (f x)) \<Longrightarrow> stays (andThen m f)"
proof -
  assume m: "stays m" and f: "\<And>x. stays (f x)"
  show "stays (andThen m f)"
    unfolding stays_def
  proof (intro allI impI)
    fix db :: "'t d1"
    assume db: "legit db"
    obtain r db' where r: "m db = (r, db')" by fastforce
    with m db have 1: "R (store db) (store db')" "legit db'" unfolding stays_def by (metis snd_conv)+
    show "R (store db) (store (snd (andThen m f db))) \<and> legit (snd (andThen m f db))"
    proof (cases r)
      case (Inl e)
      with r 1 show ?thesis by (simp add: andThen_def)
    next
      case (Inr x)
      from f 1(2) have "R (store db') (store (snd (f x db')))" "legit (snd (f x db'))"
        unfolding stays_def by blast+
      with Inr r R_trans [OF 1(1)] show ?thesis by (simp add: andThen_def)
    qed
  qed
qed

lemma stays_catching [intro]: "stays m \<Longrightarrow> (\<And>e. stays (h e)) \<Longrightarrow> stays (catching m h)"
proof -
  assume m: "stays m" and h: "\<And>e. stays (h e)"
  show "stays (catching m h)"
    unfolding stays_def
  proof (intro allI impI)
    fix db :: "'t d1"
    assume db: "legit db"
    obtain r db' where r: "m db = (r, db')" by fastforce
    with m db have 1: "R (store db) (store db')" "legit db'" unfolding stays_def by (metis snd_conv)+
    show "R (store db) (store (snd (catching m h db))) \<and> legit (snd (catching m h db))"
    proof (cases r)
      case (Inr x)
      with r 1 show ?thesis by (simp add: catching_def)
    next
      case (Inl e)
      from h 1(2) have "R (store db') (store (snd (h e db')))" "legit (snd (h e db'))"
        unfolding stays_def by blast+
      with Inl r R_trans [OF 1(1)] show ?thesis by (simp add: catching_def)
    qed
  qed
qed

lemma stays_each [intro]: "(\<And>x. x \<in> set xs \<Longrightarrow> stays (f x)) \<Longrightarrow> stays (each f xs)"
  by (induction xs) auto

lemma stays_call [intro]: "(\<And>t. R t (snd (stmt t))) \<Longrightarrow> stays (call stmt)"
  unfolding stays_def call_def legit_def
  by (auto split: prod.split list.split outcome.split)
    (metis R_trans snd_conv)+

lemma stays_query [intro]: "stays (query q)"
  unfolding query_def by (rule stays_call) (simp add: R_refl)

lemma stays_exec [intro]: "(\<And>t. R t (f t)) \<Longrightarrow> stays (exec f)"
  unfolding exec_def by (rule stays_call) simp

lemma stays_run: "stays m \<Longrightarrow> legit db \<Longrightarrow> R (store db) (store (snd (m db)))"
  by (simp add: stays_def)

end

end
