(* ===== verification/JsText.thy ===== *)
theory JsText
  imports Prelude
begin

text \<open>
  The JavaScript string operations the program uses, on strings of 8-bit code units
  (all the text the program interprets -- addresses, host names, timestamps -- is ASCII;
  code units above 255 are outside the model). Strings are compared by code unit, both
  by JavaScript's \<open><\<close> and by SQLite's BINARY collation: this is the lexicographic order
  that List_Lexorder and Char_ord give the type \<open>string\<close>.
\<close>

section \<open>Splitting, joining, searching\<close>

text \<open>\<open>s.split(d)\<close> for a one-character separator: never the empty list.\<close>

fun split_char :: "char \<Rightarrow> string \<Rightarrow> string list" where
  "split_char d [] = [[]]"
| "split_char d (c # cs) =
     (if c = d then [] # split_char d cs
      else case split_char d cs of w # ws \<Rightarrow> (c # w) # ws | [] \<Rightarrow> [[c]])"

text \<open>\<open>ws.join(sep)\<close>.\<close>

fun join :: "string \<Rightarrow> string list \<Rightarrow> string" where
  "join sep [] = []"
| "join sep [w] = w"
| "join sep (w # v # vs) = w @ sep @ join sep (v # vs)"

text \<open>The rest of \<open>s\<close> after the prefix \<open>p\<close>, if \<open>s\<close> starts with it.\<close>

fun strip_prefix :: "string \<Rightarrow> string \<Rightarrow> string option" where
  "strip_prefix [] s = Some s"
| "strip_prefix (p # ps) [] = None"
| "strip_prefix (p # ps) (c # cs) = (if p = c then strip_prefix ps cs else None)"

definition starts_with :: "string \<Rightarrow> string \<Rightarrow> bool" where
  "starts_with s p = (strip_prefix p s \<noteq> None)"

text \<open>\<open>s.includes(p)\<close>, \<open>s.indexOf(p)\<close> and \<open>s.lastIndexOf(p)\<close>; \<open>None\<close> is \<open>-1\<close>.\<close>

fun index_of :: "string \<Rightarrow> string \<Rightarrow> nat option" where
  "index_of p [] = (if p = [] then Some 0 else None)"
| "index_of p (c # cs) =
     (if starts_with (c # cs) p then Some 0 else map_option Suc (index_of p cs))"

fun last_index_of :: "string \<Rightarrow> string \<Rightarrow> nat option" where
  "last_index_of p [] = (if p = [] then Some 0 else None)"
| "last_index_of p (c # cs) =
     (case last_index_of p cs of
        Some i \<Rightarrow> Some (Suc i)
      | None \<Rightarrow> if starts_with (c # cs) p then Some 0 else None)"

definition str_includes :: "string \<Rightarrow> string \<Rightarrow> bool" where
  "str_includes s p = (index_of p s \<noteq> None)"

text \<open>\<open>s.split(sep)\<close> for a longer separator: occurrences are taken from the left.\<close>

function split_on :: "string \<Rightarrow> string \<Rightarrow> string list" where
  "split_on sep s =
     (case s of
        [] \<Rightarrow> [[]]
      | c # cs \<Rightarrow>
          (case (if sep = [] then None else strip_prefix sep s) of
             Some rest \<Rightarrow> [] # split_on sep rest
           | None \<Rightarrow> (case split_on sep cs of w # ws \<Rightarrow> (c # w) # ws | [] \<Rightarrow> [[c]])))"
  by pat_completeness auto

lemma strip_prefix_append: "strip_prefix p s = Some r \<longleftrightarrow> s = p @ r"
  by (induction p s rule: strip_prefix.induct) auto

lemma strip_prefix_length: "strip_prefix p s = Some r \<Longrightarrow> length s = length p + length r"
  by (simp add: strip_prefix_append)

termination split_on
  by (relation "measure (\<lambda>(sep, s). length s)")
    (auto dest!: strip_prefix_length split: if_splits)

declare split_on.simps [simp del]

text \<open>\<open>s.padStart(n, c)\<close>.\<close>

definition pad_start :: "nat \<Rightarrow> char \<Rightarrow> string \<Rightarrow> string" where
  "pad_start n c s = replicate (n - length s) c @ s"

text \<open>\<open>s.toLowerCase()\<close> on 8-bit code units.\<close>

definition to_lower_char :: "char \<Rightarrow> char" where
  "to_lower_char c =
     (let n = of_char c :: nat in
      if (65 \<le> n \<and> n \<le> 90) \<or> (192 \<le> n \<and> n \<le> 222 \<and> n \<noteq> 215) then char_of (n + 32) else c)"

definition to_lower :: "string \<Rightarrow> string" where
  "to_lower s = map to_lower_char s"

subsection \<open>Laws\<close>

lemma split_char_nonempty [simp]: "split_char d s \<noteq> []"
  by (cases s) (auto split: list.splits)

lemma join_Cons: "ws \<noteq> [] \<Longrightarrow> join sep (w # ws) = w @ sep @ join sep ws"
  by (cases ws) auto

lemma join_split_char: "join [d] (split_char d s) = s"
proof (induction s)
  case Nil
  then show ?case by simp
next
  case (Cons c cs)
  show ?case
  proof (cases "split_char d cs")
    case Nil
    then show ?thesis by (simp add: split_char_nonempty)
  next
    case (Cons w ws)
    with \<open>join [d] (split_char d cs) = cs\<close> show ?thesis
      by (cases ws) (auto simp: join_Cons)
  qed
qed

lemma split_char_word: "d \<notin> set w \<Longrightarrow> split_char d w = [w]"
  by (induction w) auto

lemma split_char_append:
  "d \<notin> set w \<Longrightarrow> split_char d (w @ d # s) = w # split_char d s"
  by (induction w) auto

lemma split_char_join:
  "ws \<noteq> [] \<Longrightarrow> \<forall>w \<in> set ws. d \<notin> set w \<Longrightarrow> split_char d (join [d] ws) = ws"
  by (induction ws rule: induct_list012) (auto simp: split_char_word split_char_append)

lemma split_char_parts: "w \<in> set (split_char d s) \<Longrightarrow> d \<notin> set w"
  by (induction s arbitrary: w) (auto split: list.splits if_splits)

lemma set_split_char: "w \<in> set (split_char d s) \<Longrightarrow> set w \<subseteq> set s"
  by (induction s arbitrary: w) (fastforce split: list.splits if_splits)+

lemma set_join: "set (join sep ws) \<subseteq> set sep \<union> (\<Union>w \<in> set ws. set w)"
  by (induction ws rule: induct_list012) auto

lemma starts_with_iff: "starts_with s p \<longleftrightarrow> (\<exists>r. s = p @ r)"
  by (auto simp: starts_with_def strip_prefix_append)

lemma str_includes_iff: "str_includes s p \<longleftrightarrow> (\<exists>u v. s = u @ p @ v)"
proof (induction s)
  case Nil
  then show ?case by (auto simp: str_includes_def)
next
  case (Cons c cs)
  have "str_includes (c # cs) p \<longleftrightarrow> starts_with (c # cs) p \<or> str_includes cs p"
    by (auto simp: str_includes_def)
  also have "\<dots> \<longleftrightarrow> (\<exists>u v. c # cs = u @ p @ v)"
    unfolding Cons.IH starts_with_iff by (metis append_Cons append_Nil neq_Nil_conv list.inject)
  finally show ?case .
qed

lemma str_includes_char: "str_includes s [c] \<longleftrightarrow> c \<in> set s"
  by (auto simp: str_includes_iff in_set_conv_decomp)

lemma index_of_Some:
  "index_of p s = Some i \<Longrightarrow> s = take i s @ p @ drop (i + length p) s"
proof (induction s arbitrary: i)
  case Nil
  then show ?case by (auto split: if_splits)
next
  case (Cons c cs)
  then show ?case
    by (auto simp: starts_with_iff split: if_splits)
qed

lemma last_index_of_None: "last_index_of p s = None \<longleftrightarrow> index_of p s = None"
  by (induction s) (auto split: option.splits)

lemma last_index_of_Some:
  "last_index_of p s = Some i \<Longrightarrow> s = take i s @ p @ drop (i + length p) s"
proof (induction s arbitrary: i)
  case Nil
  then show ?case by (auto split: if_splits)
next
  case (Cons c cs)
  show ?case
  proof (cases "last_index_of p cs")
    case None
    with Cons.prems show ?thesis by (auto simp: starts_with_iff split: if_splits)
  next
    case (Some j)
    then have "cs = take j cs @ p @ drop (j + length p) cs" by (rule Cons.IH)
    moreover from Some Cons.prems have "i = Suc j" by simp
    ultimately show ?thesis by simp
  qed
qed

lemma split_on_Nil [simp]: "split_on sep [] = [[]]"
  by (simp add: split_on.simps)

lemma strip_prefix_self [simp]: "strip_prefix p (p @ r) = Some r"
  by (simp add: strip_prefix_append)

lemma split_on_Cons:
  "sep \<noteq> [] \<Longrightarrow> split_on sep (c # cs) =
     (case strip_prefix sep (c # cs) of
        Some rest \<Rightarrow> [] # split_on sep rest
      | None \<Rightarrow> (case split_on sep cs of w # ws \<Rightarrow> (c # w) # ws | [] \<Rightarrow> [[c]]))"
  by (subst split_on.simps) simp

lemma split_on_sep:
  assumes "sep \<noteq> []"
  shows "split_on sep (sep @ s) = [] # split_on sep s"
proof -
  from assms obtain c cs where e: "sep @ s = c # cs" by (cases "sep @ s") auto
  with strip_prefix_self have "strip_prefix sep (c # cs) = Some s" by metis
  with assms e show ?thesis by (simp add: split_on_Cons del: strip_prefix.simps)
qed

lemma pad_start_length [simp]: "length (pad_start n c s) = max n (length s)"
  by (simp add: pad_start_def)

lemma pad_start_full: "n \<le> length s \<Longrightarrow> pad_start n c s = s"
  by (simp add: pad_start_def)

end
