(* ===== verification/Digits.thy ===== *)
theory Digits
  imports JsText
begin

text \<open>
  Numerals: \<open>n.toString(b)\<close> and reading a numeral back, for the bases 2 to 16 (the program
  uses 10 and 16). The laws say that the two are inverse, that zero padding restores a
  numeral of fixed width, and that numerals of the same width compare as text the way
  their values compare as numbers -- the fact that lets the database compare padded
  addresses and timestamps as TEXT.
\<close>

definition digit_chars :: string where
  "digit_chars = ''0123456789abcdef''"

definition dig_char :: "nat \<Rightarrow> char" where
  "dig_char d = digit_chars ! d"

definition dig_val :: "char \<Rightarrow> nat" where
  "dig_val c =
     (let n = of_char c :: nat in
      if n \<le> 57 then n - 48 else if n \<le> 70 then n - 55 else n - 87)"

text \<open>The lowercase digits of a base, and the character classes of the regular expressions.\<close>

definition is_dig :: "nat \<Rightarrow> char \<Rightarrow> bool" where
  "is_dig b c = (c \<in> set (take b digit_chars))"

definition is_digit :: "char \<Rightarrow> bool" where
  "is_digit c = (c \<in> set ''0123456789'')"

definition is_hex_digit :: "char \<Rightarrow> bool" where
  "is_hex_digit c = (c \<in> set ''0123456789abcdefABCDEF'')"

fun num_str :: "nat \<Rightarrow> nat \<Rightarrow> string" where
  "num_str b n =
     (if b < 2 \<or> n < b then [dig_char n] else num_str b (n div b) @ [dig_char (n mod b)])"

declare num_str.simps [simp del]

definition num_val :: "nat \<Rightarrow> string \<Rightarrow> nat" where
  "num_val b s = foldl (\<lambda>v c. v * b + dig_val c) 0 s"

text \<open>Rules that evaluate numerals by simplification.\<close>

lemma num_str_small: "2 \<le> b \<Longrightarrow> n < b \<Longrightarrow> num_str b n = [dig_char n]"
  by (simp add: num_str.simps)

lemma num_str_big:
  "2 \<le> b \<Longrightarrow> b \<le> n \<Longrightarrow> num_str b n = num_str b (n div b) @ [dig_char (n mod b)]"
  by (subst num_str.simps) simp

lemmas eval_num = num_str_small num_str_big num_val_def dig_val_def dig_char_def digit_chars_def

section \<open>Single digits\<close>

lemma lt16_cases:
  "(d::nat) < 16 \<Longrightarrow> d \<in> {0, 1, 2, 3, 4, 5, 6, 7, 8, 9, 10, 11, 12, 13, 14, 15}"
  by (simp, presburger)

lemma dig_val_dig_char [simp]: "d < 16 \<Longrightarrow> dig_val (dig_char d) = d"
  by (drule lt16_cases) (auto simp: dig_val_def dig_char_def digit_chars_def)

lemma is_dig_iff: "b \<le> 16 \<Longrightarrow> is_dig b c \<longleftrightarrow> (\<exists>d < b. c = dig_char d)"
  by (auto simp: is_dig_def dig_char_def in_set_conv_nth digit_chars_def)

lemma is_dig_dig_char [simp]: "b \<le> 16 \<Longrightarrow> d < b \<Longrightarrow> is_dig b (dig_char d)"
  by (auto simp: is_dig_iff)

lemma dig_val_less: "b \<le> 16 \<Longrightarrow> is_dig b c \<Longrightarrow> dig_val c < b"
  by (auto simp: is_dig_iff)

lemma dig_char_dig_val [simp]: "b \<le> 16 \<Longrightarrow> is_dig b c \<Longrightarrow> dig_char (dig_val c) = c"
  by (auto simp: is_dig_iff)

lemma dig_char_less_mono: "d < e \<Longrightarrow> e < 16 \<Longrightarrow> dig_char d < dig_char e"
proof -
  have "sorted_wrt (<) digit_chars"
    by (simp add: digit_chars_def less_char_def)
  moreover have "length digit_chars = 16" by (simp add: digit_chars_def)
  ultimately show "d < e \<Longrightarrow> e < 16 \<Longrightarrow> dig_char d < dig_char e"
    unfolding dig_char_def by (simp add: sorted_wrt_nth_less)
qed

lemma dig_char_less [simp]: "d < 16 \<Longrightarrow> e < 16 \<Longrightarrow> dig_char d < dig_char e \<longleftrightarrow> d < e"
  by (metis dig_char_less_mono less_asym linorder_neqE_nat)

lemma dig_char_inj: "d < 16 \<Longrightarrow> e < 16 \<Longrightarrow> dig_char d = dig_char e \<longleftrightarrow> d = e"
  by (metis dig_val_dig_char)

lemma is_dig_less: "b \<le> 16 \<Longrightarrow> is_dig b c \<Longrightarrow> is_dig b d \<Longrightarrow> c < d \<longleftrightarrow> dig_val c < dig_val d"
  by (auto simp: is_dig_iff)

lemma is_digit_dig: "is_digit c \<longleftrightarrow> is_dig 10 c"
  by (simp add: is_digit_def is_dig_def digit_chars_def)

lemma is_dig_hex: "is_dig 16 c \<Longrightarrow> is_hex_digit c"
  by (auto simp: is_hex_digit_def is_dig_def digit_chars_def)

lemma lower_hex: "is_hex_digit c \<Longrightarrow> is_dig 16 (to_lower_char c)"
  unfolding is_hex_digit_def
  by (auto simp: is_dig_def digit_chars_def to_lower_char_def char_of_def bit_0)

lemma lower_hex_id: "is_dig 16 c \<Longrightarrow> to_lower_char c = c"
  by (auto simp: is_dig_def digit_chars_def to_lower_char_def)

lemma dig_val_lower: "is_hex_digit c \<Longrightarrow> dig_val (to_lower_char c) = dig_val c"
  unfolding is_hex_digit_def by (auto simp: dig_val_def to_lower_char_def char_of_def bit_0)

section \<open>Numerals\<close>

lemma num_val_Nil [simp]: "num_val b [] = 0"
  by (simp add: num_val_def)

lemma num_val_snoc [simp]: "num_val b (s @ [c]) = num_val b s * b + dig_val c"
  by (simp add: num_val_def)

lemma num_val_Cons: "num_val b (c # s) = dig_val c * b ^ length s + num_val b s"
proof -
  have "foldl (\<lambda>v c. v * b + dig_val c) a s = a * b ^ length s + foldl (\<lambda>v c. v * b + dig_val c) 0 s"
    for a
  proof (induction s arbitrary: a)
    case Nil
    then show ?case by simp
  next
    case (Cons x s)
    note a = Cons [of "a * b + dig_val x"] and zero = Cons [of "0 * b + dig_val x"]
    show ?case
      unfolding foldl_Cons length_Cons a zero by (simp add: algebra_simps)
  qed
  from this [of "0 * b + dig_val c"] show ?thesis
    unfolding num_val_def foldl_Cons by simp
qed

lemma num_val_append: "num_val b (s @ t) = num_val b s * b ^ length t + num_val b t"
  by (induction s) (simp_all add: num_val_Cons algebra_simps power_add)

lemma num_val_zeros [simp]: "num_val b (replicate k CHR ''0'' @ s) = num_val b s"
  by (induction k) (simp_all add: num_val_Cons dig_val_def)

lemma num_val_pad [simp]: "num_val b (pad_start k CHR ''0'' s) = num_val b s"
  by (simp add: pad_start_def)

lemma num_val_less: "b \<le> 16 \<Longrightarrow> \<forall>c \<in> set s. is_dig b c \<Longrightarrow> num_val b s < b ^ length s"
proof (induction s rule: rev_induct)
  case Nil
  then show ?case by simp
next
  case (snoc c s)
  then have "num_val b s < b ^ length s" and "dig_val c < b"
    by (auto intro: dig_val_less)
  then have "num_val b s * b + dig_val c < (num_val b s + 1) * b" by simp
  also have "\<dots> \<le> b ^ length s * b"
    using \<open>num_val b s < b ^ length s\<close> by (intro mult_right_mono) auto
  finally show ?case by (simp add: mult.commute)
qed

lemma num_val_lower: "\<forall>c \<in> set s. is_hex_digit c \<Longrightarrow> num_val b (to_lower s) = num_val b s"
  by (induction s) (simp_all add: to_lower_def num_val_Cons dig_val_lower)

lemma num_val_num_str [simp]: "2 \<le> b \<Longrightarrow> b \<le> 16 \<Longrightarrow> num_val b (num_str b n) = n"
proof (induction b n rule: num_str.induct)
  case (1 b n)
  show ?case
  proof (cases "n < b")
    case True
    with 1 show ?thesis by (simp add: num_str.simps [of b n] num_val_Cons)
  next
    case False
    moreover from 1 have "n mod b < 16" by (simp add: less_le_trans [of _ b])
    ultimately show ?thesis using 1 by (simp add: num_str.simps [of b n])
  qed
qed

lemma num_str_inj: "2 \<le> b \<Longrightarrow> b \<le> 16 \<Longrightarrow> num_str b m = num_str b n \<longleftrightarrow> m = n"
  by (metis num_val_num_str)

lemma num_str_nonempty [simp]: "num_str b n \<noteq> []"
  by (subst num_str.simps) simp

lemma num_str_dig: "2 \<le> b \<Longrightarrow> b \<le> 16 \<Longrightarrow> \<forall>c \<in> set (num_str b n). is_dig b c"
proof (induction b n rule: num_str.induct)
  case (1 b n)
  then show ?case by (cases "n < b") (auto simp: num_str.simps [of b n])
qed

lemma num_str_0 [simp]: "num_str b 0 = ''0''"
  by (subst num_str.simps) (auto simp: dig_char_def digit_chars_def)

lemma num_str_single: "n < b \<Longrightarrow> num_str b n = [dig_char n]"
  by (subst num_str.simps) simp

lemma num_str_step:
  assumes "2 \<le> b" "0 < n" "d < b"
  shows "num_str b (n * b + d) = num_str b n @ [dig_char d]"
proof -
  from assms(2) have "b \<le> n * b" by (cases n) auto
  then have "\<not> n * b + d < b" by linarith
  with assms show ?thesis by (simp add: num_str.simps [of b "n * b + d"])
qed

text \<open>Zero padding restores a numeral of fixed width.\<close>

lemma pad_num_str:
  assumes "2 \<le> b" "b \<le> 16" "s \<noteq> []" "\<forall>c \<in> set s. is_dig b c"
  shows "pad_start (length s) CHR ''0'' (num_str b (num_val b s)) = s"
  using assms(3,4)
proof (induction s rule: rev_nonempty_induct)
  case (single c)
  then show ?case
    using assms(1,2) dig_val_less [of b c]
    by (simp add: num_val_Cons num_str_single pad_start_def)
next
  case (snoc c s)
  then have IH: "pad_start (length s) CHR ''0'' (num_str b (num_val b s)) = s"
    and c: "dig_val c < b" "dig_char (dig_val c) = c"
    using assms(1,2) by (auto intro: dig_val_less)
  show ?case
  proof (cases "num_val b s = 0")
    case True
    with IH snoc.hyps have "s = replicate (length s) CHR ''0''"
      by (cases s) (simp_all add: pad_start_def replicate_append_same)
    with True c assms(1) show ?thesis
      by (simp add: num_str_single pad_start_def)
  next
    case False
    with c assms(1) IH show ?thesis
      by (simp add: num_str_step pad_start_def)
  qed
qed

text \<open>Numerals of the same width compare as text as their values compare as numbers.\<close>

lemma num_val_less_iff:
  assumes "b \<le> 16" "length s = length t" "\<forall>c \<in> set s. is_dig b c" "\<forall>c \<in> set t. is_dig b c"
  shows "s < t \<longleftrightarrow> num_val b s < num_val b t"
  using assms(2-4)
proof (induction s t rule: list_induct2)
  case Nil
  then show ?case by simp
next
  case (Cons c s d t)
  have s: "num_val b s < b ^ length t" and t: "num_val b t < b ^ length t"
    using Cons assms(1) num_val_less [of b s] num_val_less [of b t] by simp_all
  have less: "x < y \<Longrightarrow> u < b ^ length t \<Longrightarrow> x * b ^ length t + u < y * b ^ length t + v" for x y u v
  proof -
    assume "x < y" "u < b ^ length t"
    then have "x * b ^ length t + u < (x + 1) * b ^ length t" by simp
    also have "\<dots> \<le> y * b ^ length t" using \<open>x < y\<close> by (intro mult_right_mono) auto
    finally show ?thesis by simp
  qed
  consider "dig_val c < dig_val d" | "dig_val d < dig_val c" | "dig_val c = dig_val d"
    by linarith
  then show ?case
  proof cases
    case 1
    then have "c < d" using Cons.prems assms(1) by (simp add: is_dig_less)
    with less [OF 1 s, of "num_val b t"] show ?thesis
      using Cons.hyps by (simp add: num_val_Cons)
  next
    case 2
    then have "d < c" using Cons.prems assms(1) by (simp add: is_dig_less)
    with less [OF 2 t, of "num_val b s"] show ?thesis
      using Cons.hyps by (auto simp: num_val_Cons)
  next
    case 3
    then have "c = d" using Cons.prems assms(1) by (metis dig_char_dig_val list.set_intros(1))
    with Cons show ?thesis by (simp add: num_val_Cons)
  qed
qed

lemma num_val_eq_iff:
  assumes "b \<le> 16" "length s = length t" "\<forall>c \<in> set s. is_dig b c" "\<forall>c \<in> set t. is_dig b c"
  shows "num_val b s = num_val b t \<longleftrightarrow> s = t"
  by (metis assms less_irrefl linorder_less_linear num_val_less_iff)

text \<open>The width of a numeral.\<close>

lemma length_num_str: "2 \<le> b \<Longrightarrow> b \<le> 16 \<Longrightarrow> n < b ^ k \<Longrightarrow> 0 < k \<Longrightarrow> length (num_str b n) \<le> k"
proof (induction b n arbitrary: k rule: num_str.induct)
  case (1 b n)
  show ?case
  proof (cases "n < b")
    case True
    with 1 show ?thesis by (simp add: num_str_single)
  next
    case False
    with 1 obtain j where j: "k = Suc j" "0 < j" by (cases k; cases "k = 1") auto
    then have "n div b < b ^ j"
      using "1.prems" by (simp add: less_mult_imp_div_less mult.commute)
    with False j 1 show ?thesis by (simp add: num_str.simps [of b n])
  qed
qed

end
