(* ===== verification/JsDate.thy ===== *)
theory JsDate
  imports Digits "HOL-Library.Monad_Syntax"
begin

text \<open>
  JavaScript's Date as the program uses it: a time value in milliseconds since 1970 UTC or
  Invalid Date, toISOString (the text of every timestamp column, src/src/store.ts), formatTime
  (src/src/html.ts), and reading a stored timestamp back. The calendar is the one of the
  language specification: the year of a day is the last year that starts no later.
  Every text that is not in the form toISOString writes goes to the engine's own parser,
  which the specification leaves open: it is the parameter \<open>legacy\<close>.

  The laws: ISO texts of years 0 to 9999 compare as the times they stand for
  (\<open>iso_less_iff\<close>, \<open>iso_eq_iff\<close>), and reading back what was written gives the same time
  (\<open>parse_iso_to_iso\<close>).
\<close>

datatype js_date = Invalid_Date | Time int

section \<open>The calendar\<close>

definition ms_per_day :: int where
  "ms_per_day = 86400000"

definition day_from_year :: "int \<Rightarrow> int" where
  "day_from_year y =
     365 * (y - 1970) + (y - 1969) div 4 - (y - 1901) div 100 + (y - 1601) div 400"

lemma day_from_year_step: "day_from_year y + 364 \<le> day_from_year (y + 1)"
proof -
  have "(y - 1969) div 4 \<le> (y + 1 - 1969) div 4"
    and "(y - 1601) div 400 \<le> (y + 1 - 1601) div 400"
    by (simp_all add: zdiv_mono1)
  moreover have "(y + 1 - 1901) div 100 \<le> (y - 1901) div 100 + 1"
    using zdiv_mono1 [of "y + 1 - 1901" "y - 1901 + 1 * 100" 100] by simp
  ultimately show ?thesis by (simp add: day_from_year_def)
qed

function year_up :: "int \<Rightarrow> int \<Rightarrow> int" where
  "year_up y d = (if day_from_year (y + 1) \<le> d then year_up (y + 1) d else y)"
  by pat_completeness auto
termination
proof (relation "measure (\<lambda>(y, d). nat (d - day_from_year y))")
  fix y d
  assume "day_from_year (y + 1) \<le> d"
  with day_from_year_step [of y]
  show "((y + 1, d), y, d) \<in> measure (\<lambda>(y, d). nat (d - day_from_year y))"
    by simp
qed simp

declare year_up.simps [simp del]

text \<open>The search starts at a year that cannot be too late.\<close>

definition year_of_day :: "int \<Rightarrow> int" where
  "year_of_day d = year_up (1969 + 400 * d div 146097) d"

definition is_leap :: "int \<Rightarrow> bool" where
  "is_leap y = (y mod 4 = 0 \<and> (y mod 100 \<noteq> 0 \<or> y mod 400 = 0))"

definition month_lengths :: "int \<Rightarrow> int list" where
  "month_lengths y = [31, if is_leap y then 29 else 28, 31, 30, 31, 30, 31, 31, 30, 31, 30, 31]"

text \<open>The month (counted from 0) and the day of the month (from 1) of a day of the year.\<close>

fun month_walk :: "int list \<Rightarrow> int \<Rightarrow> int \<Rightarrow> int \<times> int" where
  "month_walk [] m d = (m, d + 1)"
| "month_walk (n # ns) m d = (if d < n then (m, d + 1) else month_walk ns (m + 1) (d - n))"

record date_fields =
  df_year :: int
  df_month :: int   \<comment> \<open>0 to 11, as getUTCMonth\<close>
  df_date :: int
  df_hours :: int
  df_minutes :: int
  df_seconds :: int
  df_millis :: int

definition utc_fields :: "int \<Rightarrow> date_fields" where
  "utc_fields t =
     (let d = t div ms_per_day; tod = t mod ms_per_day;
          y = year_of_day d;
          (m, dd) = month_walk (month_lengths y) 0 (d - day_from_year y);
          r = tod mod 3600000; q = r mod 60000
      in \<lparr>df_year = y, df_month = m, df_date = dd, df_hours = tod div 3600000,
          df_minutes = r div 60000, df_seconds = q div 1000, df_millis = q mod 1000\<rparr>)"

subsection \<open>The year of a day\<close>

lemma year_up_bounds:
  "day_from_year y \<le> d \<Longrightarrow>
     day_from_year (year_up y d) \<le> d \<and> d < day_from_year (year_up y d + 1)"
proof (induction y d rule: year_up.induct)
  case (1 y d)
  then show ?case by (cases "day_from_year (y + 1) \<le> d") (simp_all add: year_up.simps [of y d])
qed

lemma year_start: "day_from_year (1969 + 400 * d div 146097) \<le> d"
proof -
  define k where "k = 400 * d div 146097"
  have k: "146097 * k \<le> 400 * d" unfolding k_def by simp
  obtain a b c where abc: "a = k div 4" "b = (k + 68) div 100" "c = (k + 368) div 400"
    by blast
  have "4 * a \<le> k" "k \<le> 31 + 100 * b" "400 * c \<le> k + 368"
    unfolding abc by simp_all
  with k have "365 * k + a - b + c \<le> d + 365" by linarith
  then have "365 * (k - 1) + a - b + c \<le> d" by simp
  then have "365 * (k - 1) + k div 4 - (k + 68) div 100 + (k + 368) div 400 \<le> d"
    unfolding abc .
  then show ?thesis by (simp add: day_from_year_def k_def algebra_simps)
qed

lemma year_of_day_bounds:
  "day_from_year (year_of_day d) \<le> d" "d < day_from_year (year_of_day d + 1)"
  using year_up_bounds [OF year_start] by (simp_all add: year_of_day_def)

lemma day_from_year_mono: "y \<le> z \<Longrightarrow> day_from_year y \<le> day_from_year z"
proof (induction z rule: int_ge_induct)
  case base
  then show ?case by simp
next
  case (step z)
  with day_from_year_step [of z] show ?case by linarith
qed

lemma year_of_day_unique:
  assumes "day_from_year y \<le> d" "d < day_from_year (y + 1)"
  shows "year_of_day d = y"
proof (rule ccontr)
  assume "year_of_day d \<noteq> y"
  then consider "year_of_day d + 1 \<le> y" | "y + 1 \<le> year_of_day d" by linarith
  then show False
  proof cases
    case 1
    from day_from_year_mono [OF this] year_of_day_bounds(2) [of d] assms(1) show False by linarith
  next
    case 2
    from day_from_year_mono [OF this] year_of_day_bounds(1) [of d] assms(2) show False by linarith
  qed
qed

lemma year_of_day_mono: "d \<le> e \<Longrightarrow> year_of_day d \<le> year_of_day e"
proof (rule ccontr)
  assume "d \<le> e" "\<not> year_of_day d \<le> year_of_day e"
  then have "year_of_day e + 1 \<le> year_of_day d" by linarith
  from day_from_year_mono [OF this] year_of_day_bounds [of d] year_of_day_bounds [of e] \<open>d \<le> e\<close>
  show False by linarith
qed

lemma div_succ:
  fixes x n :: int
  assumes "0 < n"
  shows "(x + 1) div n = x div n + (if (x + 1) mod n = 0 then 1 else 0)"
proof -
  obtain q r where x: "x = q * n + r" "0 \<le> r" "r < n"
    using assms by (metis div_mult_mod_eq pos_mod_bound pos_mod_sign)
  then have q: "x div n = q" by (simp add: int_div_pos_eq mult.commute)
  show ?thesis
  proof (cases "r + 1 = n")
    case True
    with x have "x + 1 = (q + 1) * n" by (simp add: algebra_simps)
    with q assms show ?thesis by simp
  next
    case False
    with x have e: "x + 1 = n * q + (r + 1)" "0 \<le> r + 1" "r + 1 < n" by simp_all
    have "(x + 1) div n = q" by (rule int_div_pos_eq [OF e])
    moreover have "(x + 1) mod n = r + 1" by (rule int_mod_pos_eq [OF e])
    ultimately show ?thesis using x q by simp
  qed
qed

lemma sum_month_lengths: "sum_list (month_lengths y) = (if is_leap y then 366 else 365)"
  by (simp add: month_lengths_def)

lemma year_length: "day_from_year (y + 1) = day_from_year y + sum_list (month_lengths y)"
proof -
  have m: "(y - 1969 + 1) mod 4 = y mod 4" "(y - 1901 + 1) mod 100 = y mod 100"
    "(y - 1601 + 1) mod 400 = y mod 400"
    using mod_mult_self1 [of y "-492" 4] mod_mult_self1 [of y "-19" 100]
      mod_mult_self1 [of y "-4" 400] by simp_all
  have d: "y mod 100 = 0 \<Longrightarrow> y mod 4 = 0" "y mod 400 = 0 \<Longrightarrow> y mod 100 = 0"
    using dvd_trans [of 4 100 y] dvd_trans [of 100 400 y] by (simp_all add: mod_eq_0_iff_dvd)
  obtain a b c where abc: "a = (y - 1969) div 4" "b = (y - 1901) div 100" "c = (y - 1601) div 400"
    by blast
  have e: "(y - 1969 + 1) div 4 = a + (if y mod 4 = 0 then 1 else 0)"
    "(y - 1901 + 1) div 100 = b + (if y mod 100 = 0 then 1 else 0)"
    "(y - 1601 + 1) div 400 = c + (if y mod 400 = 0 then 1 else 0)"
    unfolding abc by (simp_all only: div_succ m simp_thms zero_less_numeral)
  have sh: "y + 1 - 1970 = y - 1970 + 1" "y + 1 - 1969 = y - 1969 + 1"
    "y + 1 - 1901 = y - 1901 + 1" "y + 1 - 1601 = y - 1601 + 1" by simp_all
  have "day_from_year (y + 1) = 365 * (y - 1970) + 365
      + (a + (if y mod 4 = 0 then 1 else 0)) - (b + (if y mod 100 = 0 then 1 else 0))
      + (c + (if y mod 400 = 0 then 1 else 0))"
    unfolding day_from_year_def sh e by (simp only: distrib_left mult_1_right)
  moreover have "day_from_year y = 365 * (y - 1970) + a - b + c"
    unfolding day_from_year_def abc by simp
  ultimately show ?thesis
    using d by (cases "y mod 4 = 0"; cases "y mod 100 = 0"; cases "y mod 400 = 0")
      (simp_all add: sum_month_lengths is_leap_def)
qed


subsection \<open>Months\<close>

lemma month_lengths_pos: "\<forall>n \<in> set (month_lengths y). 0 < n"
  by (simp add: month_lengths_def)

text \<open>Walking the months is monotone in the day, and the day of the month stays in its month.\<close>

lemma month_walk_ge: "0 \<le> d \<Longrightarrow> m \<le> fst (month_walk ns m d)"
proof (induction ns m d rule: month_walk.induct)
  case (2 n ns m d)
  then show ?case by (cases "d < n") fastforce+
qed simp

lemma month_walk_mono:
  assumes "0 \<le> d" "d < e" "\<forall>n \<in> set ns. 0 < n"
  shows "fst (month_walk ns m d) < fst (month_walk ns m e) \<or>
     (fst (month_walk ns m d) = fst (month_walk ns m e)
       \<and> snd (month_walk ns m d) < snd (month_walk ns m e))"
  using assms
proof (induction ns arbitrary: m d e)
  case Nil
  then show ?case by simp
next
  case (Cons n ns)
  then show ?case
    using month_walk_ge [of "e - n" "m + 1" ns] by (auto simp: not_less)
qed

lemma month_walk_bounds:
  "0 \<le> d \<Longrightarrow> d < sum_list ns \<Longrightarrow>
     \<exists>k < length ns. fst (month_walk ns m d) = m + int k
        \<and> 1 \<le> snd (month_walk ns m d) \<and> snd (month_walk ns m d) \<le> ns ! k
        \<and> d = sum_list (take k ns) + snd (month_walk ns m d) - 1"
proof (induction ns arbitrary: m d)
  case Nil
  then show ?case by simp
next
  case (Cons n ns)
  show ?case
  proof (cases "d < n")
    case True
    with Cons.prems show ?thesis by (intro exI [of _ 0]) simp
  next
    case False
    with Cons.prems obtain k where "k < length ns" "fst (month_walk ns (m + 1) (d - n)) = m + 1 + int k"
      "1 \<le> snd (month_walk ns (m + 1) (d - n))" "snd (month_walk ns (m + 1) (d - n)) \<le> ns ! k"
      "d - n = sum_list (take k ns) + snd (month_walk ns (m + 1) (d - n)) - 1"
      using Cons.IH [of "d - n" "m + 1"] by auto
    with False show ?thesis by (intro exI [of _ "Suc k"]) simp
  qed
qed

lemma month_lengths_le: "k < 12 \<Longrightarrow> month_lengths y ! k \<le> 31"
  using nth_mem [of k "month_lengths y"] by (auto simp: month_lengths_def)

section \<open>The text of a date\<close>

text \<open>\<open>String(n).padStart(k, "0")\<close> for \<open>n\<close> not negative.\<close>

definition pad_num :: "nat \<Rightarrow> int \<Rightarrow> string" where
  "pad_num k n = pad_start k CHR ''0'' (num_str 10 (nat n))"

definition iso_year :: "int \<Rightarrow> string" where
  "iso_year y =
     (if 0 \<le> y \<and> y \<le> 9999 then pad_num 4 y
      else (if y < 0 then ''-'' else ''+'') @ pad_num 6 \<bar>y\<bar>)"

definition iso_text :: "date_fields \<Rightarrow> string" where
  "iso_text f =
     iso_year (df_year f) @ ''-'' @ pad_num 2 (df_month f + 1) @ ''-'' @ pad_num 2 (df_date f) @
     ''T'' @ pad_num 2 (df_hours f) @ '':'' @ pad_num 2 (df_minutes f) @ '':'' @
     pad_num 2 (df_seconds f) @ ''.'' @ pad_num 3 (df_millis f) @ ''Z''"

definition to_iso :: "int \<Rightarrow> string" where
  "to_iso t = iso_text (utc_fields t)"

text \<open>\<open>toISOString\<close>: Invalid Date throws a RangeError, which is \<open>None\<close> here.\<close>

fun to_iso_string :: "js_date \<Rightarrow> string option" where
  "to_iso_string Invalid_Date = None"
| "to_iso_string (Time t) = Some (to_iso t)"

text \<open>\<open>new Date(ms)\<close> for an integral number of milliseconds.\<close>

definition date_of_ms :: "int \<Rightarrow> js_date" where
  "date_of_ms t = (if \<bar>t\<bar> \<le> 8640000000000000 then Time t else Invalid_Date)"

text \<open>\<open>d1 >= d2\<close> on dates: NaN compares false with everything.\<close>

fun date_ge :: "js_date \<Rightarrow> js_date \<Rightarrow> bool" where
  "date_ge (Time a) (Time b) = (b \<le> a)"
| "date_ge _ _ = False"

subsection \<open>ISO texts compare as times\<close>

lemma append_less_iff:
  fixes a b c d :: string
  shows "length a = length b \<Longrightarrow> a @ c < b @ d \<longleftrightarrow> a < b \<or> (a = b \<and> c < d)"
  by (induction a b rule: list_induct2) auto

lemma length_num_str_le: "n < 10 ^ k \<Longrightarrow> 0 < k \<Longrightarrow> length (num_str 10 n) \<le> k"
  by (rule length_num_str) simp_all

lemma is_dig_zero [simp]: "is_dig 10 CHR ''0''"
  by (simp add: is_dig_def digit_chars_def)

lemma pad_num_dig: "\<forall>c \<in> set (pad_num k n). is_dig 10 c"
  using num_str_dig [of 10 "nat n"] by (auto simp: pad_num_def pad_start_def)

lemma length_pad_num: "0 < k \<Longrightarrow> n < 10 ^ k \<Longrightarrow> length (pad_num k n) = k"
proof -
  assume "0 < k" "n < 10 ^ k"
  then have "nat n < 10 ^ k" by (cases "0 \<le> n") (simp_all add: nat_less_iff)
  with \<open>0 < k\<close> show ?thesis using length_num_str_le [of "nat n" k] by (simp add: pad_num_def)
qed

lemma num_val_pad_num [simp]: "0 \<le> n \<Longrightarrow> int (num_val 10 (pad_num k n)) = n"
  by (simp add: pad_num_def)

lemma pad_num_less:
  assumes "0 < k" "0 \<le> m" "m < 10 ^ k" "0 \<le> n" "n < 10 ^ k"
  shows "pad_num k m < pad_num k n \<longleftrightarrow> m < n" "pad_num k m = pad_num k n \<longleftrightarrow> m = n"
proof -
  have "length (pad_num k m) = length (pad_num k n)" using assms by (simp add: length_pad_num)
  then have "pad_num k m < pad_num k n \<longleftrightarrow> num_val 10 (pad_num k m) < num_val 10 (pad_num k n)"
    by (intro num_val_less_iff) (use pad_num_dig in auto)
  also have "\<dots> \<longleftrightarrow> int (num_val 10 (pad_num k m)) < int (num_val 10 (pad_num k n))" by simp
  also have "\<dots> \<longleftrightarrow> m < n" using assms by (simp only: num_val_pad_num)
  finally show "pad_num k m < pad_num k n \<longleftrightarrow> m < n" .
  show "pad_num k m = pad_num k n \<longleftrightarrow> m = n" using assms num_val_pad_num by metis
qed

definition fields_ok :: "date_fields \<Rightarrow> bool" where
  "fields_ok f \<longleftrightarrow>
     0 \<le> df_month f \<and> df_month f \<le> 11 \<and>
     1 \<le> df_date f \<and> df_date f \<le> month_lengths (df_year f) ! nat (df_month f) \<and>
     0 \<le> df_hours f \<and> df_hours f < 24 \<and> 0 \<le> df_minutes f \<and> df_minutes f < 60 \<and>
     0 \<le> df_seconds f \<and> df_seconds f < 60 \<and> 0 \<le> df_millis f \<and> df_millis f < 1000"

definition fields_key :: "date_fields \<Rightarrow> int list" where
  "fields_key f = [df_year f, df_month f, df_date f, df_hours f, df_minutes f, df_seconds f, df_millis f]"

definition four_digit_year :: "int \<Rightarrow> bool" where
  "four_digit_year y = (0 \<le> y \<and> y \<le> 9999)"

lemma pad_append_less:
  assumes "0 < k" "0 \<le> m" "m < 10 ^ k" "0 \<le> n" "n < 10 ^ k"
  shows "pad_num k m @ c < pad_num k n @ d \<longleftrightarrow> m < n \<or> (m = n \<and> c < d)"
  using assms by (simp add: append_less_iff length_pad_num pad_num_less)

lemma fields_ok_date: "fields_ok f \<Longrightarrow> df_date f \<le> 31"
proof -
  assume ok: "fields_ok f"
  then have "nat (df_month f) < 12" unfolding fields_ok_def by linarith
  with ok month_lengths_le show "df_date f \<le> 31" unfolding fields_ok_def by (meson order_trans)
qed

lemma iso_text_less:
  assumes "fields_ok f" "fields_ok g" "four_digit_year (df_year f)" "four_digit_year (df_year g)"
  shows "iso_text f < iso_text g \<longleftrightarrow> fields_key f < fields_key g"
proof -
  have y: "pad_num 4 (df_year f) @ c < pad_num 4 (df_year g) @ d \<longleftrightarrow>
      df_year f < df_year g \<or> (df_year f = df_year g \<and> c < d)" for c d
    using assms(3,4) by (intro pad_append_less) (simp_all add: four_digit_year_def)
  note ok = assms(1,2) [unfolded fields_ok_def]
  have date: "df_date f < 100" "df_date g < 100"
    using fields_ok_date [OF assms(1)] fields_ok_date [OF assms(2)] by simp_all
  have two: "pad_num 2 m @ c < pad_num 2 n @ d \<longleftrightarrow> m < n \<or> (m = n \<and> c < d)"
    if "0 \<le> m \<and> m < 100 \<and> 0 \<le> n \<and> n < 100" for m n c d
    using that by (intro pad_append_less) simp_all
  note parts =
    two [of "df_month f + 1" "df_month g + 1"] two [of "df_date f" "df_date g"]
    two [of "df_hours f" "df_hours g"] two [of "df_minutes f" "df_minutes g"]
    two [of "df_seconds f" "df_seconds g"]
  have ranges: "0 \<le> df_month f + 1 \<and> df_month f + 1 < 100 \<and> 0 \<le> df_month g + 1 \<and> df_month g + 1 < 100"
    "0 \<le> df_date f \<and> df_date f < 100 \<and> 0 \<le> df_date g \<and> df_date g < 100"
    "0 \<le> df_hours f \<and> df_hours f < 100 \<and> 0 \<le> df_hours g \<and> df_hours g < 100"
    "0 \<le> df_minutes f \<and> df_minutes f < 100 \<and> 0 \<le> df_minutes g \<and> df_minutes g < 100"
    "0 \<le> df_seconds f \<and> df_seconds f < 100 \<and> 0 \<le> df_seconds g \<and> df_seconds g < 100"
    using ok date by linarith+
  have three: "pad_num 3 (df_millis f) @ c < pad_num 3 (df_millis g) @ d \<longleftrightarrow>
      df_millis f < df_millis g \<or> (df_millis f = df_millis g \<and> c < d)" for c d
    using assms(1,2) by (intro pad_append_less) (simp_all add: fields_ok_def)
  have "iso_text f < iso_text g \<longleftrightarrow>
    df_year f < df_year g \<or> df_year f = df_year g \<and>
      (df_month f + 1 < df_month g + 1 \<or> df_month f + 1 = df_month g + 1 \<and>
       (df_date f < df_date g \<or> df_date f = df_date g \<and>
        (df_hours f < df_hours g \<or> df_hours f = df_hours g \<and>
         (df_minutes f < df_minutes g \<or> df_minutes f = df_minutes g \<and>
          (df_seconds f < df_seconds g \<or> df_seconds f = df_seconds g \<and>
           df_millis f < df_millis g)))))"
    using assms(3,4)
    by (simp only: iso_text_def iso_year_def four_digit_year_def y parts(1) [OF ranges(1)]
        parts(2) [OF ranges(2)] parts(3) [OF ranges(3)] parts(4) [OF ranges(4)]
        parts(5) [OF ranges(5)] three if_True simp_thms
        append_Cons append_Nil Cons_less_Cons less_irrefl) 
  then show ?thesis by (simp add: fields_key_def add1_zle_eq)
qed

subsection \<open>The fields of a time\<close>

lemma div_mod_less:
  fixes a b k :: int
  assumes "0 < k" "a < b"
  shows "a div k < b div k \<or> (a div k = b div k \<and> a mod k < b mod k)"
proof (cases "a div k = b div k")
  case True
  have "a div k * k + a mod k < b div k * k + b mod k"
    unfolding div_mult_mod_eq by (rule assms(2))
  then have "a mod k < b mod k" unfolding True by (rule add_less_imp_less_left)
  with True show ?thesis by simp
next
  case False
  with assms show ?thesis using zdiv_mono1 [of a b k] by simp
qed

lemma day_in_year: "0 \<le> d - day_from_year (year_of_day d)"
  "d - day_from_year (year_of_day d) < sum_list (month_lengths (year_of_day d))"
  using year_of_day_bounds [of d] year_length [of "year_of_day d"] by simp_all

lemma utc_fields_sel:
  "df_year (utc_fields t) = year_of_day (t div ms_per_day)"
  "df_month (utc_fields t) = fst (month_walk (month_lengths (year_of_day (t div ms_per_day))) 0
      (t div ms_per_day - day_from_year (year_of_day (t div ms_per_day))))"
  "df_date (utc_fields t) = snd (month_walk (month_lengths (year_of_day (t div ms_per_day))) 0
      (t div ms_per_day - day_from_year (year_of_day (t div ms_per_day))))"
  "df_hours (utc_fields t) = t mod ms_per_day div 3600000"
  "df_minutes (utc_fields t) = t mod ms_per_day mod 3600000 div 60000"
  "df_seconds (utc_fields t) = t mod ms_per_day mod 3600000 mod 60000 div 1000"
  "df_millis (utc_fields t) = t mod ms_per_day mod 3600000 mod 60000 mod 1000"
  by (simp_all add: utc_fields_def Let_def split: prod.split)

text \<open>The time a set of fields stands for, and the fields of a time as a decomposition of it.\<close>

definition time_of_fields :: "date_fields \<Rightarrow> int" where
  "time_of_fields f =
     (day_from_year (df_year f) + sum_list (take (nat (df_month f)) (month_lengths (df_year f)))
        + df_date f - 1) * ms_per_day
     + df_hours f * 3600000 + df_minutes f * 60000 + df_seconds f * 1000 + df_millis f"

lemma utc_month_facts:
  "\<exists>k < 12. df_month (utc_fields t) = int k
     \<and> 1 \<le> df_date (utc_fields t)
     \<and> df_date (utc_fields t) \<le> month_lengths (df_year (utc_fields t)) ! k
     \<and> t div ms_per_day = day_from_year (df_year (utc_fields t))
          + sum_list (take k (month_lengths (df_year (utc_fields t)))) + df_date (utc_fields t) - 1"
proof -
  define y where "y = year_of_day (t div ms_per_day)"
  define d where "d = t div ms_per_day - day_from_year y"
  have "0 \<le> d" "d < sum_list (month_lengths y)" using day_in_year by (simp_all add: d_def y_def)
  from month_walk_bounds [OF this, of 0] obtain k where "k < length (month_lengths y)"
    "fst (month_walk (month_lengths y) 0 d) = 0 + int k"
    "1 \<le> snd (month_walk (month_lengths y) 0 d)"
    "snd (month_walk (month_lengths y) 0 d) \<le> month_lengths y ! k"
    "d = sum_list (take k (month_lengths y)) + snd (month_walk (month_lengths y) 0 d) - 1"
    by blast
  moreover have "length (month_lengths y) = 12" by (simp add: month_lengths_def)
  ultimately show ?thesis
    unfolding utc_fields_sel y_def [symmetric] d_def [symmetric]
    by (intro exI [of _ k]) (simp add: d_def)
qed

lemma tod_bounds: "0 \<le> t mod ms_per_day" "t mod ms_per_day < 86400000"
  by (simp_all add: ms_per_day_def)

lemma fields_ok_utc: "fields_ok (utc_fields t)"
proof -
  have "t mod ms_per_day div 3600000 < 24" "0 \<le> t mod ms_per_day div 3600000"
    using tod_bounds [of t] by (simp_all add: pos_imp_zdiv_nonneg_iff)
  moreover have "0 \<le> x mod 3600000 div 60000 \<and> x mod 3600000 div 60000 < 60" for x :: int
    using pos_mod_bound [of 3600000 x] by (simp add: pos_imp_zdiv_nonneg_iff)
  moreover have "0 \<le> x mod 60000 div 1000 \<and> x mod 60000 div 1000 < 60" for x :: int
    using pos_mod_bound [of 60000 x] by (simp add: pos_imp_zdiv_nonneg_iff)
  ultimately show ?thesis
    using utc_month_facts [of t] by (auto simp: fields_ok_def utc_fields_sel(4-))
qed

lemma time_of_utc_fields [simp]: "time_of_fields (utc_fields t) = t"
proof -
  obtain k where k: "df_month (utc_fields t) = int k"
    "t div ms_per_day = day_from_year (df_year (utc_fields t))
       + sum_list (take k (month_lengths (df_year (utc_fields t)))) + df_date (utc_fields t) - 1"
    using utc_month_facts [of t] by auto
  have "time_of_fields (utc_fields t) = t div ms_per_day * ms_per_day
      + df_hours (utc_fields t) * 3600000 + df_minutes (utc_fields t) * 60000
      + df_seconds (utc_fields t) * 1000 + df_millis (utc_fields t)"
    unfolding time_of_fields_def by (simp add: k(1)) (simp add: k(2))
  also have "\<dots> = t div ms_per_day * ms_per_day + t mod ms_per_day"
    unfolding utc_fields_sel(4-)
    by (simp only: add.assoc div_mult_mod_eq)
  finally show ?thesis by simp
qed

lemma fields_key_mono:
  assumes "t < u"
  shows "fields_key (utc_fields t) < fields_key (utc_fields u)"
proof -
  let ?D = "\<lambda>t. t div ms_per_day"
  have tod:
      "[df_hours (utc_fields t), df_minutes (utc_fields t), df_seconds (utc_fields t), df_millis (utc_fields t)]
      < [df_hours (utc_fields u), df_minutes (utc_fields u), df_seconds (utc_fields u), df_millis (utc_fields u)]"
    if "t mod ms_per_day < u mod ms_per_day"
    unfolding utc_fields_sel(4-) Cons_less_Cons
    using div_mod_less [of 3600000, OF _ that]
      div_mod_less [of 60000 "t mod ms_per_day mod 3600000" "u mod ms_per_day mod 3600000"]
      div_mod_less [of 1000 "t mod ms_per_day mod 3600000 mod 60000" "u mod ms_per_day mod 3600000 mod 60000"]
      zero_less_numeral [where 'a = int] by blast
  consider "?D t < ?D u" | "?D t = ?D u" "t mod ms_per_day < u mod ms_per_day"
    using div_mod_less [OF _ assms, of ms_per_day] by (auto simp: ms_per_day_def)
  then show ?thesis
  proof cases
    case 1
    then have "df_year (utc_fields t) \<le> df_year (utc_fields u)"
      by (simp add: utc_fields_sel year_of_day_mono)
    moreover
    { assume same: "df_year (utc_fields t) = df_year (utc_fields u)"
      have "0 \<le> ?D t - day_from_year (year_of_day (?D t))" by (rule day_in_year)
      moreover have "?D t - day_from_year (year_of_day (?D t)) < ?D u - day_from_year (year_of_day (?D u))"
        using 1 same by (simp add: utc_fields_sel)
      ultimately have "df_month (utc_fields t) < df_month (utc_fields u) \<or>
          (df_month (utc_fields t) = df_month (utc_fields u) \<and> df_date (utc_fields t) < df_date (utc_fields u))"
        using month_walk_mono [OF _ _ month_lengths_pos] same by (simp add: utc_fields_sel) }
    ultimately show ?thesis by (auto simp: fields_key_def)
  next
    case 2
    then have "df_year (utc_fields t) = df_year (utc_fields u)"
      "df_month (utc_fields t) = df_month (utc_fields u)" "df_date (utc_fields t) = df_date (utc_fields u)"
      by (simp_all add: utc_fields_sel)
    with tod [OF 2(2)] show ?thesis by (simp add: fields_key_def)
  qed
qed

definition iso_range :: "int \<Rightarrow> bool" where
  "iso_range t = four_digit_year (df_year (utc_fields t))"

lemma iso_less_iff:
  assumes "iso_range t" "iso_range u"
  shows "to_iso t < to_iso u \<longleftrightarrow> t < u"
proof -
  have "to_iso t < to_iso u \<longleftrightarrow> fields_key (utc_fields t) < fields_key (utc_fields u)"
    using assms by (simp add: to_iso_def iso_range_def iso_text_less fields_ok_utc)
  then show ?thesis using fields_key_mono by (metis less_asym less_irrefl linorder_less_linear)
qed

lemma iso_eq_iff: "iso_range t \<Longrightarrow> iso_range u \<Longrightarrow> to_iso t = to_iso u \<longleftrightarrow> t = u"
  by (metis iso_less_iff less_irrefl linorder_less_linear)

section \<open>Reading a stored date back\<close>

fun scan_char :: "char \<Rightarrow> string \<Rightarrow> string option" where
  "scan_char c [] = None"
| "scan_char c (x # xs) = (if x = c then Some xs else None)"

definition scan_num :: "nat \<Rightarrow> string \<Rightarrow> (int \<times> string) option" where
  "scan_num k s =
     (if k \<le> length s \<and> list_all is_digit (take k s)
      then Some (int (num_val 10 (take k s)), drop k s) else None)"

definition scan_year :: "string \<Rightarrow> (int \<times> string) option" where
  "scan_year s =
     (case s of
        [] \<Rightarrow> None
      | c # cs \<Rightarrow>
          if c = CHR ''+'' then scan_num 6 cs
          else if c = CHR ''-'' then map_option (\<lambda>(y, r). (- y, r)) (scan_num 6 cs)
          else scan_num 4 s)"

text \<open>
  The form toISOString writes, and only that form: a text with any other shape, or with a
  field out of range, is left to the engine.
\<close>

definition parse_iso :: "string \<Rightarrow> int option" where
  "parse_iso s = do {
     (y, s) \<leftarrow> scan_year s; s \<leftarrow> scan_char CHR ''-'' s;
     (m, s) \<leftarrow> scan_num 2 s; s \<leftarrow> scan_char CHR ''-'' s;
     (d, s) \<leftarrow> scan_num 2 s; s \<leftarrow> scan_char CHR ''T'' s;
     (h, s) \<leftarrow> scan_num 2 s; s \<leftarrow> scan_char CHR '':'' s;
     (mi, s) \<leftarrow> scan_num 2 s; s \<leftarrow> scan_char CHR '':'' s;
     (sec, s) \<leftarrow> scan_num 2 s; s \<leftarrow> scan_char CHR ''.'' s;
     (ms, s) \<leftarrow> scan_num 3 s; s \<leftarrow> scan_char CHR ''Z'' s;
     let f = \<lparr>df_year = y, df_month = m - 1, df_date = d, df_hours = h,
              df_minutes = mi, df_seconds = sec, df_millis = ms\<rparr>;
     if s = [] \<and> fields_ok f then Some (time_of_fields f) else None }"

text \<open>\<open>new Date(s)\<close>.\<close>

definition new_date :: "(string \<Rightarrow> js_date) \<Rightarrow> string \<Rightarrow> js_date" where
  "new_date legacy s = (case parse_iso s of Some t \<Rightarrow> Time t | None \<Rightarrow> legacy s)"

lemma scan_char_same [simp]: "scan_char c (c # r) = Some r"
  by simp

lemma scan_num_pad:
  assumes "0 < k" "0 \<le> n" "n < 10 ^ k"
  shows "scan_num k (pad_num k n @ r) = Some (n, r)"
proof -
  have "list_all is_digit (pad_num k n)"
    using pad_num_dig [of k n] by (simp add: list_all_iff is_digit_dig)
  with assms show ?thesis by (simp add: scan_num_def length_pad_num)
qed

text \<open>The years a Date can have need at most six digits.\<close>

definition six_digit_year :: "int \<Rightarrow> bool" where
  "six_digit_year y = (\<bar>y\<bar> < 1000000)"

lemma hd_pad_num:
  assumes "0 < k" "0 \<le> n" "n < 10 ^ k"
  shows "\<exists>c cs. pad_num k n = c # cs \<and> c \<noteq> CHR ''+'' \<and> c \<noteq> CHR ''-''"
proof -
  have "length (pad_num k n) = k" using assms by (simp add: length_pad_num)
  with assms(1) obtain c cs where "pad_num k n = c # cs" by (cases "pad_num k n") auto
  moreover from this pad_num_dig [of k n] have "is_dig 10 c" by simp
  ultimately show ?thesis by (auto simp: is_dig_def digit_chars_def)
qed

lemma scan_year_iso:
  assumes "six_digit_year y"
  shows "scan_year (iso_year y @ r) = Some (y, r)"
proof -
  consider "0 \<le> y \<and> y \<le> 9999" | "y < 0" | "y > 9999" by linarith
  then show ?thesis
  proof cases
    case 1
    with hd_pad_num [of 4 y] obtain c cs where c: "pad_num 4 y = c # cs" "c \<noteq> CHR ''+''" "c \<noteq> CHR ''-''"
      by auto
    from 1 have "scan_num 4 (pad_num 4 y @ r) = Some (y, r)" by (intro scan_num_pad) simp_all
    with 1 c show ?thesis by (simp add: scan_year_def iso_year_def)
  next
    case 2
    with assms have "scan_num 6 (pad_num 6 (- y) @ r) = Some (- y, r)"
      by (intro scan_num_pad) (simp_all add: six_digit_year_def)
    with 2 show ?thesis by (simp add: scan_year_def iso_year_def)
  next
    case 3
    with assms have "scan_num 6 (pad_num 6 y @ r) = Some (y, r)"
      by (intro scan_num_pad) (simp_all add: six_digit_year_def)
    with 3 show ?thesis by (simp add: scan_year_def iso_year_def)
  qed
qed

lemma parse_iso_text:
  assumes ok: "fields_ok f" and y: "six_digit_year (df_year f)"
  shows "parse_iso (iso_text f) = Some (time_of_fields f)"
proof -
  note ranges = ok [unfolded fields_ok_def] fields_ok_date [OF ok]
  have "scan_num 2 (pad_num 2 (df_month f + 1) @ r) = Some (df_month f + 1, r)"
    "scan_num 2 (pad_num 2 (df_date f) @ r) = Some (df_date f, r)"
    "scan_num 2 (pad_num 2 (df_hours f) @ r) = Some (df_hours f, r)"
    "scan_num 2 (pad_num 2 (df_minutes f) @ r) = Some (df_minutes f, r)"
    "scan_num 2 (pad_num 2 (df_seconds f) @ r) = Some (df_seconds f, r)"
    "scan_num 3 (pad_num 3 (df_millis f) @ r) = Some (df_millis f, r)" for r
    using ranges by (intro scan_num_pad; simp)+
  note scans = this scan_year_iso [OF y]
  have "\<lparr>df_year = df_year f, df_month = df_month f + 1 - 1, df_date = df_date f,
      df_hours = df_hours f, df_minutes = df_minutes f, df_seconds = df_seconds f,
      df_millis = df_millis f\<rparr> = f" by (cases f) simp
  with ok show ?thesis
    unfolding parse_iso_def iso_text_def
    by (simp only: scans bind.bind_lunit scan_char_same append_Cons append_Nil prod.case Let_def)
      simp
qed

text \<open>The range of a Date: 100 million days around 1970.\<close>

fun date_in_range :: "js_date \<Rightarrow> bool" where
  "date_in_range Invalid_Date = True"
| "date_in_range (Time t) = (\<bar>t\<bar> \<le> 8640000000000000)"

lemma in_range_six_digits:
  assumes "\<bar>t\<bar> \<le> 8640000000000000"
  shows "six_digit_year (df_year (utc_fields t))"
proof -
  define d where "d = t div ms_per_day"
  have "- 100000000 \<le> d" "d \<le> 100000000"
    using assms zdiv_mono1 [of "-8640000000000000" t ms_per_day]
      zdiv_mono1 [of t 8640000000000000 ms_per_day]
    by (simp_all add: d_def ms_per_day_def)
  moreover have "day_from_year 1000000 > 100000000" "day_from_year (-999999) < -100000000"
    by (simp_all add: day_from_year_def)
  ultimately have "\<not> 1000000 \<le> year_of_day d" "\<not> year_of_day d + 1 \<le> -999999"
    using day_from_year_mono [of 1000000 "year_of_day d"]
      day_from_year_mono [of "year_of_day d + 1" "-999999"] year_of_day_bounds [of d]
    by linarith+
  then show ?thesis by (simp add: utc_fields_sel d_def six_digit_year_def)
qed

lemma parse_iso_to_iso: "\<bar>t\<bar> \<le> 8640000000000000 \<Longrightarrow> parse_iso (to_iso t) = Some t"
  by (simp add: to_iso_def parse_iso_text fields_ok_utc in_range_six_digits)

lemma new_date_to_iso: "\<bar>t\<bar> \<le> 8640000000000000 \<Longrightarrow> new_date legacy (to_iso t) = Time t"
  by (simp add: new_date_def parse_iso_to_iso)

text \<open>Different times have different texts, whatever their year.\<close>

lemma to_iso_inj:
  "\<bar>t\<bar> \<le> 8640000000000000 \<Longrightarrow> \<bar>u\<bar> \<le> 8640000000000000 \<Longrightarrow> to_iso t = to_iso u \<longleftrightarrow> t = u"
  by (metis option.inject parse_iso_to_iso)

end
