(* ===== verification/CheckRows.thy ===== *)
theory CheckRows
  imports JsDate
begin

text \<open>
  src/src/checkRows.ts: one batch of check results is reduced to at most two rows per address
  before it is stored. The code compares row objects by identity; here a row is tagged
  with its position in the batch, which is what tells two objects of the array apart.
\<close>

record check_row =
  cr_ip :: string
  cr_ok :: bool
  cr_rttMs :: "int option"
  cr_reason :: "string option"
  cr_detail :: "string option"
  cr_checkedAt :: js_date
  cr_scanMode :: string

section \<open>The operation\<close>

text \<open>The entry of the Map for one address.\<close>

record co_state =
  latest :: "nat \<times> check_row"
  latestSuccess :: "(nat \<times> check_row) option"

definition co_init :: "nat \<times> check_row \<Rightarrow> co_state" where
  "co_init row = \<lparr>latest = row, latestSuccess = (if cr_ok (snd row) then Some row else None)\<rparr>"

definition co_update :: "nat \<times> check_row \<Rightarrow> co_state \<Rightarrow> co_state" where
  "co_update row state =
     (let state = (if date_ge (cr_checkedAt (snd row)) (cr_checkedAt (snd (latest state)))
                   then state\<lparr>latest := row\<rparr> else state)
      in if cr_ok (snd row) \<and>
            (case latestSuccess state of
               None \<Rightarrow> True
             | Some s \<Rightarrow> date_ge (cr_checkedAt (snd row)) (cr_checkedAt (snd s)))
         then state\<lparr>latestSuccess := Some row\<rparr> else state)"

definition co_step :: "(string \<times> co_state) list \<Rightarrow> nat \<times> check_row \<Rightarrow> (string \<times> co_state) list" where
  "co_step byIP row =
     (case map_of byIP (cr_ip (snd row)) of
        None \<Rightarrow> al_put (cr_ip (snd row)) (co_init row) byIP
      | Some state \<Rightarrow> al_put (cr_ip (snd row)) (co_update row state) byIP)"

definition co_emit :: "co_state \<Rightarrow> check_row list" where
  "co_emit state =
     (case latestSuccess state of
        None \<Rightarrow> []
      | Some s \<Rightarrow> if fst s \<noteq> fst (latest state) then [snd s] else [])
     @ [snd (latest state)]"

definition coalesceCheckRows :: "check_row list \<Rightarrow> check_row list" where
  "coalesceCheckRows rows =
     concat (map (\<lambda>(ip, state). co_emit state) (foldl co_step [] (enumerate 0 rows)))"

section \<open>The reference: the rightmost newest element\<close>

fun newest_by :: "('a \<Rightarrow> js_date) \<Rightarrow> 'a list \<Rightarrow> 'a option" where
  "newest_by k [] = None"
| "newest_by k (x # xs) =
     (case newest_by k xs of
        None \<Rightarrow> Some x
      | Some n \<Rightarrow> Some (if date_ge (k n) (k x) then n else x))"

abbreviation newest :: "check_row list \<Rightarrow> check_row option" where
  "newest \<equiv> newest_by cr_checkedAt"

abbreviation rows_for :: "string \<Rightarrow> check_row list \<Rightarrow> check_row list" where
  "rows_for ip \<equiv> filter (\<lambda>r. cr_ip r = ip)"

lemma date_ge_iff: "date_ge a b \<longleftrightarrow> (\<exists>x y. a = Time x \<and> b = Time y \<and> y \<le> x)"
  by (cases a; cases b) auto

lemma newest_by_None [simp]: "newest_by k xs = None \<longleftrightarrow> xs = []"
  by (induction xs) (auto split: option.splits)

lemma newest_by_in: "newest_by k xs = Some n \<Longrightarrow> n \<in> set xs"
  by (induction xs arbitrary: n) (auto split: option.splits if_splits)

lemma newest_by_map: "newest_by k (map f xs) = map_option f (newest_by (\<lambda>x. k (f x)) xs)"
  by (induction xs) (auto split: option.splits)

text \<open>On valid dates: nothing before it is newer, everything after it is older.\<close>

definition valid_dates :: "('a \<Rightarrow> js_date) \<Rightarrow> 'a list \<Rightarrow> bool" where
  "valid_dates k xs \<longleftrightarrow> (\<forall>x \<in> set xs. k x \<noteq> Invalid_Date)"

fun ms :: "js_date \<Rightarrow> int" where
  "ms Invalid_Date = 0"
| "ms (Time t) = t"

lemma date_ge_ms: "a \<noteq> Invalid_Date \<Longrightarrow> b \<noteq> Invalid_Date \<Longrightarrow> date_ge a b \<longleftrightarrow> ms b \<le> ms a"
  by (cases a; cases b) auto

lemma newest_by_split:
  assumes "newest_by k xs = Some n" "valid_dates k xs"
  shows "\<exists>us vs. xs = us @ n # vs \<and> (\<forall>x \<in> set us. ms (k x) \<le> ms (k n)) \<and> (\<forall>x \<in> set vs. ms (k x) < ms (k n))"
  using assms
proof (induction xs arbitrary: n)
  case (Cons y ys)
  show ?case
  proof (cases "newest_by k ys")
    case None
    with Cons.prems have "ys = []" "n = y" by simp_all
    then show ?thesis by (intro exI [of _ "[]"] exI [of _ "[]"]) simp
  next
    case (Some m)
    with Cons obtain us vs where ys: "ys = us @ m # vs"
      "\<forall>x \<in> set us. ms (k x) \<le> ms (k m)" "\<forall>x \<in> set vs. ms (k x) < ms (k m)"
      by (auto simp: valid_dates_def)
    have "date_ge (k m) (k y) \<longleftrightarrow> ms (k y) \<le> ms (k m)"
      using Cons.prems(2) ys(1) by (intro date_ge_ms) (simp_all add: valid_dates_def)
    then show ?thesis
    proof (cases "ms (k y) \<le> ms (k m)")
      case True
      with Some Cons.prems(1) \<open>date_ge (k m) (k y) \<longleftrightarrow> _\<close> have "n = m" by simp
      with ys True show ?thesis by (intro exI [of _ "y # us"] exI [of _ vs]) simp
    next
      case False
      with Some Cons.prems(1) \<open>date_ge (k m) (k y) \<longleftrightarrow> _\<close> have "n = y" by simp
      with ys False show ?thesis by (intro exI [of _ "[]"] exI [of _ ys]) fastforce
    qed
  qed
qed simp

lemma newest_byI:
  assumes "valid_dates k (us @ n # vs)"
    and "\<forall>x \<in> set us. ms (k x) \<le> ms (k n)" "\<forall>x \<in> set vs. ms (k x) < ms (k n)"
  shows "newest_by k (us @ n # vs) = Some n"
  using assms(1,2)
proof (induction us)
  case Nil
  have "\<not> date_ge (k m) (k n)" if "newest_by k vs = Some m" for m
    using newest_by_in [OF that] Nil assms(3) by (subst date_ge_ms) (auto simp: valid_dates_def)
  then show ?case by (auto split: option.splits)
next
  case (Cons u us)
  then have "newest_by k (us @ n # vs) = Some n" by (simp add: valid_dates_def)
  moreover have "date_ge (k n) (k u)"
    using Cons.prems by (subst date_ge_ms) (simp_all add: valid_dates_def)
  ultimately show ?case by simp
qed

lemma newest_by_snoc:
  assumes "valid_dates k (xs @ [x])"
  shows "newest_by k (xs @ [x]) =
    Some (case newest_by k xs of None \<Rightarrow> x | Some n \<Rightarrow> if date_ge (k x) (k n) then x else n)"
proof (cases "newest_by k xs")
  case (Some n)
  with assms newest_by_split [OF Some] obtain us vs where xs: "xs = us @ n # vs"
    "\<forall>x \<in> set us. ms (k x) \<le> ms (k n)" "\<forall>x \<in> set vs. ms (k x) < ms (k n)"
    by (auto simp: valid_dates_def)
  have ge: "date_ge (k x) (k n) \<longleftrightarrow> ms (k n) \<le> ms (k x)"
    using assms xs(1) by (intro date_ge_ms) (simp_all add: valid_dates_def)
  show ?thesis
  proof (cases "ms (k n) \<le> ms (k x)")
    case True
    with xs have "\<forall>y \<in> set xs. ms (k y) \<le> ms (k x)" by fastforce
    with newest_byI [of k xs x "[]"] assms True Some ge show ?thesis by simp
  next
    case False
    with newest_byI [of k us n "vs @ [x]"] assms xs Some ge show ?thesis by auto
  qed
qed simp

lemma newest_by_filter:
  assumes "valid_dates k xs" "newest_by k xs = Some n" "P n"
  shows "newest_by k (filter P xs) = Some n"
proof -
  from newest_by_split [OF assms(2,1)] obtain us vs where xs: "xs = us @ n # vs"
    "\<forall>x \<in> set us. ms (k x) \<le> ms (k n)" "\<forall>x \<in> set vs. ms (k x) < ms (k n)"
    by auto
  moreover have "valid_dates k (filter P us @ n # filter P vs)"
    using assms(1) xs(1) by (auto simp: valid_dates_def)
  ultimately have "newest_by k (filter P us @ n # filter P vs) = Some n"
    by (intro newest_byI) simp_all
  with xs(1) assms(3) show ?thesis by simp
qed

section \<open>The fold computes the newest rows of every address\<close>

abbreviation t_date :: "nat \<times> check_row \<Rightarrow> js_date" where
  "t_date \<equiv> (\<lambda>r. cr_checkedAt (snd r))"

abbreviation t_rows :: "string \<Rightarrow> (nat \<times> check_row) list \<Rightarrow> (nat \<times> check_row) list" where
  "t_rows ip \<equiv> filter (\<lambda>r. cr_ip (snd r) = ip)"

abbreviation t_oks :: "(nat \<times> check_row) list \<Rightarrow> (nat \<times> check_row) list" where
  "t_oks \<equiv> filter (\<lambda>r. cr_ok (snd r))"

definition co_spec :: "(nat \<times> check_row) list \<Rightarrow> co_state option" where
  "co_spec ts = map_option (\<lambda>n. \<lparr>latest = n, latestSuccess = newest_by t_date (t_oks ts)\<rparr>) (newest_by t_date ts)"

lemma co_spec_snoc:
  assumes "valid_dates t_date (ts @ [r])"
  shows "co_spec (ts @ [r]) = Some (case co_spec ts of None \<Rightarrow> co_init r | Some st \<Rightarrow> co_update r st)"
proof -
  have "valid_dates t_date (t_oks ts @ [r])" using assms by (auto simp: valid_dates_def)
  from newest_by_snoc [OF assms] newest_by_snoc [OF this] show ?thesis
    by (auto simp: co_spec_def co_init_def co_update_def split: option.splits)
qed

lemma co_fold:
  assumes "valid_dates t_date ts"
  shows "map_of (foldl co_step [] ts) ip = co_spec (t_rows ip ts)"
  using assms
proof (induction ts arbitrary: ip rule: rev_induct)
  case (snoc r ts)
  then have IH: "map_of (foldl co_step [] ts) ip = co_spec (t_rows ip ts)" for ip
    by (simp add: valid_dates_def)
  show ?case
  proof (cases "cr_ip (snd r) = ip")
    case True
    have "valid_dates t_date (t_rows ip ts @ [r])" using snoc.prems by (auto simp: valid_dates_def)
    from co_spec_snoc [OF this] True show ?thesis
      by (simp add: co_step_def [of "foldl co_step [] ts"] IH split: option.splits)
  next
    case False
    then show ?thesis
      by (simp add: co_step_def [of "foldl co_step [] ts"] IH split: option.splits)
  qed
qed (simp add: co_spec_def)

lemma co_fold_distinct: "distinct (map fst (foldl co_step [] ts))"
  by (induction ts rule: rev_induct) (auto simp: co_step_def split: option.splits)

lemma co_fold_keys: "fst ` set (foldl co_step [] ts) = (\<lambda>r. cr_ip (snd r)) ` set ts"
  by (induction ts rule: rev_induct) (auto simp: co_step_def split: option.splits)

text \<open>
  What a batch should keep of one address: its newest row, preceded by its newest success
  when the newest row is a failure.
\<close>

definition two_rows :: "check_row list \<Rightarrow> check_row list" where
  "two_rows rs =
     (case newest rs of
        None \<Rightarrow> []
      | Some n \<Rightarrow>
          (if cr_ok n then [] else (case newest (filter cr_ok rs) of None \<Rightarrow> [] | Some s \<Rightarrow> [s])) @ [n])"

lemma newest_tagged: "newest (map snd ts) = map_option snd (newest_by t_date ts)"
  by (rule newest_by_map)

lemma newest_oks_tagged: "newest (filter cr_ok (map snd ts)) = map_option snd (newest_by t_date (t_oks ts))"
  by (simp add: filter_map o_def newest_tagged)

lemma co_emit_spec:
  assumes "valid_dates t_date ts" "distinct (map fst ts)" "co_spec ts = Some st"
  shows "co_emit st = two_rows (map snd ts)"
proof -
  from assms(3) obtain n where n: "newest_by t_date ts = Some n"
    and st: "st = \<lparr>latest = n, latestSuccess = newest_by t_date (t_oks ts)\<rparr>"
    by (auto simp: co_spec_def)
  show ?thesis
  proof (cases "cr_ok (snd n)")
    case True
    with newest_by_filter [OF assms(1) n] have "newest_by t_date (t_oks ts) = Some n" by simp
    with True n st show ?thesis
      by (simp add: co_emit_def two_rows_def newest_tagged)
  next
    case False
    have "fst s \<noteq> fst n" if "newest_by t_date (t_oks ts) = Some s" for s
    proof -
      from newest_by_in [OF that] have "s \<in> set ts" "cr_ok (snd s)" by simp_all
      moreover have "n \<in> set ts" by (rule newest_by_in [OF n])
      ultimately show ?thesis using False assms(2) by (auto simp: distinct_map inj_on_def)
    qed
    with False n st show ?thesis
      by (simp add: co_emit_def two_rows_def newest_tagged newest_oks_tagged split: option.splits)
  qed
qed

lemma coalesce_emit:
  assumes "valid_dates cr_checkedAt rows"
  shows "(case map_of (foldl co_step [] (enumerate 0 rows)) ip of None \<Rightarrow> [] | Some st \<Rightarrow> co_emit st)
    = two_rows (rows_for ip rows)"
proof -
  let ?ts = "enumerate 0 rows"
  have v: "valid_dates t_date ?ts"
    using assms by (auto simp: valid_dates_def in_set_enumerate_eq)
  note fold = co_fold [OF v]
  have "(case map_of (foldl co_step [] ?ts) ip of None \<Rightarrow> [] | Some st \<Rightarrow> co_emit st)
      = two_rows (map snd (t_rows ip ?ts))"
  proof (cases "co_spec (t_rows ip ?ts)")
    case None
    then show ?thesis by (simp add: fold co_spec_def two_rows_def newest_tagged)
  next
    case (Some st)
    have "valid_dates t_date (t_rows ip ?ts)" using v by (auto simp: valid_dates_def)
    moreover have "distinct (map fst (t_rows ip ?ts))"
      by (rule distinct_map_filter) simp
    ultimately show ?thesis using Some by (simp add: fold co_emit_spec)
  qed
  also have "map snd (t_rows ip ?ts) = rows_for ip rows"
    by (metis (mono_tags, lifting) filter_map o_apply map_snd_enumerate filter_cong)
  finally show ?thesis .
qed

text \<open>The order of the addresses, and the reference for the whole batch.\<close>

lemma co_fold_order: "map fst (foldl co_step [] ts) = js_set (map (\<lambda>r. cr_ip (snd r)) ts)"
proof (induction ts rule: rev_induct)
  case (snoc r ts)
  have "cr_ip (snd r) \<in> fst ` set (foldl co_step [] ts) \<longleftrightarrow> map_of (foldl co_step [] ts) (cr_ip (snd r)) \<noteq> None"
    by (simp add: map_of_eq_None_iff)
  with snoc show ?case
    by (auto simp: co_step_def [of "foldl co_step [] ts"] js_set_snoc co_fold_keys split: option.splits)
qed simp

lemma two_rows_set: "set (two_rows rs) \<subseteq> set rs"
proof -
  have "s \<in> set rs" if "newest (filter cr_ok rs) = Some s" for s
    using newest_by_in [OF that] by simp
  then show ?thesis
    by (cases "newest rs"; cases "newest (filter cr_ok rs)") (auto simp: two_rows_def dest: newest_by_in)
qed

lemma two_rows_nonempty: "rs \<noteq> [] \<Longrightarrow> two_rows rs \<noteq> []"
  by (auto simp: two_rows_def split: option.splits)

lemma coalesce_blocks:
  assumes "valid_dates cr_checkedAt rows"
  shows "coalesceCheckRows rows
    = concat (map (\<lambda>ip. two_rows (rows_for ip rows)) (js_set (map cr_ip rows)))"
proof -
  let ?m = "foldl co_step [] (enumerate 0 rows)"
  have "co_emit st = two_rows (rows_for ip rows)" if "(ip, st) \<in> set ?m" for ip st
  proof -
    have "map_of ?m ip = Some st" using that co_fold_distinct by simp
    with coalesce_emit [OF assms, of ip] show ?thesis by simp
  qed
  then have "map (\<lambda>(ip, st). co_emit st) ?m = map (\<lambda>ip. two_rows (rows_for ip rows)) (map fst ?m)"
    by (auto simp: map_map o_def)
  moreover have "map fst ?m = js_set (map cr_ip rows)"
    by (metis (no_types, lifting) co_fold_order map_map map_snd_enumerate o_def map_cong)
  ultimately show ?thesis by (simp only: coalesceCheckRows_def)
qed

text \<open>A second pass changes nothing.\<close>

lemma two_rows_twice:
  assumes "valid_dates cr_checkedAt rs"
  shows "two_rows (two_rows rs) = two_rows rs"
proof (cases "newest rs")
  case None
  then show ?thesis by (simp add: two_rows_def)
next
  case (Some n)
  show ?thesis
  proof (cases "cr_ok n")
    case True
    with Some show ?thesis by (simp add: two_rows_def)
  next
    case False
    have "date_ge (cr_checkedAt n) (cr_checkedAt s)" if "newest (filter cr_ok rs) = Some s" for s
    proof -
      from newest_by_in [OF that] have "s \<in> set rs" by simp
      with newest_by_split [OF Some assms] assms newest_by_in [OF Some] show ?thesis
        by (subst date_ge_ms) (fastforce simp: valid_dates_def)+
    qed
    moreover have "cr_ok s" if "newest (filter cr_ok rs) = Some s" for s
      using newest_by_in [OF that] by simp
    ultimately show ?thesis using Some False
      by (cases "newest (filter cr_ok rs)") (auto simp: two_rows_def)
  qed
qed


text \<open>The rows of one address in the output, and the rows the output is made of.\<close>

lemma coalesce_keys:
  "valid_dates cr_checkedAt rows \<Longrightarrow> js_set (map cr_ip (coalesceCheckRows rows)) = js_set (map cr_ip rows)"
proof -
  assume v: "valid_dates cr_checkedAt rows"
  have "two_rows (rows_for ip rows) \<noteq> [] \<and> cr_ip ` set (two_rows (rows_for ip rows)) \<subseteq> {ip}"
    if "ip \<in> set (js_set (map cr_ip rows))" for ip
    using that two_rows_set [of "rows_for ip rows"] two_rows_nonempty [of "rows_for ip rows"]
    by (auto simp: filter_empty_conv)
  then show ?thesis unfolding coalesce_blocks [OF v] by (rule js_set_blocks [OF distinct_js_set])
qed

lemma filter_blocks:
  assumes "distinct ks" "\<And>k. key ` set (f k) \<subseteq> {k}"
  shows "filter (\<lambda>y. key y = k) (concat (map f ks)) = (if k \<in> set ks then f k else [])"
  using assms
proof (induction ks)
  case (Cons k' ks)
  then have IH: "filter (\<lambda>y. key y = k) (concat (map f ks)) = (if k \<in> set ks then f k else [])" by simp
  show ?case
  proof (cases "k' = k")
    case True
    with Cons.prems(2) [of k'] have "filter (\<lambda>y. key y = k) (f k') = f k'" by (auto simp: filter_id_conv)
    with True Cons.prems(1) IH show ?thesis by simp
  next
    case False
    with Cons.prems(2) [of k'] have "filter (\<lambda>y. key y = k) (f k') = []" by (auto simp: filter_empty_conv)
    with False IH show ?thesis by simp
  qed
qed simp

lemma coalesce_for:
  "valid_dates cr_checkedAt rows \<Longrightarrow> rows_for ip (coalesceCheckRows rows) = two_rows (rows_for ip rows)"
proof -
  assume v: "valid_dates cr_checkedAt rows"
  have "cr_ip ` set (two_rows (rows_for k rows)) \<subseteq> {k}" for k
    using two_rows_set [of "rows_for k rows"] by auto
  then have "rows_for ip (coalesceCheckRows rows)
      = (if ip \<in> set (js_set (map cr_ip rows)) then two_rows (rows_for ip rows) else [])"
    unfolding coalesce_blocks [OF v] by (intro filter_blocks) simp_all
  moreover have "two_rows (rows_for ip rows) = []" if "ip \<notin> set (js_set (map cr_ip rows))"
  proof -
    from that have "rows_for ip rows = []" by (auto simp: filter_empty_conv)
    then show ?thesis by (simp add: two_rows_def)
  qed
  ultimately show ?thesis by auto
qed

lemma coalesce_set: "valid_dates cr_checkedAt rows \<Longrightarrow> set (coalesceCheckRows rows) \<subseteq> set rows"
  using two_rows_set by (fastforce simp: coalesce_blocks)

lemma coalesce_valid:
  "valid_dates cr_checkedAt rows \<Longrightarrow> valid_dates cr_checkedAt (coalesceCheckRows rows)"
  using coalesce_set by (auto simp: valid_dates_def)

lemma coalesce_twice:
  assumes v: "valid_dates cr_checkedAt rows"
  shows "coalesceCheckRows (coalesceCheckRows rows) = coalesceCheckRows rows"
proof -
  have "two_rows (rows_for ip (coalesceCheckRows rows)) = two_rows (rows_for ip rows)" for ip
    using v by (simp add: coalesce_for two_rows_twice valid_dates_def)
  with coalesce_blocks [OF coalesce_valid [OF v]] show ?thesis
    by (simp only: coalesce_keys [OF v] coalesce_blocks [OF v, symmetric])
qed

section \<open>Properties\<close>

text \<open>
  C30: for a batch with valid dates the code keeps, for every address in the order of first
  appearance, exactly the newest row, preceded by the newest success when the newest row is
  a failure; of rows with the same date the last one counts as newest.
\<close>

theorem coalesce_reference:
  assumes "valid_dates cr_checkedAt rows"
  shows "coalesceCheckRows rows
    = concat (map (\<lambda>ip. two_rows (rows_for ip rows)) (js_set (map cr_ip rows)))"
  using assms by (rule coalesce_blocks)

definition sample_row :: "string \<Rightarrow> bool \<Rightarrow> int \<Rightarrow> check_row" where
  "sample_row ip ok t = \<lparr>cr_ip = ip, cr_ok = ok, cr_rttMs = None, cr_reason = None, cr_detail = None,
     cr_checkedAt = Time t, cr_scanMode = ''SNI''\<rparr>"

theorem coalesce_reference_witness:
  "coalesceCheckRows [sample_row ''a'' True 1, sample_row ''b'' False 5, sample_row ''a'' False 4,
     sample_row ''a'' True 2]
   = [sample_row ''a'' True 2, sample_row ''a'' False 4, sample_row ''b'' False 5]"
proof -
  let ?rows = "[sample_row ''a'' True 1, sample_row ''b'' False 5, sample_row ''a'' False 4,
     sample_row ''a'' True 2]"
  have "valid_dates cr_checkedAt ?rows" by (simp add: valid_dates_def sample_row_def)
  from coalesce_reference [OF this] show ?thesis
    by (simp add: js_set_def two_rows_def sample_row_def)
qed

text \<open>
  Coalescing is idempotent and leaves no address with more than two rows, all of them rows
  of the batch.
\<close>

theorem coalesce_idempotent:
  assumes "valid_dates cr_checkedAt rows"
  shows "coalesceCheckRows (coalesceCheckRows rows) = coalesceCheckRows rows
    \<and> length (rows_for ip (coalesceCheckRows rows)) \<le> 2
    \<and> set (coalesceCheckRows rows) \<subseteq> set rows"
  using coalesce_twice [OF assms] coalesce_set [OF assms]
  by (auto simp: coalesce_for [OF assms] two_rows_def split: option.split)

theorem coalesce_idempotent_witness:
  "coalesceCheckRows (coalesceCheckRows [sample_row ''a'' True 1, sample_row ''a'' False 4])
     = coalesceCheckRows [sample_row ''a'' True 1, sample_row ''a'' False 4]"
proof -
  have "valid_dates cr_checkedAt [sample_row ''a'' True 1, sample_row ''a'' False 4]"
    by (simp add: valid_dates_def sample_row_def)
  from coalesce_idempotent [OF this] show ?thesis by blast
qed

text \<open>
  A row with an invalid date never replaces another, and is never replaced when it comes
  first: such a batch can keep an undated row as the latest one.
\<close>

lemma coalesce_invalid_first:
  "coalesceCheckRows [r\<lparr>cr_checkedAt := Invalid_Date\<rparr>, r\<lparr>cr_checkedAt := Time 5\<rparr>]
     = [r\<lparr>cr_checkedAt := Invalid_Date\<rparr>]"
  by (simp add: coalesceCheckRows_def co_step_def co_init_def co_update_def co_emit_def)

text \<open>The cases of src/tests/store.test.ts, with times counted from the first.\<close>

definition test_check :: "string \<Rightarrow> int \<Rightarrow> bool \<Rightarrow> check_row" where
  "test_check ip t ok =
     \<lparr>cr_ip = ip, cr_ok = ok, cr_rttMs = (if ok then Some 10 else None),
     cr_reason = (if ok then None else Some ''scan:timeout''), cr_detail = None, cr_checkedAt = Time t, cr_scanMode = ''SNI''\<rparr>"

lemma coalesce_tests:
  "coalesceCheckRows [test_check ''192.0.2.1'' 0 True, test_check ''2001:db8::1'' 1000 True, test_check ''192.0.2.1'' 2000 False]
     = [test_check ''192.0.2.1'' 0 True, test_check ''192.0.2.1'' 2000 False, test_check ''2001:db8::1'' 1000 True]"
  "coalesceCheckRows [test_check ''192.0.2.1'' 0 True, test_check ''192.0.2.1'' 0 False]
     = [test_check ''192.0.2.1'' 0 True, test_check ''192.0.2.1'' 0 False]"
  "coalesceCheckRows [test_check ''192.0.2.1'' 0 False, test_check ''192.0.2.1'' 1000 False, test_check ''2001:db8::1'' 0 True,
       test_check ''2001:db8::1'' 1000 True]
     = [test_check ''192.0.2.1'' 1000 False, test_check ''2001:db8::1'' 1000 True]"
  by code_simp+

end
