(* ===== verification/Schema.thy ===== *)
theory Schema
  imports D1 CheckRows
begin

text \<open>
  The tables src/src/store.ts works on and the statements it prepares. A prepared statement with
  its bound parameters is a value; running it is a function on the tables, so a batch call
  is the fold of its statements inside one atomic call. Columns that may be NULL are options;
  SQLite's booleans stay integers. A comparison with NULL is not true, which is all a WHERE
  clause asks. Tables are lists of rows in storage order: the tables with a primary key hold
  each key once.
\<close>

section \<open>Tables\<close>

text \<open>\<open>ip_checks\<close>, \<open>ip_pool\<close>, \<open>ptr_cache\<close>, \<open>host_cache\<close>, \<open>asn_cache\<close> and \<open>check_rate_limit\<close>.\<close>

record check_rec =
  k_id :: int
  k_ip :: string
  k_ok :: int
  k_rtt_ms :: "int option"
  k_reason :: "string option"
  k_detail :: "string option"
  k_checked_at :: string
  k_scan_mode :: "string option"

record pool_row =
  p_ip :: string
  p_is_ipv6 :: int
  p_scan_mode :: "string option"
  p_first_seen :: "string option"
  p_last_seen :: "string option"
  p_last_rtt_ms :: "int option"
  p_times_seen :: int
  p_last_checked_at :: "string option"
  p_last_check_ok :: "int option"
  p_revision :: int
  p_history_count :: int
  p_ptr_checked_at :: "string option"

record ptr_rec =
  t_ip :: string
  t_ptr_hostname :: "string option"
  t_lookup_ok :: int
  t_ttl_seconds :: int
  t_checked_at :: string

record host_rec =
  h_hostname :: string
  h_ipv4 :: "string option"
  h_ipv6 :: "string option"
  h_lookup_ok :: int
  h_ttl_seconds :: int
  h_checked_at :: string

record asn_rec =
  a_prefix :: string
  a_is_ipv6 :: int
  a_range_start :: string
  a_range_end :: string
  a_prefix_len :: int
  a_asn :: "int option"
  a_as_name :: "string option"
  a_country :: "string option"
  a_lookup_ok :: int
  a_ttl_seconds :: int
  a_checked_at :: string

record rate_rec =
  l_kind :: string
  l_client_ip :: string
  l_window :: string
  l_count :: int

text \<open>
  The row of \<open>pool_revision\<close> always exists (migration 0010 inserts it and nothing deletes
  it), so its two columns are plain fields.
\<close>

record tables =
  checks :: "check_rec list"
  pool :: "pool_row list"
  version :: int
  reset_version :: int
  ptrs :: "ptr_rec list"
  hosts :: "host_rec list"
  asns :: "asn_rec list"
  rates :: "rate_rec list"

section \<open>Dates as text\<close>

text \<open>
  \<open>toSQLiteDateTime\<close>: every caller passes a Date, never null; an invalid one throws.
\<close>

definition toSQLiteDateTime :: "js_date \<Rightarrow> string res" where
  "toSQLiteDateTime d = (case to_iso_string d of None \<Rightarrow> Inl RangeError | Some s \<Rightarrow> Inr s)"

definition FAILURE_DEDUP_WINDOW_MS :: int where
  "FAILURE_DEDUP_WINDOW_MS = 6 * 60 * 60 * 1000"

section \<open>Keys and counts\<close>

definition find_row :: "('r \<Rightarrow> 'k) \<Rightarrow> 'k \<Rightarrow> 'r list \<Rightarrow> 'r option" where
  "find_row key k rows = find (\<lambda>r. key r = k) rows"

text \<open>\<open>INSERT ... ON CONFLICT(key) DO UPDATE\<close>: the new row, or the merge of the stored row.\<close>

definition upsert :: "('r \<Rightarrow> 'k) \<Rightarrow> 'r \<Rightarrow> ('r \<Rightarrow> 'r) \<Rightarrow> 'r list \<Rightarrow> 'r list" where
  "upsert key new merge rows =
     (if list_ex (\<lambda>r. key r = key new) rows
      then map (\<lambda>r. if key r = key new then merge r else r) rows
      else rows @ [new])"

text \<open>The rowid SQLite picks for a table without AUTOINCREMENT: one more than the largest.\<close>

definition next_id :: "check_rec list \<Rightarrow> int" where
  "next_id cs = foldr max (map k_id cs) 0 + 1"

definition checks_of :: "string \<Rightarrow> tables \<Rightarrow> check_rec list" where
  "checks_of ip t = filter (\<lambda>c. k_ip c = ip) (checks t)"

definition in_pool :: "string \<Rightarrow> tables \<Rightarrow> bool" where
  "in_pool ip t = list_ex (\<lambda>p. p_ip p = ip) (pool t)"

text \<open>\<open>SELECT COUNT(*) FROM ip_checks WHERE ip = ?\<close>, and the rows newer than the pool row's last check.\<close>

definition history_size :: "tables \<Rightarrow> string \<Rightarrow> int" where
  "history_size t ip = int (length (checks_of ip t))"

definition historyCountIncr :: "tables \<Rightarrow> pool_row \<Rightarrow> int" where
  "historyCountIncr t p =
     p_history_count p
     + (case p_last_checked_at p of
          None \<Rightarrow> 0
        | Some checked \<Rightarrow> int (length (filter (\<lambda>c. checked < k_checked_at c) (checks_of (p_ip p) t))))"

text \<open>\<open>last_check_ok != 0 OR last_checked_at < ?\<close>.\<close>

definition failureGate :: "string \<Rightarrow> pool_row \<Rightarrow> bool" where
  "failureGate cutoff p =
     ((case p_last_check_ok p of None \<Rightarrow> False | Some v \<Rightarrow> v \<noteq> 0)
      \<or> (case p_last_checked_at p of None \<Rightarrow> False | Some checked \<Rightarrow> checked < cutoff))"

text \<open>\<open>ROW_NUMBER() OVER (PARTITION BY ip ORDER BY checked_at DESC, id DESC)\<close>.\<close>

definition newer_check :: "check_rec \<Rightarrow> check_rec \<Rightarrow> bool" where
  "newer_check c d =
     (k_checked_at d < k_checked_at c \<or> (k_checked_at c = k_checked_at d \<and> k_id d < k_id c))"

definition row_number :: "tables \<Rightarrow> check_rec \<Rightarrow> nat" where
  "row_number t c = 1 + length (filter (\<lambda>d. newer_check d c) (checks_of (k_ip c) t))"

definition no_success :: "tables \<Rightarrow> string \<Rightarrow> bool" where
  "no_success t ip = (\<not> list_ex (\<lambda>c. k_ok c = 1) (checks_of ip t))"

section \<open>Statements\<close>

text \<open>
  The writing statements of src/src/store.ts with their bound parameters, in the order of the
  file. The row an insert binds carries a dummy id. \<open>PoolUpsert\<close> binds the address, its
  family, the success (scan mode, time, round trip) and the latest check (time, ok).
\<close>

datatype stmt =
    BumpRevision
  | InsertCheck bool string check_rec
  | PoolUpsert string int string string int string int
  | PoolFail string string string
  | PruneChecks "string list" nat
  | RecountHistory "string list"
  | MarkReset
  | EvictDead "string list"
  | PtrUpsert ptr_rec
  | PtrTouch string string
  | HostUpsert host_rec
  | AsnUpsert asn_rec
  | RateDelete string string string
  | RateCount string string string
  | RecheckInsert check_rec
  | PoolCheck string int int string
  | PoolCheckInsert string int string string int

definition add_check :: "check_rec \<Rightarrow> tables \<Rightarrow> tables" where
  "add_check c t =
     (if list_ex (\<lambda>k. k_ip k = k_ip c \<and> k_checked_at k = k_checked_at c) (checks t) then t
      else t\<lparr>checks := checks t @ [c\<lparr>k_id := next_id (checks t)\<rparr>]\<rparr>)"

definition update_pool :: "(pool_row \<Rightarrow> bool) \<Rightarrow> (pool_row \<Rightarrow> pool_row) \<Rightarrow> tables \<Rightarrow> tables" where
  "update_pool cond f t = t\<lparr>pool := map (\<lambda>p. if cond p then f p else p) (pool t)\<rparr>"

fun run_stmt :: "stmt \<Rightarrow> tables \<Rightarrow> tables" where
  "run_stmt BumpRevision t = t\<lparr>version := version t + 1\<rparr>"
| "run_stmt (InsertCheck always cutoff c) t =
     (if always \<or> list_ex (\<lambda>p. p_ip p = k_ip c \<and> failureGate cutoff p) (pool t)
      then add_check c t else t)"
| "run_stmt (PoolUpsert ip is_ipv6 mode successTS rtt latestTS ok) t =
     t\<lparr>pool := upsert p_ip
         \<lparr>p_ip = ip, p_is_ipv6 = is_ipv6, p_scan_mode = Some mode, p_first_seen = Some successTS,
          p_last_seen = Some successTS, p_last_rtt_ms = Some rtt, p_times_seen = 1,
          p_last_checked_at = Some latestTS, p_last_check_ok = Some ok, p_revision = version t,
          p_history_count = history_size t ip, p_ptr_checked_at = None\<rparr>
         (\<lambda>p. p\<lparr>p_scan_mode := Some mode, p_last_seen := Some successTS, p_last_rtt_ms := Some rtt,
             p_times_seen := p_times_seen p + 1, p_last_checked_at := Some latestTS,
             p_last_check_ok := Some ok, p_revision := version t,
             p_history_count := historyCountIncr t p\<rparr>)
         (pool t)\<rparr>"
| "run_stmt (PoolFail ip latestTS cutoff) t =
     update_pool (\<lambda>p. p_ip p = ip \<and> failureGate cutoff p)
       (\<lambda>p. p\<lparr>p_last_checked_at := Some latestTS, p_last_check_ok := Some 0,
           p_revision := version t, p_history_count := historyCountIncr t p\<rparr>) t"
| "run_stmt (PruneChecks ips keep) t =
     t\<lparr>checks := filter (\<lambda>c. \<not> (k_ip c \<in> set ips \<and> keep < row_number t c)) (checks t)\<rparr>"
| "run_stmt (RecountHistory ips) t =
     update_pool (\<lambda>p. p_ip p \<in> set ips) (\<lambda>p. p\<lparr>p_history_count := history_size t (p_ip p)\<rparr>) t"
| "run_stmt MarkReset t = t\<lparr>reset_version := version t\<rparr>"
| "run_stmt (EvictDead ips) t =
     t\<lparr>pool := filter (\<lambda>p. \<not> (p_ip p \<in> set ips \<and> no_success t (p_ip p))) (pool t)\<rparr>"
| "run_stmt (PtrUpsert e) t =
     t\<lparr>ptrs := upsert t_ip e
         (\<lambda>r. r\<lparr>t_ptr_hostname := t_ptr_hostname e, t_lookup_ok := t_lookup_ok e,
             t_ttl_seconds := t_ttl_seconds e, t_checked_at := t_checked_at e\<rparr>) (ptrs t)\<rparr>"
| "run_stmt (PtrTouch checkedAt ip) t =
     update_pool (\<lambda>p. p_ip p = ip)
       (\<lambda>p. p\<lparr>p_ptr_checked_at := Some checkedAt, p_revision := version t\<rparr>) t"
| "run_stmt (HostUpsert e) t =
     t\<lparr>hosts := upsert h_hostname e
         (\<lambda>r. r\<lparr>h_ipv4 := h_ipv4 e, h_ipv6 := h_ipv6 e, h_lookup_ok := h_lookup_ok e,
             h_ttl_seconds := h_ttl_seconds e, h_checked_at := h_checked_at e\<rparr>) (hosts t)\<rparr>"
| "run_stmt (AsnUpsert e) t =
     t\<lparr>asns := upsert a_prefix e
         (\<lambda>r. r\<lparr>a_asn := a_asn e, a_as_name := a_as_name e, a_country := a_country e,
             a_lookup_ok := a_lookup_ok e, a_ttl_seconds := a_ttl_seconds e,
             a_checked_at := a_checked_at e\<rparr>) (asns t)\<rparr>"
| "run_stmt (RateDelete kind client w) t =
     t\<lparr>rates := filter (\<lambda>r. \<not> (l_kind r = kind \<and> l_client_ip r = client \<and> l_window r < w)) (rates t)\<rparr>"
| "run_stmt (RateCount kind client w) t =
     t\<lparr>rates := upsert (\<lambda>r. (l_kind r, l_client_ip r, l_window r))
         \<lparr>l_kind = kind, l_client_ip = client, l_window = w, l_count = 1\<rparr>
         (\<lambda>r. r\<lparr>l_count := l_count r + 1\<rparr>) (rates t)\<rparr>"
| "run_stmt (RecheckInsert c) t = add_check c t"
| "run_stmt (PoolCheck ip ok rtt ts) t =
     update_pool (\<lambda>p. p_ip p = ip)
       (\<lambda>p. p\<lparr>p_last_checked_at := Some ts, p_last_check_ok := Some ok,
           p_last_rtt_ms := (if ok \<noteq> 0 then Some rtt else p_last_rtt_ms p),
           p_last_seen := (if ok \<noteq> 0 then Some ts else p_last_seen p),
           p_times_seen := (if ok \<noteq> 0 then p_times_seen p + 1 else p_times_seen p),
           p_history_count := historyCountIncr t p,
           p_revision := version t\<rparr>) t"
| "run_stmt (PoolCheckInsert ip is_ipv6 mode ts rtt) t =
     t\<lparr>pool := upsert p_ip
         \<lparr>p_ip = ip, p_is_ipv6 = is_ipv6, p_scan_mode = Some mode, p_first_seen = Some ts,
          p_last_seen = Some ts, p_last_rtt_ms = Some rtt, p_times_seen = 1,
          p_last_checked_at = Some ts, p_last_check_ok = Some 1, p_revision = version t,
          p_history_count = history_size t ip, p_ptr_checked_at = None\<rparr>
         (\<lambda>p. p\<lparr>p_scan_mode := Some mode, p_last_seen := Some ts, p_last_rtt_ms := Some rtt,
             p_times_seen := p_times_seen p + 1, p_last_checked_at := Some ts,
             p_last_check_ok := Some 1, p_revision := version t,
             p_history_count := history_size t ip\<rparr>)
         (pool t)\<rparr>"

text \<open>\<open>db.batch(statements)\<close>: atomic, in order.\<close>

definition run_batch :: "stmt list \<Rightarrow> tables \<Rightarrow> tables" where
  "run_batch ss t = fold run_stmt ss t"

lemma run_batch_simps [simp]:
  "run_batch [] t = t" "run_batch (s # ss) t = run_batch ss (run_stmt s t)"
  "run_batch (ss @ ss') t = run_batch ss' (run_batch ss t)"
  by (simp_all add: run_batch_def)

definition batch :: "stmt list \<Rightarrow> (tables, unit) prog" where
  "batch ss = exec (run_batch ss)"

end
