(* ===== verification/JsNumber.thy ===== *)
theory JsNumber
  imports Complex_Main Digits "HOL-Library.Log_Nat"
begin

text \<open>
  \<open>Number(s)\<close> and \<open>parseInt(s, radix)\<close> on strings: the numeric-literal grammar of the
  language with its rounding to a double, because the program reads prefix lengths, ports
  of its API and AS numbers with them and their corner cases matter (the empty string is 0,
  \<open>0x10\<close> is 16, \<open>1e1\<close> is 10). A number is NaN, an infinity or a rational; negative zero
  is identified with zero, which no comparison of the program can tell apart.
\<close>

datatype js_num = NaN | Infinite bool | Num rat

section \<open>Rounding to a double\<close>

definition round_half_even :: "rat \<Rightarrow> int" where
  "round_half_even q =
     (let f = \<lfloor>q\<rfloor>; d = q - of_int f in
      if d < 1 / 2 then f else if d > 1 / 2 then f + 1 else if even f then f else f + 1)"

definition pow2 :: "int \<Rightarrow> rat" where
  "pow2 e = (if 0 \<le> e then 2 ^ nat e else 1 / 2 ^ nat (- e))"

text \<open>The exponent at which the significand of \<open>q\<close> has 53 bits, or the least one there is.\<close>

definition double_exp :: "rat \<Rightarrow> int" where
  "double_exp q =
     (let (a, b) = quotient_of q;
          e = bitlen a - bitlen b - 53;
          e' = (if q / pow2 e \<ge> 2 ^ 53 then e + 1 else e)
      in max (-1074) e')"

text \<open>
  A nonnegative rational as a double: integers up to \<open>2^53\<close> are exact, everything else is
  rounded to the nearest 53-bit significand, ties to even; from \<open>2^1024\<close> on it is Infinity.
\<close>

definition to_double :: "rat \<Rightarrow> js_num" where
  "to_double q =
     (if of_int \<lfloor>q\<rfloor> = q \<and> q \<le> 2 ^ 53 then Num q
      else let e = double_exp q; r = of_int (round_half_even (q / pow2 e)) * pow2 e
           in if r \<ge> 2 ^ 1024 then Infinite False else Num r)"

fun negate_num :: "js_num \<Rightarrow> js_num" where
  "negate_num NaN = NaN"
| "negate_num (Infinite n) = Infinite (\<not> n)"
| "negate_num (Num q) = Num (- q)"

section \<open>The grammar\<close>

definition is_space :: "char \<Rightarrow> bool" where
  "is_space c = ((of_char c :: nat) \<in> {9, 10, 11, 12, 13, 32, 160})"

text \<open>\<open>s.trim()\<close>.\<close>

definition trim :: "string \<Rightarrow> string" where
  "trim s = rev (dropWhile is_space (rev (dropWhile is_space s)))"

text \<open>The exponent part, \<open>None\<close> when it is malformed; the empty text is exponent 0.\<close>

definition exponent_part :: "string \<Rightarrow> int option" where
  "exponent_part s =
     (case s of
        [] \<Rightarrow> Some 0
      | c # r \<Rightarrow>
          if c \<noteq> CHR ''e'' \<and> c \<noteq> CHR ''E'' then None
          else let neg = (r \<noteq> [] \<and> hd r = CHR ''-'');
                   ds = (if r \<noteq> [] \<and> (hd r = CHR ''-'' \<or> hd r = CHR ''+'') then tl r else r)
               in if ds = [] \<or> \<not> list_all is_digit ds then None
                  else Some (if neg then - int (num_val 10 ds) else int (num_val 10 ds)))"

definition decimal_value :: "string \<Rightarrow> rat option" where
  "decimal_value s =
     (let ip = takeWhile is_digit s; r = dropWhile is_digit s;
          (fp, r) = (case r of
                       [] \<Rightarrow> ([], [])
                     | c # r' \<Rightarrow> if c = CHR ''.'' then (takeWhile is_digit r', dropWhile is_digit r')
                                 else ([], r))
      in if ip = [] \<and> fp = [] then None
         else map_option
           (\<lambda>e. let k = e - int (length fp); v = of_nat (num_val 10 (ip @ fp))
                in if 0 \<le> k then v * 10 ^ nat k else v / 10 ^ nat (- k))
           (exponent_part r))"

definition unsigned_number :: "string \<Rightarrow> js_num" where
  "unsigned_number s =
     (if s = ''Infinity'' then Infinite False
      else case decimal_value s of Some q \<Rightarrow> to_double q | None \<Rightarrow> NaN)"

definition radix_number :: "nat \<Rightarrow> string \<Rightarrow> js_num" where
  "radix_number b ds =
     (if ds \<noteq> [] \<and> list_all (\<lambda>c. is_dig b (to_lower_char c)) ds
      then to_double (of_nat (num_val b ds)) else NaN)"

text \<open>The letter after a leading zero, which selects hexadecimal, octal or binary.\<close>

definition radix_of :: "string \<Rightarrow> nat option" where
  "radix_of s =
     (if length s < 2 \<or> hd s \<noteq> CHR ''0'' then None
      else if s ! 1 \<in> set ''xX'' then Some 16
      else if s ! 1 \<in> set ''oO'' then Some 8
      else if s ! 1 \<in> set ''bB'' then Some 2
      else None)"

definition js_Number :: "string \<Rightarrow> js_num" where
  "js_Number str =
     (let s = trim str in
      if s = [] then Num 0
      else case radix_of s of
        Some b \<Rightarrow> radix_number b (drop 2 s)
      | None \<Rightarrow>
          if hd s = CHR ''-'' then negate_num (unsigned_number (tl s))
          else if hd s = CHR ''+'' then unsigned_number (tl s)
          else unsigned_number s)"

text \<open>\<open>Number.isInteger\<close> and \<open>Number.isSafeInteger\<close>, with the integer when it is one.\<close>

fun as_integer :: "js_num \<Rightarrow> int option" where
  "as_integer (Num q) = (if of_int \<lfloor>q\<rfloor> = q then Some \<lfloor>q\<rfloor> else None)"
| "as_integer _ = None"

definition as_safe_integer :: "js_num \<Rightarrow> int option" where
  "as_safe_integer x =
     (case as_integer x of Some n \<Rightarrow> if \<bar>n\<bar> \<le> 2 ^ 53 - 1 then Some n else None | None \<Rightarrow> None)"

text \<open>
  \<open>parseInt(s, 10)\<close>: optional sign, then the longest run of digits; NaN without one. Only
  the integer value matters to the program.
\<close>

definition parse_int10 :: "string \<Rightarrow> int option" where
  "parse_int10 str =
     (let s = dropWhile is_space str;
          neg = (s \<noteq> [] \<and> hd s = CHR ''-'');
          s = (if s \<noteq> [] \<and> (hd s = CHR ''-'' \<or> hd s = CHR ''+'') then tl s else s);
          ds = takeWhile is_digit s
      in if ds = [] then None
         else Some (if neg then - int (num_val 10 ds) else int (num_val 10 ds)))"

section \<open>Decimal numerals\<close>

lemma to_double_nat: "n \<le> 2 ^ 53 \<Longrightarrow> to_double (of_nat n) = Num (of_nat n)"
proof -
  assume "n \<le> 2 ^ 53"
  then have "(of_nat n :: rat) \<le> of_nat (2 ^ 53)" by (simp only: of_nat_le_iff)
  then show ?thesis by (simp add: to_double_def)
qed

lemma digit_not_space: "is_digit c \<Longrightarrow> \<not> is_space c"
  by (auto simp: is_digit_def is_space_def)

lemma trim_id: "\<forall>c \<in> set s. \<not> is_space c \<Longrightarrow> trim s = s"
proof -
  assume "\<forall>c \<in> set s. \<not> is_space c"
  then have "dropWhile is_space s = s" "dropWhile is_space (rev s) = rev s"
    by (auto simp: dropWhile_eq_self_iff hd_rev)
  then show ?thesis by (simp add: trim_def)
qed

lemma trim_digits: "list_all is_digit ds \<Longrightarrow> trim ds = ds"
  by (rule trim_id) (auto simp: list_all_iff digit_not_space)

lemma decimal_value_digits:
  assumes "list_all is_digit ds" "ds \<noteq> []"
  shows "decimal_value ds = Some (of_nat (num_val 10 ds))"
proof -
  have span: "takeWhile is_digit ds = ds" "dropWhile is_digit ds = []"
    using assms(1) by (simp_all add: takeWhile_eq_all_conv dropWhile_eq_Nil_conv list_all_iff)
  show ?thesis
    by (simp add: decimal_value_def exponent_part_def Let_def assms(2) span)
qed

lemma js_Number_digits:
  assumes "list_all is_digit ds" "ds \<noteq> []" "num_val 10 ds \<le> 2 ^ 53"
  shows "js_Number ds = Num (of_nat (num_val 10 ds))"
proof -
  have "ds \<noteq> ''Infinity''" using assms(1) by (auto simp: is_digit_def)
  then have u: "unsigned_number ds = Num (of_nat (num_val 10 ds))"
    by (simp add: unsigned_number_def decimal_value_digits [OF assms(1,2)] to_double_nat [OF assms(3)])
  from assms(1,2) have "hd ds \<in> set ''0123456789''"
    by (cases ds) (simp_all add: is_digit_def)
  moreover have "radix_of ds = None"
  proof (cases "length ds < 2")
    case False
    with assms(1) have "is_digit (ds ! 1)" by (simp add: list_all_length)
    then show ?thesis by (auto simp: radix_of_def is_digit_def)
  qed (simp add: radix_of_def)
  ultimately show ?thesis
    using u assms(2) by (auto simp: js_Number_def trim_digits [OF assms(1)])
qed

lemma as_integer_nat [simp]: "as_integer (Num (of_nat n)) = Some (int n)"
  by simp

end
