(* ===== verification/IpAddr.thy ===== *)
theory IpAddr
  imports JsNumber "HOL-Library.Word"
begin

unbundle bit_operations_syntax

text \<open>
  src/src/ipAddr.ts: recognising IPv4 and IPv6 text, the conventional form used as database
  identity, the 32-digit hexadecimal form in which addresses are compared as TEXT, and the
  address range of a CIDR prefix. \<open>None\<close> is the code's null.
\<close>

section \<open>The operations\<close>

text \<open>The octets of the regular expression \<open>^\d{1,3}\.\d{1,3}\.\d{1,3}\.\d{1,3}$\<close>.\<close>

definition octet_text :: "string \<Rightarrow> bool" where
  "octet_text s = (1 \<le> length s \<and> length s \<le> 3 \<and> list_all is_digit s)"

definition dotted_quad :: "string \<Rightarrow> bool" where
  "dotted_quad s =
     (let os = split_char CHR ''.'' s in length os = 4 \<and> list_all octet_text os)"

definition isIPv4 :: "string \<Rightarrow> bool" where
  "isIPv4 s =
     (if \<not> dotted_quad s then False
      else list_all (\<lambda>d. num_val 10 d \<le> 255) (split_char CHR ''.'' s))"

text \<open>One group of an IPv6 address: \<open>^[0-9a-fA-F]{1,4}$\<close>.\<close>

definition group_text :: "string \<Rightarrow> bool" where
  "group_text g = (1 \<le> length g \<and> length g \<le> 4 \<and> list_all is_hex_digit g)"

text \<open>The loop over the groups, with the hex text built so far.\<close>

fun hex_groups :: "string \<Rightarrow> string list \<Rightarrow> string option" where
  "hex_groups hex [] = Some hex"
| "hex_groups hex (g # gs) =
     (if \<not> group_text g then None
      else hex_groups (hex @ to_lower (pad_start 4 CHR ''0'' g)) gs)"

definition expandIPv6 :: "string \<Rightarrow> string option" where
  "expandIPv6 ip =
     (if str_includes ip ''%'' then None
      else
        let dbl = index_of ''::'' ip in
        if dbl \<noteq> None \<and> dbl \<noteq> last_index_of ''::'' ip then None
        else
          let head = (case dbl of Some i \<Rightarrow> take i ip | None \<Rightarrow> ip);
              tail = (case dbl of Some i \<Rightarrow> drop (i + 2) ip | None \<Rightarrow> []);
              headParts = (if head \<noteq> [] then split_char CHR '':'' head else []);
              tailParts = (if tail \<noteq> [] then split_char CHR '':'' tail else [])
          in if dbl = None \<and> length headParts \<noteq> 8 then None
             else if dbl \<noteq> None \<and> 8 \<le> length headParts + length tailParts then None
             else
               let missing = 8 - length headParts - length tailParts;
                   groups = (if dbl \<noteq> None then headParts @ replicate missing ''0'' @ tailParts
                             else headParts)
               in if length groups \<noteq> 8 then None else hex_groups [] groups)"

definition isIPAddress :: "string \<Rightarrow> bool" where
  "isIPAddress s = (isIPv4 s \<or> expandIPv6 s \<noteq> None)"

text \<open>The groups of 32 hex digits, without leading zeros.\<close>

definition short_groups :: "string \<Rightarrow> string list" where
  "short_groups hex = map (\<lambda>g. num_str 16 (num_val 16 g)) (chunks 4 hex)"

text \<open>The inner loop: the end of the run of zero groups that starts before \<open>j\<close>.\<close>

function zero_run_end :: "string list \<Rightarrow> nat \<Rightarrow> nat" where
  "zero_run_end groups j =
     (if j < length groups \<and> groups ! j = ''0'' then zero_run_end groups (j + 1) else j)"
  by pat_completeness auto
termination
  by (relation "measure (\<lambda>(gs, j). length gs - j)") auto

declare zero_run_end.simps [simp del]

lemma zero_run_end_ge: "j \<le> zero_run_end groups j"
proof (induction groups j rule: zero_run_end.induct)
  case (1 groups j)
  then show ?case
    by (cases "j < length groups \<and> groups ! j = ''0''") (auto simp: zero_run_end.simps [of groups j])
qed

text \<open>The outer loop: the start and length of the longest run of zero groups so far.\<close>

function best_zero_run :: "string list \<Rightarrow> nat \<Rightarrow> int \<Rightarrow> nat \<Rightarrow> int \<times> nat" where
  "best_zero_run groups i bestStart bestLength =
     (if i < length groups then
        if groups ! i \<noteq> ''0'' then best_zero_run groups (i + 1) bestStart bestLength
        else
          let e = zero_run_end groups (i + 1) in
          if e - i > bestLength then best_zero_run groups e (int i) (e - i)
          else best_zero_run groups e bestStart bestLength
      else (bestStart, bestLength))"
  by pat_completeness auto
termination
proof (relation "measure (\<lambda>(gs, i, s, l). length gs - i)")
  fix groups :: "string list" and i e :: nat and bs :: int and bl :: nat
  assume "i < length groups" "e = zero_run_end groups (i + 1)"
  moreover have "i + 1 \<le> zero_run_end groups (i + 1)" by (rule zero_run_end_ge)
  ultimately show "((groups, e, int i, e - i), groups, i, bs, bl)
      \<in> measure (\<lambda>(gs, i, s, l). length gs - i)"
    and "((groups, e, bs, bl), groups, i, bs, bl) \<in> measure (\<lambda>(gs, i, s, l). length gs - i)"
    by auto
qed auto

declare best_zero_run.simps [simp del]

definition normalizeIPAddress :: "string \<Rightarrow> string option" where
  "normalizeIPAddress s =
     (if isIPv4 s then Some s
      else case expandIPv6 s of
        None \<Rightarrow> None
      | Some hex \<Rightarrow>
          let groups = short_groups hex;
              (bestStart, bestLength) = best_zero_run groups 0 (-1) 0
          in if bestLength < 2 then Some (join '':'' groups)
             else
               let before = join '':'' (take (nat bestStart) groups);
                   after = join '':'' (drop (nat bestStart + bestLength) groups)
               in Some (before @ ''::'' @ after))"

definition ipToHex :: "string \<Rightarrow> string option" where
  "ipToHex ip =
     (if isIPv4 ip then
        let v = foldl (\<lambda>v octet. v * 256 + num_val 10 octet) 0 (split_char CHR ''.'' ip)
        in Some (pad_start 32 CHR ''0'' (num_str 16 v))
      else expandIPv6 ip)"

record ip_range =
  r_start :: string
  r_end :: string
  prefixLen :: int
  isIPv6 :: bool

definition hex_pad32 :: "int \<Rightarrow> string" where
  "hex_pad32 v = pad_start 32 CHR ''0'' (num_str 16 (nat v))"

definition prefixToRange :: "string \<Rightarrow> ip_range option" where
  "prefixToRange prefix =
     (case last_index_of ''/'' prefix of
        None \<Rightarrow> None
      | Some slash \<Rightarrow>
          let addr = take slash prefix;
              len = js_Number (drop (slash + 1) prefix);
              isV6 = (\<not> isIPv4 addr);
              addrBits = (if isV6 then 128 else 32 :: int)
          in case as_integer len of
               None \<Rightarrow> None
             | Some n \<Rightarrow>
                 if n < 0 \<or> n > addrBits then None
                 else case ipToHex addr of
                   None \<Rightarrow> None
                 | Some hex \<Rightarrow>
                     let v = int (num_val 16 hex);
                         hostBits = addrBits - n;
                         hostMask = (if hostBits \<le> 0 then 0 else push_bit (nat hostBits) 1 - 1)
                     in Some \<lparr>r_start = hex_pad32 (v AND NOT hostMask),
                              r_end = hex_pad32 (v OR hostMask),
                              prefixLen = n, isIPv6 = isV6\<rparr>)"

section \<open>Groups and their fixed-width text\<close>

definition pad4 :: "string \<Rightarrow> string" where
  "pad4 g = to_lower (pad_start 4 CHR ''0'' g)"

definition short_group :: "string \<Rightarrow> string" where
  "short_group g = num_str 16 (num_val 16 g)"

lemma hex_zero [simp]: "is_hex_digit CHR ''0''" "is_dig 16 CHR ''0''" "\<not> is_hex_digit CHR '':''"
  "\<not> is_hex_digit CHR ''%''" "\<not> is_hex_digit CHR ''.''"
  by (simp_all add: is_hex_digit_def is_dig_def digit_chars_def)

lemma pad4_hex: "group_text g \<Longrightarrow> length (pad4 g) = 4 \<and> (\<forall>c \<in> set (pad4 g). is_dig 16 c)"
  by (auto simp: pad4_def group_text_def to_lower_def pad_start_def list_all_iff lower_hex)

lemma num_val_pad4: "group_text g \<Longrightarrow> num_val 16 (pad4 g) = num_val 16 g"
proof -
  assume "group_text g"
  then have "\<forall>c \<in> set (pad_start 4 CHR ''0'' g). is_hex_digit c"
    by (auto simp: group_text_def list_all_iff pad_start_def)
  then show ?thesis unfolding pad4_def by (simp add: num_val_lower)
qed

lemma short_group_text: "group_text g \<Longrightarrow> group_text (short_group g)"
proof -
  assume g: "group_text g"
  have "num_val 16 g < 16 ^ 4"
    using num_val_less [of 16 "pad4 g"] pad4_hex [OF g] num_val_pad4 [OF g] by simp
  then have "length (short_group g) \<le> 4"
    unfolding short_group_def by (intro length_num_str) simp_all
  moreover have "short_group g \<noteq> []" by (simp add: short_group_def)
  ultimately show ?thesis
    using num_str_dig [of 16 "num_val 16 g"]
    by (auto simp: group_text_def list_all_iff short_group_def is_dig_hex Suc_le_eq)
qed

lemma lower_pad4: "\<forall>c \<in> set s. is_dig 16 c \<Longrightarrow> to_lower s = s"
  by (simp add: to_lower_def lower_hex_id map_idI)

lemma pad4_short_group: "group_text g \<Longrightarrow> pad4 (short_group g) = pad4 g"
proof -
  assume g: "group_text g"
  have "pad4 g \<noteq> []" using pad4_hex [OF g] by auto
  then have "pad_start 4 CHR ''0'' (short_group g) = pad4 g"
    using pad_num_str [of 16 "pad4 g"] pad4_hex [OF g]
    by (simp add: short_group_def num_val_pad4 [OF g])
  then show ?thesis
    using pad4_hex [OF g] by (simp add: pad4_def [of "short_group g"] lower_pad4)
qed

lemma hex_groups_eq:
  "hex_groups h gs = (if list_all group_text gs then Some (h @ concat (map pad4 gs)) else None)"
  by (induction gs arbitrary: h) (simp_all add: pad4_def)

lemma chunks_concat:
  "0 < n \<Longrightarrow> \<forall>g \<in> set gs. length g = n \<Longrightarrow> chunks n (concat gs) = gs"
proof (induction gs)
  case (Cons g gs)
  then have "concat (g # gs) \<noteq> []" by auto
  with Cons show ?case by (simp add: chunks.simps [of n "g @ concat gs"])
qed simp

lemma short_groups_concat:
  "list_all group_text gs \<Longrightarrow> short_groups (concat (map pad4 gs)) = map short_group gs"
proof -
  assume gs: "list_all group_text gs"
  then have "chunks 4 (concat (map pad4 gs)) = map pad4 gs"
    by (intro chunks_concat) (auto simp: list_all_iff pad4_hex)
  with gs show ?thesis
    by (simp add: short_groups_def short_group_def list_all_iff num_val_pad4)
qed

section \<open>Reading IPv6 text\<close>

lemma group_no_colon: "group_text g \<Longrightarrow> CHR '':'' \<notin> set g \<and> CHR ''%'' \<notin> set g \<and> g \<noteq> []"
  by (auto simp: group_text_def list_all_iff)

text \<open>Text with no two colons in a row.\<close>

fun single_colons :: "string \<Rightarrow> bool" where
  "single_colons (a # b # r) = (\<not> (a = CHR '':'' \<and> b = CHR '':'') \<and> single_colons (b # r))"
| "single_colons _ = True"

definition colon_ends :: "string \<Rightarrow> string \<Rightarrow> bool" where
  "colon_ends s t = (s \<noteq> [] \<and> t \<noteq> [] \<and> last s = CHR '':'' \<and> hd t = CHR '':'')"

lemma single_colons_append:
  "single_colons s \<Longrightarrow> single_colons t \<Longrightarrow> \<not> colon_ends s t \<Longrightarrow> single_colons (s @ t)"
proof (induction s rule: single_colons.induct)
  case (1 a b r)
  then show ?case by (auto simp: colon_ends_def)
qed (cases t; auto simp: colon_ends_def)+

lemma single_colons_no_colon: "CHR '':'' \<notin> set w \<Longrightarrow> single_colons w"
  by (induction w rule: single_colons.induct) auto

lemma index_of_None_single: "single_colons s \<Longrightarrow> index_of ''::'' s = None"
  by (induction s rule: single_colons.induct) (auto simp: starts_with_def)

lemma index_of_single:
  "single_colons s \<Longrightarrow> s = [] \<or> last s \<noteq> CHR '':'' \<Longrightarrow>
     index_of ''::'' (s @ ''::'' @ r) = Some (length s)"
  by (induction s rule: single_colons.induct) (auto simp: starts_with_def)

lemma last_index_of_single:
  assumes "single_colons (CHR '':'' # r)"
  shows "last_index_of ''::'' (s @ ''::'' @ r) = Some (length s)"
proof (induction s)
  case Nil
  have "last_index_of ''::'' (CHR '':'' # r) = None"
    using index_of_None_single [OF assms] by (simp only: last_index_of_None)
  then show ?case by (simp add: starts_with_def)
qed simp

lemma join_groups:
  "list_all group_text ps \<Longrightarrow> single_colons (join '':'' ps)
     \<and> (join '':'' ps \<noteq> [] \<longrightarrow> hd (join '':'' ps) \<noteq> CHR '':'' \<and> last (join '':'' ps) \<noteq> CHR '':'')
     \<and> (join '':'' ps = [] \<longleftrightarrow> ps = []) \<and> CHR ''%'' \<notin> set (join '':'' ps)"
proof (induction ps rule: induct_list012)
  case 1
  then show ?case by simp
next
  case (2 g)
  then have g: "CHR '':'' \<notin> set g" "CHR ''%'' \<notin> set g" "g \<noteq> []" using group_no_colon by auto
  then have "hd g \<in> set g" "last g \<in> set g" by simp_all
  with g have "hd g \<noteq> CHR '':''" "last g \<noteq> CHR '':''" by metis+
  with g show ?case by (simp add: single_colons_no_colon)
next
  case (3 g h ps)
  then have g: "CHR '':'' \<notin> set g" "CHR ''%'' \<notin> set g" "g \<noteq> []" using group_no_colon by auto
  then have "hd g \<in> set g" "last g \<in> set g" by simp_all
  with g have ends: "hd g \<noteq> CHR '':''" "last g \<noteq> CHR '':''" by metis+
  have rest: "single_colons (join '':'' (h # ps))" "join '':'' (h # ps) \<noteq> []"
    "hd (join '':'' (h # ps)) \<noteq> CHR '':''" "last (join '':'' (h # ps)) \<noteq> CHR '':''"
    "CHR ''%'' \<notin> set (join '':'' (h # ps))"
    using 3 by auto
  have "single_colons ('':'' @ join '':'' (h # ps))"
    using rest by (intro single_colons_append) (auto simp: colon_ends_def)
  then have "single_colons (g @ '':'' @ join '':'' (h # ps))"
    using ends by (intro single_colons_append [OF single_colons_no_colon [OF g(1)]])
      (auto simp: colon_ends_def)
  with g ends rest show ?case by simp
qed

lemma str_includes_percent: "str_includes s ''%'' \<longleftrightarrow> CHR ''%'' \<in> set s"
  by (rule str_includes_char)

lemma split_groups:
  "list_all group_text ps \<Longrightarrow> ps \<noteq> [] \<Longrightarrow> split_char CHR '':'' (join '':'' ps) = ps"
  by (rule split_char_join) (auto simp: list_all_iff group_no_colon)

text \<open>Eight groups joined by colons, and fewer groups around one double colon.\<close>

lemma expand_full:
  assumes "list_all group_text gs" "length gs = 8"
  shows "expandIPv6 (join '':'' gs) = Some (concat (map pad4 gs))"
proof -
  from assms(2) have "gs \<noteq> []" by auto
  with assms join_groups [OF assms(1)] show ?thesis
    by (simp add: expandIPv6_def str_includes_percent index_of_None_single split_groups hex_groups_eq)
qed

lemma expand_compressed:
  assumes "list_all group_text ps" "list_all group_text qs" "length ps + length qs < 8"
  shows "expandIPv6 (join '':'' ps @ ''::'' @ join '':'' qs) =
     Some (concat (map pad4 (ps @ replicate (8 - length ps - length qs) ''0'' @ qs)))"
proof -
  let ?s = "join '':'' ps @ ''::'' @ join '':'' qs"
  note p = join_groups [OF assms(1)] and q = join_groups [OF assms(2)]
  have "single_colons ('':'' @ join '':'' qs)"
    using q by (intro single_colons_append) (auto simp: colon_ends_def)
  then have last: "last_index_of ''::'' ?s = Some (length (join '':'' ps))"
    by (intro last_index_of_single) simp
  have first: "index_of ''::'' ?s = Some (length (join '':'' ps))"
    using p by (intro index_of_single) auto
  have parts: "(if join '':'' gs \<noteq> [] then split_char CHR '':'' (join '':'' gs) else []) = gs"
    if "list_all group_text gs" for gs
    using join_groups [OF that] split_groups [OF that] by auto
  have zero: "group_text ''0''" by (simp add: group_text_def)
  have "\<not> str_includes ?s ''%''" using p q by (simp add: str_includes_percent)
  then show ?thesis
    using assms first last zero
    by (auto simp: expandIPv6_def parts hex_groups_eq Let_def list_all_iff
        simp del: index_of.simps last_index_of.simps)
qed

lemma none_else: "(if b then None else x) = Some y \<longleftrightarrow> \<not> b \<and> x = Some y"
  by simp

text \<open>What a readable IPv6 text denotes: eight groups.\<close>

lemma expand_groups:
  assumes "expandIPv6 s = Some hex"
  obtains gs where "length gs = 8" "list_all group_text gs" "hex = concat (map pad4 gs)"
proof -
  have "\<exists>gs. length gs = 8 \<and> hex_groups [] gs = Some hex"
    using assms unfolding expandIPv6_def Let_def none_else by blast
  then show thesis using that by (auto simp: hex_groups_eq split: if_splits)
qed

lemma expand_hex:
  assumes "expandIPv6 s = Some hex"
  shows "length hex = 32 \<and> (\<forall>c \<in> set hex. is_dig 16 c)"
proof -
  from assms obtain gs where gs: "length gs = 8" "list_all group_text gs" "hex = concat (map pad4 gs)"
    by (rule expand_groups)
  have "map (length \<circ> pad4) gs = replicate 8 4"
    using gs pad4_hex by (auto simp: list_all_iff intro!: replicate_eqI)
  then have "length hex = 32" by (simp add: gs(3) length_concat sum_list_replicate)
  moreover have "\<forall>c \<in> set hex. is_dig 16 c" using gs pad4_hex by (auto simp: list_all_iff)
  ultimately show ?thesis ..
qed

lemma expand_has_colon: "expandIPv6 s = Some hex \<Longrightarrow> CHR '':'' \<in> set s"
proof (rule ccontr)
  assume "CHR '':'' \<notin> set s" and s: "expandIPv6 s = Some hex"
  moreover from this have "index_of ''::'' s = None"
    by (simp add: index_of_None_single single_colons_no_colon)
  ultimately show False
    by (auto simp: expandIPv6_def Let_def split_char_word split: if_splits)
qed

lemma ipv4_chars: "isIPv4 s \<Longrightarrow> c \<in> set s \<Longrightarrow> is_digit c \<or> c = CHR ''.''"
proof -
  assume "isIPv4 s" and c: "c \<in> set s"
  then have "\<forall>w \<in> set (split_char CHR ''.'' s). \<forall>c \<in> set w. is_digit c"
    by (auto simp: isIPv4_def dotted_quad_def octet_text_def list_all_iff Let_def split: if_splits)
  moreover have "c \<in> set ''.'' \<or> (\<exists>w \<in> set (split_char CHR ''.'' s). c \<in> set w)"
    using c join_split_char [of "CHR ''.''" s] set_join [of "''.''" "split_char CHR ''.'' s"] by auto
  ultimately show ?thesis by auto
qed

lemma expand_not_ipv4: "expandIPv6 s = Some hex \<Longrightarrow> \<not> isIPv4 s"
  using expand_has_colon ipv4_chars [of s "CHR '':''"] by (auto simp: is_digit_def)

section \<open>The longest run of zero groups\<close>

definition zero_run :: "string list \<Rightarrow> nat \<Rightarrow> nat \<Rightarrow> bool" where
  "zero_run groups a m \<longleftrightarrow>
     a + m \<le> length groups \<and> (\<forall>k. a \<le> k \<and> k < a + m \<longrightarrow> groups ! k = ''0'')"

lemma zero_run_end_spec:
  "j \<le> length groups \<Longrightarrow> zero_run_end groups j \<le> length groups
     \<and> (\<forall>k. j \<le> k \<and> k < zero_run_end groups j \<longrightarrow> groups ! k = ''0'')
     \<and> (zero_run_end groups j < length groups \<longrightarrow> groups ! zero_run_end groups j \<noteq> ''0'')"
proof (induction groups j rule: zero_run_end.induct)
  case (1 groups j)
  show ?case
  proof (cases "j < length groups \<and> groups ! j = ''0''")
    case True
    with 1 have IH: "zero_run_end groups (j + 1) \<le> length groups
      \<and> (\<forall>k. j + 1 \<le> k \<and> k < zero_run_end groups (j + 1) \<longrightarrow> groups ! k = ''0'')
      \<and> (zero_run_end groups (j + 1) < length groups \<longrightarrow> groups ! zero_run_end groups (j + 1) \<noteq> ''0'')"
      by simp
    from True have "zero_run_end groups j = zero_run_end groups (j + 1)"
      by (simp add: zero_run_end.simps [of groups j])
    with IH True show ?thesis by (metis Suc_eq_plus1 le_eq_less_or_eq Suc_leI)
  next
    case False
    then have "zero_run_end groups j = j" by (subst zero_run_end.simps) auto
    with False "1.prems" show ?thesis by auto
  qed
qed

text \<open>
  The state of the outer loop at index \<open>i\<close>: the best run is a run, no run that ends by \<open>i\<close>
  is longer or as long and further left, and no run straddles \<open>i\<close>.
\<close>

definition best_inv :: "string list \<Rightarrow> nat \<Rightarrow> int \<Rightarrow> nat \<Rightarrow> bool" where
  "best_inv groups i s l \<longleftrightarrow>
     i \<le> length groups
     \<and> (0 < l \<longrightarrow> 0 \<le> s \<and> nat s + l \<le> i \<and> zero_run groups (nat s) l)
     \<and> (\<forall>a m. zero_run groups a m \<and> 0 < m \<and> a < i \<longrightarrow>
           a + m \<le> i \<and> m \<le> l \<and> (m = l \<longrightarrow> nat s \<le> a))"

lemma best_inv_init: "best_inv groups 0 (-1) 0"
  by (simp add: best_inv_def)

lemma best_inv_skip:
  assumes "best_inv groups i s l" "i < length groups" "groups ! i \<noteq> ''0''"
  shows "best_inv groups (i + 1) s l"
proof -
  have "a < i" if "zero_run groups a m" "0 < m" "a < i + 1" for a m
    using that assms(3) by (auto simp: zero_run_def less_Suc_eq)
  with assms show ?thesis by (auto simp: best_inv_def) fastforce+
qed

lemma best_inv_run:
  assumes inv: "best_inv groups i s l" and i: "i < length groups" "groups ! i = ''0''"
    and e: "e = zero_run_end groups (i + 1)"
  shows "best_inv groups e (if e - i > l then int i else s) (if e - i > l then e - i else l)"
proof -
  have spec: "e \<le> length groups" "\<forall>k. i + 1 \<le> k \<and> k < e \<longrightarrow> groups ! k = ''0''"
    "e < length groups \<longrightarrow> groups ! e \<noteq> ''0''" "i + 1 \<le> e"
    using zero_run_end_spec [of "i + 1" groups] i(1) zero_run_end_ge [of "i + 1" groups]
    by (simp_all add: e)
  have run: "zero_run groups i (e - i)"
  proof -
    have "groups ! k = ''0''" if "i \<le> k" "k < e" for k
      using that spec(2) i(2) by (cases "k = i") simp_all
    with spec i(1) show ?thesis by (simp add: zero_run_def)
  qed
  have inside: "a + m \<le> e" if "zero_run groups a m" "a < e" for a m
    using that spec(1,3) by (auto simp: zero_run_def) (meson le_less_trans not_le le_less)
  have old: "a + m \<le> i \<and> m \<le> l \<and> (m = l \<longrightarrow> nat s \<le> a)" if "zero_run groups a m" "0 < m" "a < i" for a m
    using inv that by (simp add: best_inv_def)
  show ?thesis
  proof (cases "e - i > l")
    case True
    have "a + m \<le> e \<and> m \<le> e - i \<and> (m = e - i \<longrightarrow> i \<le> a)"
      if "zero_run groups a m" "0 < m" "a < e" for a m
      using old [OF that(1,2)] inside [OF that(1,3)] True by (cases "a < i") auto
    with True run spec(1,4) show ?thesis by (auto simp: best_inv_def)
  next
    case False
    have "a + m \<le> e \<and> m \<le> l \<and> (m = l \<longrightarrow> nat s \<le> a)"
      if "zero_run groups a m" "0 < m" "a < e" for a m
    proof (cases "a < i")
      case True
      with old [OF that(1,2)] spec(4) show ?thesis by auto
    next
      case out: False
      with inside [OF that(1,3)] False have "m \<le> l" by linarith
      moreover have "nat s \<le> a" if "m = l"
        using inv out \<open>0 < m\<close> that by (auto simp: best_inv_def)
      ultimately show ?thesis using inside [OF that(1,3)] by simp
    qed
    with False inv spec(1,4) show ?thesis by (auto simp: best_inv_def)
  qed
qed

lemma best_zero_run_inv:
  "best_inv groups i s l \<Longrightarrow> best_zero_run groups i s l = (s', l') \<Longrightarrow> best_inv groups (length groups) s' l'"
proof (induction groups i s l rule: best_zero_run.induct)
  case (1 groups i s l)
  note eq = best_zero_run.simps [of groups i s l]
  consider "\<not> i < length groups" | "i < length groups" "groups ! i \<noteq> ''0''"
    | "i < length groups" "groups ! i = ''0''" by blast
  then show ?case
  proof cases
    case 1
    with "1.prems" eq show ?thesis by (auto simp: best_inv_def)
  next
    case 2
    with "1.prems" eq best_inv_skip [OF "1.prems"(1)] show ?thesis
      by (intro "1.IH"(1)) simp_all
  next
    case 3
    let ?e = "zero_run_end groups (i + 1)"
    note step = best_inv_run [OF "1.prems"(1) 3 refl]
    show ?thesis
    proof (cases "?e - i > l")
      case True
      with step "1.prems"(2) eq 3 show ?thesis by (intro "1.IH"(2)) (simp_all add: Let_def)
    next
      case False
      with step "1.prems"(2) eq 3 show ?thesis by (intro "1.IH"(3)) (simp_all add: Let_def)
    qed
  qed
qed

lemma best_zero_run_spec:
  assumes "best_zero_run groups 0 (-1) 0 = (s, l)"
  shows "0 < l \<Longrightarrow> 0 \<le> s \<and> zero_run groups (nat s) l"
    and "zero_run groups a m \<Longrightarrow> 0 < m \<Longrightarrow> m \<le> l \<and> (m = l \<longrightarrow> nat s \<le> a)"
proof -
  have inv: "best_inv groups (length groups) s l"
    by (rule best_zero_run_inv [OF best_inv_init assms])
  then show "0 < l \<Longrightarrow> 0 \<le> s \<and> zero_run groups (nat s) l" by (simp add: best_inv_def)
  assume "zero_run groups a m" "0 < m"
  moreover from this have "a < length groups" by (auto simp: zero_run_def)
  ultimately show "m \<le> l \<and> (m = l \<longrightarrow> nat s \<le> a)" using inv by (simp add: best_inv_def)
qed

text \<open>A run splits the groups into what stands before it, zeros, and what stands after it.\<close>

lemma zero_run_split:
  assumes "zero_run groups a m"
  shows "groups = take a groups @ replicate m ''0'' @ drop (a + m) groups"
proof -
  have "take m (drop a groups) = replicate m ''0''"
  proof (rule nth_equalityI)
    show len: "length (take m (drop a groups)) = length (replicate m ''0'')"
      using assms unfolding zero_run_def by simp linarith
    show "take m (drop a groups) ! i = replicate m ''0'' ! i" if "i < length (take m (drop a groups))" for i
      using that assms len by (simp add: zero_run_def)
  qed
  then show ?thesis by (metis append_take_drop_id drop_drop add.commute)
qed

section \<open>The conventional form\<close>

text \<open>The text \<open>normalizeIPAddress\<close> gives for eight groups.\<close>

definition render_groups :: "string list \<Rightarrow> string" where
  "render_groups groups =
     (let (s, l) = best_zero_run groups 0 (-1) 0 in
      if l < 2 then join '':'' groups
      else join '':'' (take (nat s) groups) @ ''::'' @ join '':'' (drop (nat s + l) groups))"

lemma normalize_render:
  "expandIPv6 s = Some hex \<Longrightarrow> normalizeIPAddress s = Some (render_groups (short_groups hex))"
  by (simp add: normalizeIPAddress_def expand_not_ipv4 render_groups_def Let_def split: prod.split)

lemma list_all_take_drop: "list_all P xs \<Longrightarrow> list_all P (take n xs) \<and> list_all P (drop n xs)"
  by (auto simp: list_all_iff dest: in_set_takeD in_set_dropD)

text \<open>The rendered text denotes the groups it was rendered from.\<close>

lemma expand_render:
  assumes gs: "list_all group_text gs" "length gs = 8"
  shows "expandIPv6 (render_groups gs) = Some (concat (map pad4 gs))"
proof -
  obtain s l where b: "best_zero_run gs 0 (-1) 0 = (s, l)" by fastforce
  show ?thesis
  proof (cases "l < 2")
    case True
    with gs show ?thesis by (simp add: render_groups_def b expand_full)
  next
    case False
    with best_zero_run_spec(1) [OF b] have run: "zero_run gs (nat s) l" by simp
    then have le: "nat s + l \<le> 8" using gs(2) by (simp add: zero_run_def)
    have "expandIPv6 (render_groups gs) = Some (concat (map pad4 (take (nat s) gs @
        replicate (8 - length (take (nat s) gs) - length (drop (nat s + l) gs)) ''0'' @
        drop (nat s + l) gs)))"
    proof -
      have "length (take (nat s) gs) + length (drop (nat s + l) gs) < 8"
        using gs(2) le False by simp
      from expand_compressed [OF _ _ this] show ?thesis
        using False list_all_take_drop [OF gs(1)] by (simp add: render_groups_def b)
    qed
    also have "8 - length (take (nat s) gs) - length (drop (nat s + l) gs) = l"
      using gs(2) le by simp
    finally show ?thesis using zero_run_split [OF run] by simp
  qed
qed

lemma short_groups_text:
  assumes "expandIPv6 s = Some hex"
  shows "list_all group_text (short_groups hex)" "length (short_groups hex) = 8"
    "concat (map pad4 (short_groups hex)) = hex"
proof -
  from assms obtain gs where gs: "length gs = 8" "list_all group_text gs" "hex = concat (map pad4 gs)"
    by (rule expand_groups)
  then have "short_groups hex = map short_group gs" by (simp add: short_groups_concat)
  moreover have "map pad4 (map short_group gs) = map pad4 gs"
    using gs(2) by (simp add: list_all_iff pad4_short_group)
  ultimately show "list_all group_text (short_groups hex)" "length (short_groups hex) = 8"
    "concat (map pad4 (short_groups hex)) = hex"
    using gs by (simp_all add: list_all_iff short_group_text del: map_map)
qed

lemma expand_normalize:
  assumes "expandIPv6 s = Some hex"
  shows "\<exists>t. normalizeIPAddress s = Some t \<and> expandIPv6 t = Some hex"
  by (simp add: normalize_render [OF assms] short_groups_text(3) [OF assms]
      expand_render [OF short_groups_text(1,2) [OF assms]])

lemma normalize_cases:
  assumes "normalizeIPAddress s = Some t"
  obtains "isIPv4 s" "t = s"
  | hex where "expandIPv6 s = Some hex" "expandIPv6 t = Some hex" "t = render_groups (short_groups hex)"
proof (cases "isIPv4 s")
  case True
  with assms have "t = s" by (simp add: normalizeIPAddress_def)
  with True show thesis by (rule that(1))
next
  case False
  with assms obtain hex where hex: "expandIPv6 s = Some hex"
    by (auto simp: normalizeIPAddress_def split: option.splits)
  then have "normalizeIPAddress s = Some (render_groups (short_groups hex))"
    by (rule normalize_render)
  with assms have t: "t = render_groups (short_groups hex)" by simp
  have "expandIPv6 t = Some hex"
    by (simp add: t short_groups_text(3) [OF hex] expand_render [OF short_groups_text(1,2) [OF hex]])
  with hex t show thesis by (intro that(2))
qed

section \<open>Addresses as 128-bit values in text\<close>

definition hex32 :: "string \<Rightarrow> bool" where
  "hex32 h \<longleftrightarrow> length h = 32 \<and> (\<forall>c \<in> set h. is_dig 16 c)"

lemma hex32_less: "hex32 g \<Longrightarrow> hex32 h \<Longrightarrow> g < h \<longleftrightarrow> num_val 16 g < num_val 16 h"
  by (rule num_val_less_iff) (simp_all add: hex32_def)

lemma hex32_le: "hex32 g \<Longrightarrow> hex32 h \<Longrightarrow> g \<le> h \<longleftrightarrow> num_val 16 g \<le> num_val 16 h"
  by (simp add: hex32_less linorder_not_less [symmetric])

lemma hex32_val: "hex32 h \<Longrightarrow> num_val 16 h < 2 ^ 128"
  using num_val_less [of 16 h] by (simp add: hex32_def)

lemma hex32_eqI: "hex32 g \<Longrightarrow> hex32 h \<Longrightarrow> num_val 16 g = num_val 16 h \<Longrightarrow> g = h"
  using num_val_eq_iff [of 16 g h] by (simp add: hex32_def)

lemma hex32_pad: "n < 2 ^ 128 \<Longrightarrow> hex32 (pad_start 32 CHR ''0'' (num_str 16 n))"
  using length_num_str [of 16 n 32] num_str_dig [of 16 n]
  by (auto simp: hex32_def pad_start_def)

lemma hex32_hex_pad32:
  "0 \<le> v \<Longrightarrow> v < 2 ^ 128 \<Longrightarrow> hex32 (hex_pad32 v) \<and> int (num_val 16 (hex_pad32 v)) = v"
  by (simp add: hex_pad32_def hex32_pad nat_less_iff)

lemma octets_bound:
  "\<forall>d \<in> set ds. num_val 10 d \<le> 255 \<Longrightarrow>
     foldl (\<lambda>v octet. v * 256 + num_val 10 octet) 0 ds < (256::nat) ^ length ds"
proof (induction ds rule: rev_induct)
  case (snoc d ds)
  then have "foldl (\<lambda>v octet. v * 256 + num_val 10 octet) 0 ds + 1 \<le> (256::nat) ^ length ds"
    and d: "num_val 10 d \<le> 255" by simp_all
  from mult_right_mono [OF this(1), of 256] d
  show ?case by (simp add: algebra_simps)
qed simp

lemma ipv4_value:
  "isIPv4 s \<Longrightarrow> foldl (\<lambda>v octet. v * 256 + num_val 10 octet) 0 (split_char CHR ''.'' s) < (2::nat) ^ 32"
  using octets_bound [of "split_char CHR ''.'' s"]
  by (simp add: isIPv4_def dotted_quad_def Let_def list_all_iff split: if_splits)

lemma ipToHex_hex32: "ipToHex s = Some h \<Longrightarrow> hex32 h"
proof (cases "isIPv4 s")
  case True
  moreover assume "ipToHex s = Some h"
  ultimately show ?thesis
    using ipv4_value [OF True] by (auto simp: ipToHex_def intro!: hex32_pad elim: less_trans)
next
  case False
  moreover assume "ipToHex s = Some h"
  ultimately show ?thesis using expand_hex [of s h] by (simp add: ipToHex_def hex32_def)
qed

lemma ipToHex_defined: "isIPAddress s \<longleftrightarrow> (\<exists>h. ipToHex s = Some h)"
  by (auto simp: isIPAddress_def ipToHex_def)

section \<open>Prefix ranges\<close>

lemma and_not_mask: "(v::int) AND NOT (mask k) = v div 2 ^ k * 2 ^ k"
proof -
  have "v AND NOT (mask k) = push_bit k (drop_bit k v)"
    by (rule bit_eqI) (auto simp: bit_simps)
  then show ?thesis by (simp add: push_bit_eq_mult drop_bit_eq_div)
qed

lemma or_mask: "(v::int) OR mask k = v div 2 ^ k * 2 ^ k + (2 ^ k - 1)"
proof -
  have "v OR mask k = push_bit k (drop_bit k v) OR mask k"
    by (rule bit_eqI) (auto simp: bit_simps)
  also have "\<dots> = push_bit k (drop_bit k v) + mask k"
    by (rule disjunctive_add [symmetric]) (auto simp: bit_simps)
  finally show ?thesis by (simp add: push_bit_eq_mult drop_bit_eq_div mask_eq_exp_minus_1)
qed

lemma same_block:
  fixes x v :: nat
  shows "int v div 2 ^ k * 2 ^ k \<le> int x \<and> int x \<le> int v div 2 ^ k * 2 ^ k + (2 ^ k - 1)
    \<longleftrightarrow> x div 2 ^ k = v div 2 ^ k"
proof -
  have "int v div 2 ^ k = int (v div 2 ^ k)" by (simp add: zdiv_int)
  moreover have "(2::int) ^ k = int (2 ^ k)" by simp
  moreover have "v div 2 ^ k * 2 ^ k \<le> x \<and> x < (v div 2 ^ k + 1) * 2 ^ k \<longleftrightarrow> x div 2 ^ k = v div 2 ^ k"
  proof -
    have "v div 2 ^ k * 2 ^ k \<le> x \<longleftrightarrow> v div 2 ^ k \<le> x div 2 ^ k"
      by (rule less_eq_div_iff_mult_less_eq [symmetric]) simp
    moreover have "x < (v div 2 ^ k + 1) * 2 ^ k \<longleftrightarrow> x div 2 ^ k < v div 2 ^ k + 1"
      by (rule div_less_iff_less_mult [symmetric]) simp
    ultimately show ?thesis by auto
  qed
  moreover have "int x \<le> int b * int (2 ^ k) + (int (2 ^ k) - 1) \<longleftrightarrow> x < (b + 1) * 2 ^ k" for b
  proof -
    have "int b * int (2 ^ k) + (int (2 ^ k) - 1) = int ((b + 1) * 2 ^ k) - 1"
      by (simp add: algebra_simps)
    then show ?thesis by linarith
  qed
  ultimately show ?thesis by (simp only: of_nat_mult [symmetric] of_nat_le_iff)
qed

lemma and_not_ones: "0 \<le> v \<Longrightarrow> v < 2 ^ n \<Longrightarrow> 0 \<le> v AND NOT (mask k) \<and> v AND NOT (mask k) < (2::int) ^ n"
  by (metis and_nonnegative_int_iff AND_upper1 order.strict_trans1)

lemma or_ones: "0 \<le> v \<Longrightarrow> v < 2 ^ n \<Longrightarrow> k \<le> n \<Longrightarrow> 0 \<le> v OR mask k \<and> v OR mask k < (2::int) ^ n"
proof -
  assume v: "0 \<le> v" "v < 2 ^ n" and "k \<le> n"
  have "(2::int) ^ k \<le> 2 ^ n" using \<open>k \<le> n\<close> by (intro power_increasing) simp_all
  then have "(mask k :: int) < 2 ^ n" unfolding mask_eq_exp_minus_1 by linarith
  with v show ?thesis using OR_upper [of v n "mask k"] by (simp add: or_nonnegative_int_iff)
qed

lemma prefix_parts:
  assumes "prefixToRange p = Some r"
  obtains slash n hex where
    "last_index_of ''/'' p = Some slash"
    "as_integer (js_Number (drop (slash + 1) p)) = Some n"
    "0 \<le> n" "n \<le> (if isIPv6 r then 128 else 32)" "isIPv6 r = (\<not> isIPv4 (take slash p))"
    "ipToHex (take slash p) = Some hex" "prefixLen r = n"
    "r_start r = hex_pad32 (int (num_val 16 hex) AND NOT (mask (nat ((if isIPv6 r then 128 else 32) - n))))"
    "r_end r = hex_pad32 (int (num_val 16 hex) OR mask (nat ((if isIPv6 r then 128 else 32) - n)))"
proof -
  have m: "(if h \<le> 0 then 0 else push_bit (nat h) 1 - 1) = (mask (nat h) :: int)" for h :: int
    by (simp add: mask_eq_exp_minus_1 push_bit_eq_mult)
  show thesis
    using assms that unfolding prefixToRange_def Let_def m
    by (auto split: option.splits if_splits)
qed

lemma range_block:
  assumes "hex32 a" "hex32 h" "k \<le> 128"
  shows "hex_pad32 (int (num_val 16 a) AND NOT (mask k)) \<le> h
      \<and> h \<le> hex_pad32 (int (num_val 16 a) OR mask k)
    \<longleftrightarrow> num_val 16 h div 2 ^ k = num_val 16 a div 2 ^ k"
proof -
  let ?v = "int (num_val 16 a)"
  have v: "0 \<le> ?v" "?v < 2 ^ 128" using hex32_val [OF assms(1)] by simp_all
  note lo = hex32_hex_pad32 [OF and_not_ones [OF v, of k, THEN conjunct1] and_not_ones [OF v, THEN conjunct2]]
  note hi = hex32_hex_pad32 [OF or_ones [OF v assms(3), THEN conjunct1] or_ones [OF v assms(3), THEN conjunct2]]
  from lo hi assms(2) have
    "hex_pad32 (?v AND NOT (mask k)) \<le> h \<and> h \<le> hex_pad32 (?v OR mask k) \<longleftrightarrow>
     ?v AND NOT (mask k) \<le> int (num_val 16 h) \<and> int (num_val 16 h) \<le> ?v OR mask k"
    by (metis hex32_le of_nat_le_iff)
  then show ?thesis by (simp only: and_not_mask or_mask same_block)
qed

section \<open>Properties\<close>

text \<open>
  C32: \<open>normalizeIPAddress\<close> is a normal form. Its result is an address text that denotes the
  same 128-bit value, and normalising it again changes nothing.
\<close>

theorem normalize_stable:
  assumes "normalizeIPAddress s = Some t"
  shows "normalizeIPAddress t = Some t \<and> ipToHex t = ipToHex s \<and> isIPAddress t"
  using assms
proof (cases rule: normalize_cases)
  case 1
  then show ?thesis by (simp add: normalizeIPAddress_def isIPAddress_def)
next
  case (2 hex)
  then show ?thesis
    by (simp add: normalize_render ipToHex_def isIPAddress_def expand_not_ipv4)
qed

lemma normalize_eval:
  "normalizeIPAddress ''0:0::1'' = Some ''::1''"
  "normalizeIPAddress ''2001:db8:0:0:1:0:0:0001'' = Some ''2001:db8::1:0:0:1''"
proof -
  have "expandIPv6 ''0:0::1'' = Some ''00000000000000000000000000000001''" by code_simp
  moreover have "expandIPv6 ''2001:db8:0:0:1:0:0:0001'' = Some ''20010db8000000000001000000000001''"
    by code_simp
  ultimately show
    "normalizeIPAddress ''0:0::1'' = Some ''::1''"
    "normalizeIPAddress ''2001:db8:0:0:1:0:0:0001'' = Some ''2001:db8::1:0:0:1''"
    by (simp_all add: normalize_render render_groups_def short_groups_def chunks.simps eval_num
        best_zero_run.simps zero_run_end.simps)
qed

text \<open>The cases of src/tests/ipAddr.test.ts.\<close>

lemma normalize_tests:
  "normalizeIPAddress ''2607:f8b0:4023:0807::5A'' = Some ''2607:f8b0:4023:807::5a''"
  "normalizeIPAddress ''2001:0db8:0:0:1:0:0:1'' = Some ''2001:db8::1:0:0:1''"
  "normalizeIPAddress ''2001:db8:0:0:1::1'' = Some ''2001:db8::1:0:0:1''"
  "normalizeIPAddress ''0:0:0:0:0:0:0:0'' = Some ''::''"
  "normalizeIPAddress ''2001:db8:0:1:1:1:1:1'' = Some ''2001:db8:0:1:1:1:1:1''"
proof -
  have "expandIPv6 ''2607:f8b0:4023:0807::5A'' = Some ''2607f8b040230807000000000000005a''"
    "expandIPv6 ''2001:0db8:0:0:1:0:0:1'' = Some ''20010db8000000000001000000000001''"
    "expandIPv6 ''2001:db8:0:0:1::1'' = Some ''20010db8000000000001000000000001''"
    "expandIPv6 ''0:0:0:0:0:0:0:0'' = Some ''00000000000000000000000000000000''"
    "expandIPv6 ''2001:db8:0:1:1:1:1:1'' = Some ''20010db8000000010001000100010001''" by code_simp+
  then show
    "normalizeIPAddress ''2607:f8b0:4023:0807::5A'' = Some ''2607:f8b0:4023:807::5a''"
    "normalizeIPAddress ''2001:0db8:0:0:1:0:0:1'' = Some ''2001:db8::1:0:0:1''"
    "normalizeIPAddress ''2001:db8:0:0:1::1'' = Some ''2001:db8::1:0:0:1''"
    "normalizeIPAddress ''0:0:0:0:0:0:0:0'' = Some ''::''"
    "normalizeIPAddress ''2001:db8:0:1:1:1:1:1'' = Some ''2001:db8:0:1:1:1:1:1''"
    by (simp_all add: normalize_render render_groups_def short_groups_def chunks.simps eval_num
        best_zero_run.simps zero_run_end.simps)
qed

lemma normalize_rejects:
  "normalizeIPAddress ''192.0.2.1'' = Some ''192.0.2.1''" "normalizeIPAddress ''not-an-ip'' = None"
  "normalizeIPAddress ''1::2::3'' = None" "normalizeIPAddress ''1:2:3:4:5:6:7:'' = None"
  "normalizeIPAddress ''fe80::1%eth0'' = None"
proof -
  show "normalizeIPAddress ''192.0.2.1'' = Some ''192.0.2.1''" by code_simp
  have "expandIPv6 ''not-an-ip'' = None" "expandIPv6 ''1::2::3'' = None" "expandIPv6 ''1:2:3:4:5:6:7:'' = None"
    "expandIPv6 ''fe80::1%eth0'' = None" "\<not> isIPv4 ''not-an-ip''" "\<not> isIPv4 ''1::2::3''"
    "\<not> isIPv4 ''1:2:3:4:5:6:7:''" "\<not> isIPv4 ''fe80::1%eth0''" by code_simp+
  then show "normalizeIPAddress ''not-an-ip'' = None" "normalizeIPAddress ''1::2::3'' = None"
    "normalizeIPAddress ''1:2:3:4:5:6:7:'' = None" "normalizeIPAddress ''fe80::1%eth0'' = None"
    by (simp_all add: normalizeIPAddress_def)
qed

theorem normalize_stable_witness:
  "normalizeIPAddress ''::1'' = Some ''::1'' \<and> ipToHex ''::1'' = ipToHex ''0:0::1'' \<and> isIPAddress ''::1''"
  by (rule normalize_stable [OF normalize_eval(1)])

text \<open>
  C31: two IPv6 texts have the same normal form exactly when they denote the same address, so
  the normal form can serve as a database key.
\<close>

theorem normalize_identity:
  assumes "expandIPv6 a = Some ha" "expandIPv6 b = Some hb"
  shows "normalizeIPAddress a = normalizeIPAddress b \<longleftrightarrow> ha = hb"
  using assms by (metis expand_normalize normalize_render option.inject)

theorem normalize_identity_witness:
  "expandIPv6 ''2001:DB8::0:1'' = Some ''20010db8000000000000000000000001''
   \<and> normalizeIPAddress ''2001:DB8::0:1'' = normalizeIPAddress ''2001:db8::1''"
proof -
  have a: "expandIPv6 ''2001:DB8::0:1'' = Some ''20010db8000000000000000000000001''"
    and b: "expandIPv6 ''2001:db8::1'' = Some ''20010db8000000000000000000000001''"
    by code_simp+
  from normalize_identity [OF a b] a show ?thesis by simp
qed

text \<open>
  C33: the normal form of an IPv6 text follows RFC 5952 section 4: lowercase groups without
  leading zeros, the longest and then leftmost run of at least two zero groups written as
  a double colon, and no double colon when there is no such run.
\<close>

theorem normalize_rfc5952:
  assumes "expandIPv6 s = Some hex" "normalizeIPAddress s = Some t"
  shows "(\<exists>a m. zero_run (short_groups hex) a m \<and> 2 \<le> m
        \<and> (\<forall>a' m'. zero_run (short_groups hex) a' m' \<and> 0 < m' \<longrightarrow> m' \<le> m \<and> (m' = m \<longrightarrow> a \<le> a'))
        \<and> t = join '':'' (take a (short_groups hex)) @ ''::''
              @ join '':'' (drop (a + m) (short_groups hex)))
    \<or> (\<forall>a m. zero_run (short_groups hex) a m \<longrightarrow> m < 2) \<and> t = join '':'' (short_groups hex)"
proof -
  let ?gs = "short_groups hex"
  obtain b l where b: "best_zero_run ?gs 0 (-1) 0 = (b, l)" by fastforce
  have t: "t = render_groups ?gs" using assms normalize_render by auto
  show ?thesis
  proof (cases "l < 2")
    case True
    have "m < 2" if "zero_run ?gs a m" for a m
      using best_zero_run_spec(2) [OF b that] True by (cases "m = 0") auto
    with True t b show ?thesis by (simp add: render_groups_def)
  next
    case False
    with best_zero_run_spec [OF b] have "zero_run ?gs (nat b) l"
      "\<forall>a' m'. zero_run ?gs a' m' \<and> 0 < m' \<longrightarrow> m' \<le> l \<and> (m' = l \<longrightarrow> nat b \<le> a')" by auto
    moreover have "2 \<le> l" using False by simp
    moreover have "t = join '':'' (take (nat b) ?gs) @ ''::'' @ join '':'' (drop (nat b + l) ?gs)"
      using False t b by (simp add: render_groups_def)
    ultimately show ?thesis by blast
  qed
qed

theorem normalize_rfc5952_witness:
  "normalizeIPAddress ''2001:db8:0:0:1:0:0:0001'' = Some ''2001:db8::1:0:0:1''
   \<and> (\<exists>a m. zero_run (short_groups ''20010db8000000000001000000000001'') a m \<and> 2 \<le> m)"
proof -
  have a: "expandIPv6 ''2001:db8:0:0:1:0:0:0001'' = Some ''20010db8000000000001000000000001''"
    by code_simp
  note b = normalize_eval(2)
  have c: "''2001:db8::1:0:0:1'' \<noteq> join '':'' (short_groups ''20010db8000000000001000000000001'')"
    by (simp add: short_groups_def chunks.simps eval_num)
  from normalize_rfc5952 [OF a b] b c show ?thesis by blast
qed

text \<open>
  C34: the range of a CIDR prefix holds exactly the addresses that agree with the prefix
  address above the host bits, when bounds and address are compared as text.
\<close>

theorem prefix_range_members:
  assumes "prefixToRange (addr @ ''/'' @ len) = Some r" "CHR ''/'' \<notin> set len"
    and "ipToHex addr = Some a" "ipToHex x = Some h"
    and "k = nat ((if isIPv6 r then 128 else 32) - prefixLen r)"
  shows "r_start r \<le> h \<and> h \<le> r_end r \<longleftrightarrow> num_val 16 h div 2 ^ k = num_val 16 a div 2 ^ k"
proof -
  have "last_index_of ''/'' (addr @ ''/'' @ len) = Some (length addr)"
  proof -
    have "last_index_of ''/'' len = None"
      using assms(2) str_includes_char [of len "CHR ''/''"] unfolding str_includes_def last_index_of_None by blast
    then show ?thesis by (induction addr) (auto simp: starts_with_def)
  qed
  moreover obtain slash n hex where
    parts: "last_index_of ''/'' (addr @ ''/'' @ len) = Some slash"
    "as_integer (js_Number (drop (slash + 1) (addr @ ''/'' @ len))) = Some n"
    "0 \<le> n" "n \<le> (if isIPv6 r then 128 else 32)" "isIPv6 r = (\<not> isIPv4 (take slash (addr @ ''/'' @ len)))"
    "ipToHex (take slash (addr @ ''/'' @ len)) = Some hex" "prefixLen r = n"
    "r_start r = hex_pad32 (int (num_val 16 hex) AND NOT (mask (nat ((if isIPv6 r then 128 else 32) - n))))"
    "r_end r = hex_pad32 (int (num_val 16 hex) OR mask (nat ((if isIPv6 r then 128 else 32) - n)))"
    using assms(1) by (rule prefix_parts)
  ultimately have "hex = a" using assms(3) by simp
  with parts assms(3-5) show ?thesis
    by (auto simp: range_block ipToHex_hex32 nat_le_iff)
qed

lemma prefix_eval:
  "prefixToRange ''8.8.8.77/24'' = Some \<lparr>r_start = ''00000000000000000000000008080800'',
      r_end = ''000000000000000000000000080808ff'', prefixLen = 24, isIPv6 = False\<rparr>"
  "ipToHex ''8.8.8.77'' = Some ''0000000000000000000000000808084d''"
  "ipToHex ''8.8.8.1'' = Some ''00000000000000000000000008080801''"
proof -
  have ip: "isIPv4 ''8.8.8.77''" "isIPv4 ''8.8.8.1''" by code_simp+
  from ip show h: "ipToHex ''8.8.8.77'' = Some ''0000000000000000000000000808084d''"
    "ipToHex ''8.8.8.1'' = Some ''00000000000000000000000008080801''"
    by (simp_all add: ipToHex_def eval_num pad_start_def replicate_numeral)
  have n: "as_integer (js_Number ''24'') = Some 24"
    using js_Number_digits [of "''24''"] by (simp add: is_digit_def as_integer_nat eval_num)
  show "prefixToRange ''8.8.8.77/24'' = Some \<lparr>r_start = ''00000000000000000000000008080800'',
      r_end = ''000000000000000000000000080808ff'', prefixLen = 24, isIPv6 = False\<rparr>"
    by (simp add: prefixToRange_def starts_with_def n ip(1) h(1) eval_num hex_pad32_def pad_start_def
        replicate_numeral)
qed

theorem prefix_range_members_witness:
  "num_val 16 ''00000000000000000000000008080801'' div 2 ^ 8
      = num_val 16 ''0000000000000000000000000808084d'' div 2 ^ 8"
proof -
  let ?r = "\<lparr>r_start = ''00000000000000000000000008080800'',
      r_end = ''000000000000000000000000080808ff'', prefixLen = 24, isIPv6 = False\<rparr>"
  have p: "prefixToRange (''8.8.8.77'' @ ''/'' @ ''24'') = Some ?r" using prefix_eval(1) by simp
  have b: "r_start ?r \<le> ''00000000000000000000000008080801'' \<and> ''00000000000000000000000008080801'' \<le> r_end ?r"
    by (simp add: less_char_def)
  have k: "8 = nat ((if isIPv6 ?r then 128 else 32) - prefixLen ?r)" by simp
  from prefix_range_members [OF p _ prefix_eval(2,3) k] b show ?thesis by simp
qed
text \<open>
  Two behaviours worth knowing. Dotted quads are not normalised: leading zeros in an octet
  survive, so one IPv4 address can have two "conventional" texts. A prefix whose length
  part is empty reads as length 0, because the code converts it with Number.
\<close>

lemma ipv4_leading_zero:
  "normalizeIPAddress ''01.1.1.1'' = Some ''01.1.1.1'' \<and> normalizeIPAddress ''1.1.1.1'' = Some ''1.1.1.1''
   \<and> ipToHex ''01.1.1.1'' = ipToHex ''1.1.1.1''"
proof -
  have "isIPv4 ''01.1.1.1''" "isIPv4 ''1.1.1.1''" by code_simp+
  then show ?thesis by (simp add: normalizeIPAddress_def ipToHex_def eval_num)
qed

lemma prefix_empty_length:
  "map_option prefixLen (prefixToRange ''8.8.8.0/'') = Some 0"
proof -
  have ip: "isIPv4 ''8.8.8.0''" by code_simp
  have n: "as_integer (js_Number []) = Some 0" by code_simp
  show ?thesis by (simp add: prefixToRange_def starts_with_def n ip ipToHex_def Let_def)
qed

end
