(* ===== verification/PoolSteps.thy ===== *)
theory PoolSteps
  imports Schema IpAddr
begin

text \<open>
  Every atomic write the program makes to the database, as one rule of a step relation with
  arbitrary bound parameters. Whatever requests run at the same time, and whatever faults
  cut them short, the database only ever moves along these steps; so an invariant of the
  relation holds at every moment. The main contract is the one the delta protocol of
  /api/pool/changes rests on: what a client can see of a pool row never changes without a
  newer revision, and no row disappears without a newer reset version.
\<close>

section \<open>Reading and writing rows by key\<close>

lemma find_row_None: "find_row key k rows = None \<longleftrightarrow> k \<notin> key ` set rows"
  by (auto simp: find_row_def find_None_iff)

lemma find_row_Some: "find_row key k rows = Some r \<Longrightarrow> r \<in> set rows \<and> key r = k"
  by (auto simp: find_row_def find_Some_iff)

lemma find_row_in:
  "distinct (map key rows) \<Longrightarrow> r \<in> set rows \<Longrightarrow> find_row key (key r) rows = Some r"
  by (induction rows) (auto simp: find_row_def)

lemma find_row_append: "find_row key k (rows @ rows') =
    (case find_row key k rows of Some r \<Rightarrow> Some r | None \<Rightarrow> find_row key k rows')"
  by (induction rows) (auto simp: find_row_def)

lemma find_row_map:
  "(\<And>r. key (f r) = key r) \<Longrightarrow> find_row key k (map f rows) = map_option f (find_row key k rows)"
  by (induction rows) (auto simp: find_row_def)

lemma find_row_filter:
  "find_row key k (filter (\<lambda>r. P (key r)) rows) = (if P k then find_row key k rows else None)"
  by (induction rows) (auto simp: find_row_def)

lemma list_ex_key: "list_ex (\<lambda>r. key r = k) rows \<longleftrightarrow> find_row key k rows \<noteq> None"
  unfolding find_row_None by (auto simp: list_ex_iff)

lemma find_row_upsert:
  assumes "\<And>r. key (merge r) = key r"
  shows "find_row key k (upsert key new merge rows) =
    (if k = key new then Some (case find_row key k rows of None \<Rightarrow> new | Some r \<Rightarrow> merge r)
     else find_row key k rows)"
proof (cases "find_row key (key new) rows")
  case None
  then have "upsert key new merge rows = rows @ [new]" by (simp add: upsert_def list_ex_key)
  moreover have "find_row key k [new] = (if key new = k then Some new else None)"
    by (simp add: find_row_def)
  ultimately show ?thesis using None by (auto simp: find_row_append split: option.split)
next
  case (Some r)
  then have "upsert key new merge rows = map (\<lambda>r. if key r = key new then merge r else r) rows"
    by (simp add: upsert_def list_ex_key)
  moreover have "find_row key k (map (\<lambda>r. if key r = key new then merge r else r) rows) =
      map_option (\<lambda>r. if key r = key new then merge r else r) (find_row key k rows)"
    using assms by (intro find_row_map) simp
  ultimately show ?thesis
    using Some find_row_Some [of key k rows] by (cases "find_row key k rows") auto
qed

lemma upsert_keys:
  assumes "\<And>r. key (merge r) = key r"
  shows "map key (upsert key new merge rows) =
    (if key new \<in> key ` set rows then map key rows else map key rows @ [key new])"
proof (cases "key new \<in> key ` set rows")
  case True
  then have "list_ex (\<lambda>r. key r = key new) rows" by (auto simp: list_ex_iff)
  with True assms show ?thesis by (simp add: upsert_def)
next
  case False
  then have "\<not> list_ex (\<lambda>r. key r = key new) rows"
    unfolding list_ex_iff by (metis imageI)
  with False show ?thesis by (simp add: upsert_def)
qed

lemma upsert_distinct:
  assumes "\<And>r. key (merge r) = key r" "distinct (map key rows)"
  shows "distinct (map key (upsert key new merge rows))"
  using assms(2) by (simp add: upsert_keys [of key merge, OF assms(1)])

lemma upsert_all:
  assumes "\<forall>r \<in> set rows. P r" "P new" "\<And>r. P r \<Longrightarrow> P (merge r)"
  shows "\<forall>r \<in> set (upsert key new merge rows). P r"
  using assms by (auto simp: upsert_def)

section \<open>The row a client sees\<close>

text \<open>
  One row of the queries of src/src/store.ts over ip_pool LEFT JOIN ptr_cache (interface IPPoolRow).
\<close>

record ip_pool_row =
  q_ip :: string
  q_revision :: int
  q_is_ipv6 :: int
  q_scan_mode :: "string option"
  q_first_seen :: "string option"
  q_last_seen :: "string option"
  q_last_rtt_ms :: "int option"
  q_times_seen :: int
  q_last_checked_at :: "string option"
  q_last_check_ok :: "int option"
  q_ptr_hostname :: "string option"

definition join_row :: "tables \<Rightarrow> pool_row \<Rightarrow> ip_pool_row" where
  "join_row t p =
     \<lparr>q_ip = p_ip p, q_revision = p_revision p, q_is_ipv6 = p_is_ipv6 p, q_scan_mode = p_scan_mode p,
      q_first_seen = p_first_seen p, q_last_seen = p_last_seen p, q_last_rtt_ms = p_last_rtt_ms p,
      q_times_seen = p_times_seen p, q_last_checked_at = p_last_checked_at p,
      q_last_check_ok = p_last_check_ok p,
      q_ptr_hostname =
        Some (case find_row t_ip (p_ip p) (ptrs t) of
                None \<Rightarrow> []
              | Some r \<Rightarrow> (case t_ptr_hostname r of None \<Rightarrow> [] | Some s \<Rightarrow> s))\<rparr>"

definition view :: "tables \<Rightarrow> string \<Rightarrow> ip_pool_row option" where
  "view t ip = map_option (join_row t) (find_row p_ip ip (pool t))"

section \<open>The steps\<close>

definition CHECK_HISTORY_RETENTION :: nat where
  "CHECK_HISTORY_RETENTION = 300"

definition ipv6_flag :: "string \<Rightarrow> int" where
  "ipv6_flag ip = (if CHR '':'' \<in> set ip then 1 else 0)"

fun pool_stmt :: "stmt \<Rightarrow> bool" where
  "pool_stmt (PoolUpsert ip is_ipv6 mode successTS rtt latestTS ok) =
     (is_ipv6 = ipv6_flag ip \<and> ok \<in> {0, 1})"
| "pool_stmt (PoolFail ip latestTS cutoff) = True"
| "pool_stmt _ = False"

definition ptr_pair :: "ptr_rec \<Rightarrow> stmt list" where
  "ptr_pair e = [PtrUpsert e, PtrTouch (t_checked_at e) (t_ip e)]"

inductive db_step :: "tables \<Rightarrow> tables \<Rightarrow> bool" where
  checks_batch:
    "\<forall>(always, cutoff, c) \<in> set cs. k_ok c \<in> {0, 1} \<Longrightarrow>
     db_step t (run_batch (map (\<lambda>(always, cutoff, c). InsertCheck always cutoff c) cs) t)"
| pool_batch: "\<forall>s \<in> set ss. pool_stmt s \<Longrightarrow> db_step t (run_batch (BumpRevision # ss) t)"
| prune_batch: "db_step t (run_batch [PruneChecks ips CHECK_HISTORY_RETENTION, RecountHistory ips] t)"
| evict_batch: "db_step t (run_batch [BumpRevision, MarkReset, EvictDead ips] t)"
| ptr_batch: "db_step t (run_batch (BumpRevision # concat (map ptr_pair es)) t)"
| host_save: "db_step t (run_batch [HostUpsert h] t)"
| asn_save: "db_step t (run_batch [AsnUpsert a] t)"
| rate_delete: "db_step t (run_batch [RateDelete kind client w] t)"
| rate_count: "db_step t (run_batch [RateCount kind client w] t)"
| recheck: "k_ok c \<in> {0, 1} \<Longrightarrow> db_step t (run_batch [RecheckInsert c] t)"
| pool_check: "ok \<in> {0, 1} \<Longrightarrow> db_step t (run_batch [BumpRevision, PoolCheck ip ok rtt ts] t)"
| pool_check_insert:
    "is_ipv6 = ipv6_flag ip \<Longrightarrow>
     db_step t (run_batch [BumpRevision, PoolCheckInsert ip is_ipv6 mode ts rtt] t)"

inductive_cases db_stepE: "db_step t u"

abbreviation db_steps :: "tables \<Rightarrow> tables \<Rightarrow> bool" where
  "db_steps \<equiv> db_step\<^sup>*\<^sup>*"

interpretation db: guarantee db_steps
  by unfold_locales auto

text \<open>What one statement does to what clients see, once the batch has its revision.\<close>

definition touches :: "tables \<Rightarrow> tables \<Rightarrow> bool" where
  "touches t u \<longleftrightarrow>
     version u = version t \<and> reset_version u = reset_version t
     \<and> (\<forall>ip. view u ip = view t ip \<or> (\<exists>r. view u ip = Some r \<and> q_revision r = version t))"

lemma touches_refl [intro]: "touches t t"
  by (simp add: touches_def)

lemma touches_trans: "touches t u \<Longrightarrow> touches u v \<Longrightarrow> touches t v"
  unfolding touches_def by metis

lemma touches_fold:
  "(\<And>x t. x \<in> set xs \<Longrightarrow> touches t (f x t)) \<Longrightarrow> touches t (fold f xs t)"
proof (induction xs arbitrary: t)
  case (Cons x xs)
  then have "touches t (f x t)" "touches (f x t) (fold f xs (f x t))" by simp_all
  then show ?case by (auto intro: touches_trans)
qed auto

text \<open>Statements that leave pool and ptr_cache alone.\<close>

lemma join_row_cong: "ptrs u = ptrs t \<Longrightarrow> join_row u = join_row t"
  by (rule ext) (simp add: join_row_def)

lemma join_row_sel [simp]: "q_ip (join_row t p) = p_ip p" "q_revision (join_row t p) = p_revision p"
  by (simp_all add: join_row_def)

lemma view_cong: "pool u = pool t \<Longrightarrow> ptrs u = ptrs t \<Longrightarrow> view u = view t"
  by (rule ext) (simp add: view_def join_row_cong [of u t])

lemma touches_same:
  "pool u = pool t \<Longrightarrow> ptrs u = ptrs t \<Longrightarrow> version u = version t \<Longrightarrow> reset_version u = reset_version t \<Longrightarrow> touches t u"
  by (simp add: touches_def view_cong [of u t])

lemma pool_update_pool [simp]: "pool (update_pool cond f t) = map (\<lambda>p. if cond p then f p else p) (pool t)"
  and checks_update_pool [simp]: "checks (update_pool cond f t) = checks t"
  and ptrs_update_pool [simp]: "ptrs (update_pool cond f t) = ptrs t"
  and version_update_pool [simp]: "version (update_pool cond f t) = version t"
  and reset_update_pool [simp]: "reset_version (update_pool cond f t) = reset_version t"
  by (simp_all add: update_pool_def)

lemma view_update_pool:
  assumes "\<And>p. p_ip (f p) = p_ip p"
  shows "view (update_pool cond f t) ip
    = map_option (\<lambda>p. join_row t (if cond p then f p else p)) (find_row p_ip ip (pool t))"
proof -
  have "find_row p_ip ip (map (\<lambda>p. if cond p then f p else p) (pool t))
      = map_option (\<lambda>p. if cond p then f p else p) (find_row p_ip ip (pool t))"
    using assms by (intro find_row_map) simp
  then show ?thesis
    unfolding view_def pool_update_pool join_row_cong [OF ptrs_update_pool]
    by (simp only: option.map_comp comp_def)
qed

lemma touches_update_pool:
  assumes "\<And>p. p_ip (f p) = p_ip p" "\<And>p. p_revision (f p) = version t"
  shows "touches t (update_pool cond f t)"
proof -
  have "view (update_pool cond f t) ip = view t ip
      \<or> (\<exists>r. view (update_pool cond f t) ip = Some r \<and> q_revision r = version t)" for ip
    unfolding view_update_pool [of f, OF assms(1)]
    by (cases "find_row p_ip ip (pool t)") (simp_all add: view_def [of t] assms(2))
  then show ?thesis by (simp add: touches_def)
qed

lemma touches_upsert:
  assumes "\<And>p. p_ip (merge p) = p_ip p" "\<And>p. p_revision (merge p) = version t" "p_revision new = version t"
  shows "touches t (t\<lparr>pool := upsert p_ip new merge (pool t)\<rparr>)"
proof -
  let ?u = "t\<lparr>pool := upsert p_ip new merge (pool t)\<rparr>"
  have "view ?u ip = view t ip \<or> (\<exists>r. view ?u ip = Some r \<and> q_revision r = version t)" for ip
  proof -
    have "view ?u ip = map_option (join_row t)
        (if ip = p_ip new then Some (case find_row p_ip ip (pool t) of None \<Rightarrow> new | Some r \<Rightarrow> merge r)
         else find_row p_ip ip (pool t))"
      by (simp add: view_def [of ?u] find_row_upsert [of p_ip merge, OF assms(1)] join_row_cong [of ?u t])
    then show ?thesis
      by (cases "ip = p_ip new"; cases "find_row p_ip ip (pool t)") (simp_all add: view_def [of t] assms(2,3))
  qed
  then show ?thesis by (simp add: touches_def)
qed

lemma touches_pool_stmt: "pool_stmt s \<Longrightarrow> touches t (run_stmt s t)"
proof (induction s rule: pool_stmt.induct)
  case (1 ip is_ipv6 mode successTS rtt latestTS ok)
  show ?case unfolding run_stmt.simps by (rule touches_upsert) simp_all
next
  case (2 ip latestTS cutoff)
  show ?case unfolding run_stmt.simps by (rule touches_update_pool) simp_all
qed simp_all

lemma ptr_pair_run:
  "run_batch (ptr_pair e) t
    = update_pool (\<lambda>p. p_ip p = t_ip e)
        (\<lambda>p. p\<lparr>p_ptr_checked_at := Some (t_checked_at e), p_revision := version t\<rparr>)
        (run_stmt (PtrUpsert e) t)"
  by (simp add: ptr_pair_def)

lemma touches_ptr_pair: "touches t (run_batch (ptr_pair e) t)"
proof -
  let ?v = "run_stmt (PtrUpsert e) t"
  let ?u = "run_batch (ptr_pair e) t"
  have view: "view ?u ip = map_option (\<lambda>p. join_row ?v (if p_ip p = t_ip e
      then p\<lparr>p_ptr_checked_at := Some (t_checked_at e), p_revision := version t\<rparr> else p))
      (find_row p_ip ip (pool t))" for ip
    unfolding ptr_pair_run by (subst view_update_pool) simp_all
  have "view ?u ip = view t ip \<or> (\<exists>r. view ?u ip = Some r \<and> q_revision r = version t)" for ip
  proof (cases "find_row p_ip ip (pool t)")
    case None
    then show ?thesis by (simp add: view view_def [of t])
  next
    case (Some p)
    from find_row_Some [OF this] have ip: "p_ip p = ip" by simp
    show ?thesis
    proof (cases "ip = t_ip e")
      case True
      then show ?thesis unfolding view Some using ip by simp
    next
      case False
      then have "join_row ?v p = join_row t p"
        using ip by (simp add: join_row_def find_row_upsert)
      with False ip show ?thesis unfolding view view_def [of t] Some by simp
    qed
  qed
  then show ?thesis by (simp add: touches_def ptr_pair_run)
qed


section \<open>The delta contract\<close>

text \<open>
  What a store must promise for incremental synchronisation: every visible change carries a
  revision above the version before it, and a row only disappears together with a reset
  version above it.
\<close>

locale delta_store =
  fixes step :: "'t \<Rightarrow> 't \<Rightarrow> bool" and inv :: "'t \<Rightarrow> bool"
    and ver reset :: "'t \<Rightarrow> int" and look :: "'t \<Rightarrow> 'k \<Rightarrow> 'r option" and rev :: "'r \<Rightarrow> int"
  assumes inv_step: "inv t \<Longrightarrow> step t u \<Longrightarrow> inv u"
    and ver_step: "step t u \<Longrightarrow> ver t \<le> ver u"
    and reset_step: "inv t \<Longrightarrow> step t u \<Longrightarrow> reset t \<le> reset u"
    and look_step: "step t u \<Longrightarrow> look u k \<noteq> look t k \<Longrightarrow>
      (\<exists>r. look u k = Some r \<and> ver t < rev r) \<or> (look u k = None \<and> ver t < reset u)"
    and rev_le: "inv t \<Longrightarrow> look t k = Some r \<Longrightarrow> rev r \<le> ver t"
    and reset_le: "inv t \<Longrightarrow> reset t \<le> ver t"
begin

lemma steps_inv: "step\<^sup>*\<^sup>* t u \<Longrightarrow> inv t \<Longrightarrow> inv u"
  by (induction rule: rtranclp_induct) (auto intro: inv_step)

lemma steps_ver: "step\<^sup>*\<^sup>* t u \<Longrightarrow> ver t \<le> ver u"
  by (induction rule: rtranclp_induct) (auto dest: ver_step)

lemma steps_reset: "step\<^sup>*\<^sup>* t u \<Longrightarrow> inv t \<Longrightarrow> reset t \<le> reset u"
proof (induction rule: rtranclp_induct)
  case (step u v)
  with reset_step [OF steps_inv [OF step.hyps(1)]] show ?case by force
qed simp

text \<open>A row that differs from the snapshot was revised since, or a reset happened since.\<close>

lemma steps_look:
  "step\<^sup>*\<^sup>* t u \<Longrightarrow> inv t \<Longrightarrow> look u k \<noteq> look t k \<Longrightarrow>
     (\<exists>r. look u k = Some r \<and> ver t < rev r) \<or> ver t < reset u"
proof (induction rule: rtranclp_induct)
  case (step u v)
  note mono = steps_ver [OF step.hyps(1)] reset_step [OF steps_inv [OF step.hyps(1) step.prems(1)] step.hyps(2)]
  show ?case
  proof (cases "look v k = look u k")
    case True
    with step mono show ?thesis by force
  next
    case False
    from look_step [OF step.hyps(2) this] mono show ?thesis by force
  qed
qed simp

lemma unchanged:
  assumes "step\<^sup>*\<^sup>* t u" "inv t" "ver u = ver t"
  shows "look u k = look t k"
proof (rule ccontr)
  assume "look u k \<noteq> look t k"
  from steps_look [OF assms(1,2) this] rev_le [OF steps_inv [OF assms(1,2)], of k]
    reset_le [OF steps_inv [OF assms(1,2)]] assms(3)
  show False by force
qed

text \<open>The rows revised since the snapshot complete it, unless a reset happened since.\<close>

lemma catch_up:
  assumes "step\<^sup>*\<^sup>* t u" "inv t" "reset u \<le> ver t"
  shows "(case look u k of
      Some r \<Rightarrow> if ver t < rev r then Some r else look t k
    | None \<Rightarrow> look t k) = look u k"
  using steps_look [OF assms(1,2), of k] assms(3)
  by (cases "look u k = look t k") (auto split: option.splits)

end

section \<open>Invariants of the database\<close>

definition keys_distinct :: "tables \<Rightarrow> bool" where
  "keys_distinct t \<longleftrightarrow>
     distinct (map p_ip (pool t)) \<and> distinct (map t_ip (ptrs t)) \<and> distinct (map h_hostname (hosts t))
     \<and> distinct (map a_prefix (asns t))
     \<and> distinct (map (\<lambda>r. (l_kind r, l_client_ip r, l_window r)) (rates t))
     \<and> distinct (map k_id (checks t)) \<and> distinct (map (\<lambda>c. (k_ip c, k_checked_at c)) (checks t))"

definition row_ok :: "int \<Rightarrow> pool_row \<Rightarrow> bool" where
  "row_ok v p \<longleftrightarrow> p_revision p \<le> v \<and> p_is_ipv6 p = ipv6_flag (p_ip p) \<and> 1 \<le> p_times_seen p
     \<and> p_first_seen p \<noteq> None \<and> p_last_seen p \<noteq> None"

definition pool_ok :: "tables \<Rightarrow> bool" where
  "pool_ok t \<longleftrightarrow> (\<forall>p \<in> set (pool t). row_ok (version t) p) \<and> reset_version t \<le> version t"

definition checks_ok :: "tables \<Rightarrow> bool" where
  "checks_ok t \<longleftrightarrow> (\<forall>c \<in> set (checks t). 0 < k_id c \<and> k_ok c \<in> {0, 1})"

definition db_ok :: "tables \<Rightarrow> bool" where
  "db_ok t \<longleftrightarrow> keys_distinct t \<and> pool_ok t \<and> checks_ok t"

lemma fold_inv: "(\<And>x t. x \<in> set xs \<Longrightarrow> P t \<Longrightarrow> P (f x t)) \<Longrightarrow> P t \<Longrightarrow> P (fold f xs t)"
  by (induction xs arbitrary: t) simp_all

lemma next_id_above: "c \<in> set cs \<Longrightarrow> k_id c < next_id cs"
  unfolding next_id_def by (induction cs) auto

lemma next_id_pos: "0 < next_id cs"
  unfolding next_id_def by (induction cs) auto

text \<open>The statements whose effect on the tables the invariant allows.\<close>

fun stmt_ok :: "stmt \<Rightarrow> bool" where
  "stmt_ok (InsertCheck _ _ c) = (k_ok c \<in> {0, 1})"
| "stmt_ok (RecheckInsert c) = (k_ok c \<in> {0, 1})"
| "stmt_ok (PoolUpsert ip is_ipv6 _ _ _ _ _) = (is_ipv6 = ipv6_flag ip)"
| "stmt_ok (PoolCheckInsert ip is_ipv6 _ _ _) = (is_ipv6 = ipv6_flag ip)"
| "stmt_ok _ = True"

lemma map_keep: "(\<And>x. x \<in> set xs \<Longrightarrow> key (f x) = key x) \<Longrightarrow> map key (map f xs) = map key xs"
  by simp

lemma keys_update_pool:
  assumes "\<And>p. p_ip (f p) = p_ip p" "keys_distinct t"
  shows "keys_distinct (update_pool cond f t)"
proof -
  have "map p_ip (map (\<lambda>p. if cond p then f p else p) (pool t)) = map p_ip (pool t)"
    using assms(1) by (intro map_keep) simp
  with assms(2) show ?thesis by (simp only: keys_distinct_def) (simp add: update_pool_def del: map_map)
qed

lemma pool_ok_update:
  assumes "\<And>p. row_ok (version t) p \<Longrightarrow> row_ok (version t) (f p)" "pool_ok t"
  shows "pool_ok (update_pool cond f t)"
  using assms by (auto simp: pool_ok_def)

lemma pool_ok_upsert:
  assumes "\<And>p. row_ok (version t) p \<Longrightarrow> row_ok (version t) (merge p)" "row_ok (version t) new" "pool_ok t"
  shows "pool_ok (t\<lparr>pool := upsert p_ip new merge (pool t)\<rparr>)"
proof -
  have "\<forall>p \<in> set (upsert p_ip new merge (pool t)). row_ok (version t) p"
    using assms by (intro upsert_all) (simp_all add: pool_ok_def)
  with assms(3) show ?thesis by (simp add: pool_ok_def)
qed

lemma add_check_ok:
  assumes "db_ok t" "k_ok c \<in> {0, 1}"
  shows "db_ok (add_check c t)"
proof (cases "list_ex (\<lambda>k. k_ip k = k_ip c \<and> k_checked_at k = k_checked_at c) (checks t)")
  case True
  with assms(1) show ?thesis by (simp add: add_check_def)
next
  case False
  then have new: "(k_ip c, k_checked_at c) \<notin> (\<lambda>c. (k_ip c, k_checked_at c)) ` set (checks t)"
    by (auto simp: list_ex_iff)
  have "next_id (checks t) \<notin> k_id ` set (checks t)" using next_id_above by force
  with new assms False next_id_pos show ?thesis
    by (simp add: add_check_def db_ok_def keys_distinct_def pool_ok_def checks_ok_def)
qed

lemma keys_pool_upsert:
  assumes "\<And>p. p_ip (merge p) = p_ip p" "keys_distinct t"
  shows "keys_distinct (t\<lparr>pool := upsert p_ip new merge (pool t)\<rparr>)"
  using assms(2) upsert_distinct [of p_ip merge, OF assms(1)] by (simp add: keys_distinct_def)

lemmas db_ok_parts = db_ok_def keys_distinct_def pool_ok_def checks_ok_def

lemma update_pool_ok:
  assumes "\<And>p. p_ip (f p) = p_ip p" "\<And>p. row_ok (version t) p \<Longrightarrow> row_ok (version t) (f p)" "db_ok t"
  shows "db_ok (update_pool cond f t)"
  using assms(3) keys_update_pool [of f, OF assms(1)] pool_ok_update [of t f, OF assms(2)]
  by (simp add: db_ok_def checks_ok_def)

lemma upsert_ok:
  assumes "\<And>p. p_ip (merge p) = p_ip p" "\<And>p. row_ok (version t) p \<Longrightarrow> row_ok (version t) (merge p)"
    and "row_ok (version t) new" "db_ok t"
  shows "db_ok (t\<lparr>pool := upsert p_ip new merge (pool t)\<rparr>)"
  using assms(4) keys_pool_upsert [of merge, OF assms(1)] pool_ok_upsert [of t merge, OF assms(2,3)]
  by (simp add: db_ok_def checks_ok_def)

lemma run_stmt_ok: "stmt_ok s \<Longrightarrow> db_ok t \<Longrightarrow> db_ok (run_stmt s t)"
proof (cases s)
  case (PoolUpsert ip is_ipv6 mode successTS rtt latestTS ok)
  assume "stmt_ok s" "db_ok t"
  with PoolUpsert show ?thesis by (simp only: run_stmt.simps, intro upsert_ok) (simp_all add: row_ok_def)
next
  case (PoolCheckInsert ip is_ipv6 mode ts rtt)
  assume "stmt_ok s" "db_ok t"
  with PoolCheckInsert show ?thesis by (simp only: run_stmt.simps, intro upsert_ok) (simp_all add: row_ok_def)
next
  case (PoolFail ip latestTS cutoff)
  assume "db_ok t"
  with PoolFail show ?thesis by (simp only: run_stmt.simps, intro update_pool_ok) (simp_all add: row_ok_def)
next
  case (RecountHistory ips)
  assume "db_ok t"
  with RecountHistory show ?thesis by (simp only: run_stmt.simps, intro update_pool_ok) (simp_all add: row_ok_def)
next
  case (PtrTouch ts ip)
  assume "db_ok t"
  with PtrTouch show ?thesis by (simp only: run_stmt.simps, intro update_pool_ok) (simp_all add: row_ok_def)
next
  case (PoolCheck ip ok rtt ts)
  assume "db_ok t"
  with PoolCheck show ?thesis by (simp only: run_stmt.simps, intro update_pool_ok) (simp_all add: row_ok_def)
next
  case (InsertCheck always cutoff c)
  assume "stmt_ok s" "db_ok t"
  with InsertCheck show ?thesis by (simp add: add_check_ok)
next
  case (RecheckInsert c)
  assume "stmt_ok s" "db_ok t"
  with RecheckInsert show ?thesis by (simp add: add_check_ok)
next
  case BumpRevision
  assume "db_ok t"
  with BumpRevision show ?thesis by (force simp: db_ok_parts row_ok_def)
next
  case (PtrUpsert e)
  assume "db_ok t"
  with PtrUpsert show ?thesis by (simp add: db_ok_parts upsert_distinct)
next
  case (HostUpsert e)
  assume "db_ok t"
  with HostUpsert show ?thesis by (simp add: db_ok_parts upsert_distinct)
next
  case (AsnUpsert e)
  assume "db_ok t"
  with AsnUpsert show ?thesis by (simp add: db_ok_parts upsert_distinct)
next
  case (RateCount kind client w)
  assume "db_ok t"
  with RateCount show ?thesis by (simp add: db_ok_parts upsert_distinct)
qed (auto simp: db_ok_parts distinct_map_filter)

lemma run_batch_ok: "\<forall>s \<in> set ss. stmt_ok s \<Longrightarrow> db_ok t \<Longrightarrow> db_ok (run_batch ss t)"
  unfolding run_batch_def by (rule fold_inv [of _ db_ok]) (auto intro: run_stmt_ok)

lemma pool_stmt_ok: "pool_stmt s \<Longrightarrow> stmt_ok s"
  by (induction s rule: pool_stmt.induct) simp_all

lemma db_ok_step: "db_step t u \<Longrightarrow> db_ok t \<Longrightarrow> db_ok u"
proof (induction rule: db_step.induct)
  case (checks_batch cs t)
  then show ?case by (intro run_batch_ok) auto
next
  case (pool_batch ss t)
  then show ?case by (intro run_batch_ok) (auto intro: pool_stmt_ok)
next
  case (ptr_batch t es)
  then show ?case by (intro run_batch_ok) (auto simp: ptr_pair_def)
qed (intro run_batch_ok; simp)+

section \<open>The steps keep the contract\<close>

lemma touches_pool_batch: "\<forall>s \<in> set ss. pool_stmt s \<Longrightarrow> touches t (run_batch ss t)"
  unfolding run_batch_def by (rule touches_fold) (auto intro: touches_pool_stmt)

lemma touches_ptr_batch: "touches t (run_batch (concat (map ptr_pair es)) t)"
proof (induction es arbitrary: t)
  case (Cons e es)
  show ?case by (simp add: touches_trans [OF touches_ptr_pair Cons.IH])
qed auto

lemma touches_check_stmt: "touches t (run_stmt (PoolCheck ip ok rtt ts) t)"
    "touches t (run_stmt (PoolCheckInsert ip is_ipv6 mode ts rtt) t)"
  unfolding run_stmt.simps by (rule touches_update_pool touches_upsert; simp)+

lemma view_recount: "view (run_stmt (RecountHistory ips) t) = view t"
proof
  fix ip
  have "join_row t (if p_ip p \<in> set ips then p\<lparr>p_history_count := history_size t (p_ip p)\<rparr> else p)
      = join_row t p" for p
    by (simp add: join_row_def)
  then show "view (run_stmt (RecountHistory ips) t) ip = view t ip"
    unfolding run_stmt.simps by (subst view_update_pool) (simp_all add: view_def)
qed

text \<open>A step either leaves the visible rows alone, or revises what it changes, or evicts.\<close>

definition moves :: "tables \<Rightarrow> tables \<Rightarrow> bool" where
  "moves t u \<longleftrightarrow>
     version t \<le> version u \<and> reset_version u \<in> {reset_version t, version t + 1}
     \<and> (\<forall>ip. view u ip = view t ip \<or> (\<exists>r. view u ip = Some r \<and> version t < q_revision r)
        \<or> (view u ip = None \<and> version t < reset_version u))"

lemma moves_same:
  "view u = view t \<Longrightarrow> version u = version t \<Longrightarrow> reset_version u = reset_version t \<Longrightarrow> moves t u"
  by (simp add: moves_def)

lemma moves_bump: "touches (run_stmt BumpRevision t) u \<Longrightarrow> moves t u"
proof -
  assume u: "touches (run_stmt BumpRevision t) u"
  have "view (run_stmt BumpRevision t) = view t" by (rule view_cong) simp_all
  with u have v: "version u = version t + 1" "reset_version u = reset_version t"
    and view: "\<And>ip. view u ip = view t ip \<or> (\<exists>r. view u ip = Some r \<and> q_revision r = version t + 1)"
    by (simp_all add: touches_def)
  have "view u ip = view t ip \<or> (\<exists>r. view u ip = Some r \<and> version t < q_revision r)" for ip
    using view [of ip] by fastforce
  with v show ?thesis unfolding moves_def by auto
qed

lemma checks_batch_same:
  "pool (run_batch (map (\<lambda>(always, cutoff, c). InsertCheck always cutoff c) cs) t) = pool t
   \<and> ptrs (run_batch (map (\<lambda>(always, cutoff, c). InsertCheck always cutoff c) cs) t) = ptrs t
   \<and> version (run_batch (map (\<lambda>(always, cutoff, c). InsertCheck always cutoff c) cs) t) = version t
   \<and> reset_version (run_batch (map (\<lambda>(always, cutoff, c). InsertCheck always cutoff c) cs) t) = reset_version t"
  by (induction cs arbitrary: t) (auto simp: add_check_def)

lemma moves_evictI:
  "(\<And>ip. view u ip = view t ip \<or> view u ip = None) \<Longrightarrow> version u = version t + 1
    \<Longrightarrow> reset_version u = version t + 1 \<Longrightarrow> moves t u"
  unfolding moves_def by (metis insertCI order_refl zle_add1_eq_le zless_add1_eq)

lemma moves_evict: "moves t (run_batch [BumpRevision, MarkReset, EvictDead ips] t)"
proof -
  let ?u = "run_batch [BumpRevision, MarkReset, EvictDead ips] t"
  have "view ?u ip = view t ip \<or> view ?u ip = None" for ip
  proof -
    have "find_row p_ip ip (pool ?u) = find_row p_ip ip (pool t) \<or> find_row p_ip ip (pool ?u) = None"
      by (simp add: find_row_filter [of p_ip ip "\<lambda>i. \<not> (i \<in> set ips \<and> no_success _ i)", simplified])
    moreover have "join_row ?u = join_row t" by (rule join_row_cong) simp
    ultimately show ?thesis unfolding view_def by (elim disjE) simp_all
  qed
  then show ?thesis by (rule moves_evictI) simp_all
qed

lemma step_moves: "db_step t u \<Longrightarrow> moves t u"
proof (induction rule: db_step.induct)
  case (checks_batch cs t)
  from checks_batch_same [of cs t] show ?case by (intro moves_same view_cong) simp_all
next
  case (pool_batch ss t)
  then show ?case unfolding run_batch_simps by (intro moves_bump touches_pool_batch)
next
  case (prune_batch t ips)
  have "view (run_stmt (PruneChecks ips CHECK_HISTORY_RETENTION) t) = view t" by (rule view_cong) simp_all
  then show ?case unfolding run_batch_simps by (intro moves_same) (simp_all only: view_recount, simp_all)
next
  case (evict_batch t ips)
  show ?case by (rule moves_evict)
next
  case (ptr_batch t es)
  show ?case unfolding run_batch_simps by (rule moves_bump [OF touches_ptr_batch])
next
  case (pool_check ok t ip rtt ts)
  show ?case unfolding run_batch_simps by (rule moves_bump [OF touches_check_stmt(1)])
next
  case (pool_check_insert is_ipv6 ip t mode ts rtt)
  show ?case unfolding run_batch_simps by (rule moves_bump [OF touches_check_stmt(2)])
qed ((intro moves_same view_cong; simp add: add_check_def)+)

interpretation pool: delta_store db_step db_ok version reset_version view q_revision
proof
  fix t u ip r
  show "db_ok t \<Longrightarrow> db_step t u \<Longrightarrow> db_ok u" by (rule db_ok_step)
  show "db_step t u \<Longrightarrow> version t \<le> version u" by (simp add: step_moves [unfolded moves_def])
  show "db_ok t \<Longrightarrow> reset_version t \<le> version t" by (simp add: db_ok_def pool_ok_def)
  show "db_ok t \<Longrightarrow> db_step t u \<Longrightarrow> reset_version t \<le> reset_version u"
    using step_moves [of t u] by (auto simp: moves_def db_ok_def pool_ok_def)
  show "db_step t u \<Longrightarrow> view u ip \<noteq> view t ip \<Longrightarrow>
      (\<exists>r. view u ip = Some r \<and> version t < q_revision r) \<or> (view u ip = None \<and> version t < reset_version u)"
    using step_moves [of t u] unfolding moves_def by blast
  show "db_ok t \<Longrightarrow> view t ip = Some r \<Longrightarrow> q_revision r \<le> version t"
    by (auto simp: db_ok_def pool_ok_def row_ok_def view_def dest: find_row_Some)
qed

end
