(* ===== verification/StoreChecks.thy ===== *)
theory StoreChecks
  imports PoolSteps
begin

text \<open>
  The operations of src/src/store.ts that record check results and maintain the pool: inserting
  a batch of checks, updating the pool, pruning history with eviction, and the two writes of
  an on-demand probe. \<open>now\<close> is the value of Date.now() when the operation starts.
\<close>

section \<open>The operations\<close>

definition MAX_BATCH :: nat where
  "MAX_BATCH = 500"

definition check_stmt :: "string list \<Rightarrow> string \<Rightarrow> check_row \<Rightarrow> stmt res" where
  "check_stmt successfulIPs dedupCutoff row =
     (case toSQLiteDateTime (cr_checkedAt row) of
        Inl e \<Rightarrow> Inl e
      | Inr ts \<Rightarrow> Inr (InsertCheck (cr_ok row \<or> cr_ip row \<in> set successfulIPs) dedupCutoff
          \<lparr>k_id = 0, k_ip = cr_ip row, k_ok = (if cr_ok row then 1 else 0), k_rtt_ms = cr_rttMs row,
           k_reason = cr_reason row, k_detail = cr_detail row, k_checked_at = ts,
           k_scan_mode = Some (cr_scanMode row)\<rparr>))"

definition dedup_cutoff :: "int \<Rightarrow> string res" where
  "dedup_cutoff now = toSQLiteDateTime (date_of_ms (now - FAILURE_DEDUP_WINDOW_MS))"

definition insertCheckRows :: "int \<Rightarrow> check_row list \<Rightarrow> (tables, unit) prog" where
  "insertCheckRows now rows =
     (let successfulIPs = js_set (map cr_ip (filter cr_ok rows)) in
      andThen (lift (dedup_cutoff now)) (\<lambda>dedupCutoff.
        each (\<lambda>chunk. andThen (lift (map_res (check_stmt successfulIPs dedupCutoff) chunk)) batch)
          (chunks MAX_BATCH rows)))"

definition POOL_UPSERT_CHUNK :: nat where
  "POOL_UPSERT_CHUNK = 400"

record pb_state =
  pb_latest :: check_row
  pb_success :: "check_row option"

definition pb_step :: "(string \<times> pb_state) list \<Rightarrow> check_row \<Rightarrow> (string \<times> pb_state) list" where
  "pb_step byIP row =
     (case map_of byIP (cr_ip row) of
        None \<Rightarrow> al_put (cr_ip row)
          \<lparr>pb_latest = row, pb_success = (if cr_ok row then Some row else None)\<rparr> byIP
      | Some state \<Rightarrow> al_put (cr_ip row)
          \<lparr>pb_latest = row, pb_success = (if cr_ok row then Some row else pb_success state)\<rparr> byIP)"

definition pool_stmt_for :: "string \<Rightarrow> pb_state \<Rightarrow> stmt res" where
  "pool_stmt_for dedupCutoff st =
     (let latest = pb_latest st;
          isIPv6 = (if str_includes (cr_ip latest) '':'' then 1 else 0)
      in case toSQLiteDateTime (cr_checkedAt latest) of
           Inl e \<Rightarrow> Inl e
         | Inr latestTS \<Rightarrow>
             (case pb_success st of
                Some success \<Rightarrow>
                  (case toSQLiteDateTime (cr_checkedAt success) of
                     Inl e \<Rightarrow> Inl e
                   | Inr successTS \<Rightarrow>
                       Inr (PoolUpsert (cr_ip latest) isIPv6 (cr_scanMode success) successTS
                              (case cr_rttMs success of None \<Rightarrow> 0 | Some r \<Rightarrow> r) latestTS
                              (if cr_ok latest then 1 else 0)))
              | None \<Rightarrow> Inr (PoolFail (cr_ip latest) latestTS dedupCutoff)))"

definition updatePoolBatch :: "int \<Rightarrow> check_row list \<Rightarrow> (tables, unit) prog" where
  "updatePoolBatch now rows =
     andThen (lift (dedup_cutoff now)) (\<lambda>dedupCutoff.
       let uniqueRows = map snd (foldl pb_step [] (coalesceCheckRows rows)) in
       if uniqueRows = [] then ret ()
       else each (\<lambda>chunk.
              andThen (lift (map_res (pool_stmt_for dedupCutoff) chunk))
                (\<lambda>statements. batch (BumpRevision # statements)))
            (chunks POOL_UPSERT_CHUNK uniqueRows))"

definition PRUNE_IP_CHUNK :: nat where
  "PRUNE_IP_CHUNK = 99"

definition over_limit :: "string list \<Rightarrow> tables \<Rightarrow> string list" where
  "over_limit chunk t =
     map p_ip (filter (\<lambda>p. p_ip p \<in> set chunk \<and> int CHECK_HISTORY_RETENTION < p_history_count p) (pool t))"

definition dead_ips :: "string list \<Rightarrow> tables \<Rightarrow> string list" where
  "dead_ips chunk t =
     map p_ip (filter (\<lambda>p. p_ip p \<in> set chunk \<and> int CHECK_HISTORY_RETENTION \<le> p_history_count p
         \<and> no_success t (p_ip p)) (pool t))"

definition prune_chunk :: "string list \<Rightarrow> (tables, unit) prog" where
  "prune_chunk chunk =
     andThen (query (over_limit chunk)) (\<lambda>overLimit.
     andThen (if overLimit \<noteq> []
           then batch [PruneChecks overLimit CHECK_HISTORY_RETENTION, RecountHistory overLimit]
           else ret ()) (\<lambda>_.
     andThen (query (dead_ips chunk)) (\<lambda>dead.
     if dead = [] then ret () else batch [BumpRevision, MarkReset, EvictDead dead])))"

definition pruneCheckHistory :: "string list \<Rightarrow> (tables, unit) prog" where
  "pruneCheckHistory ips = each prune_chunk (chunks PRUNE_IP_CHUNK (js_set ips))"

definition isKnownGood :: "string \<Rightarrow> (tables, bool) prog" where
  "isKnownGood ip = query (in_pool ip)"

definition allKnownGoodIPs :: "(tables, string list) prog" where
  "allKnownGoodIPs = query (\<lambda>t. map p_ip (pool t))"

text \<open>RecheckResult has the fields of CheckRow.\<close>

definition recheck_reason :: "string option \<Rightarrow> string" where
  "recheck_reason reason =
     (case reason of
        None \<Rightarrow> ''recheck:unknown''
      | Some r \<Rightarrow>
          if r = [] then ''recheck:unknown''
          else if starts_with r ''recheck:'' \<or> starts_with r ''scan:'' then r
          else ''recheck:'' @ r)"

definition saveRecheckResult :: "check_row \<Rightarrow> (tables, unit) prog" where
  "saveRecheckResult r =
     (if cr_ok r then
        andThen (lift (toSQLiteDateTime (cr_checkedAt r))) (\<lambda>ts.
          batch [RecheckInsert \<lparr>k_id = 0, k_ip = cr_ip r, k_ok = 1, k_rtt_ms = cr_rttMs r,
            k_reason = Some ''recheck:ok'', k_detail = cr_detail r, k_checked_at = ts,
            k_scan_mode = Some (cr_scanMode r)\<rparr>])
      else
        andThen (isKnownGood (cr_ip r)) (\<lambda>known.
          if \<not> known then ret ()
          else andThen (lift (toSQLiteDateTime (cr_checkedAt r))) (\<lambda>ts.
            batch [RecheckInsert \<lparr>k_id = 0, k_ip = cr_ip r, k_ok = 0, k_rtt_ms = None,
              k_reason = Some (recheck_reason (cr_reason r)), k_detail = cr_detail r,
              k_checked_at = ts, k_scan_mode = Some (cr_scanMode r)\<rparr>])))"

text \<open>The reply of the first batch carries the number of pool rows the UPDATE matched.\<close>

definition updatePoolForCheck ::
    "string \<Rightarrow> bool \<Rightarrow> int option \<Rightarrow> js_date \<Rightarrow> string \<Rightarrow> (tables, unit) prog" where
  "updatePoolForCheck ip ok rttMs checkedAt scanMode =
     (let isIPv6 = (if str_includes ip '':'' then 1 else 0);
          rtt = (case rttMs of None \<Rightarrow> 0 | Some r \<Rightarrow> r)
      in andThen (lift (toSQLiteDateTime checkedAt)) (\<lambda>ts.
         andThen (call (\<lambda>t. (length (filter (\<lambda>p. p_ip p = ip) (pool t)),
                run_batch [BumpRevision, PoolCheck ip (if ok then 1 else 0) rtt ts] t))) (\<lambda>changes.
         if changes = 0 \<and> ok
         then batch [BumpRevision, PoolCheckInsert ip isIPv6 scanMode ts rtt]
         else ret ())))"

section \<open>Every operation moves along the steps\<close>

lemma ipv6_flag_code: "(if str_includes ip '':'' then 1 else 0) = ipv6_flag ip"
  by (simp add: ipv6_flag_def str_includes_char)

lemma stays_batch: "(\<And>t. db_step t (run_batch ss t)) \<Longrightarrow> db.stays (batch ss)"
  unfolding batch_def by (rule db.stays_exec) (rule r_into_rtranclp)

lemma check_stmts:
  "map_res (check_stmt ok_ips cutoff) rows = Inr ss \<Longrightarrow>
     \<exists>cs. ss = map (\<lambda>(always, cutoff, c). InsertCheck always cutoff c) cs
        \<and> (\<forall>(always, cutoff, c) \<in> set cs. k_ok c \<in> {0, 1})"
proof (induction rows arbitrary: ss)
  case (Cons row rows)
  then obtain s ss' where s: "check_stmt ok_ips cutoff row = Inr s"
    "map_res (check_stmt ok_ips cutoff) rows = Inr ss'" "ss = s # ss'"
    by (auto split: sum.splits)
  from Cons.IH [OF s(2)] obtain cs where cs: "ss' = map (\<lambda>(always, cutoff, c). InsertCheck always cutoff c) cs"
    "\<forall>(always, cutoff, c) \<in> set cs. k_ok c \<in> {0, 1}" by blast
  from s(1) obtain always c where "s = InsertCheck always cutoff c" "k_ok c \<in> {0, 1}"
    by (auto simp: check_stmt_def split: sum.splits)
  with cs s(3) show ?case by (intro exI [of _ "(always, cutoff, c) # cs"]) simp
qed simp

lemma pool_stmts:
  "map_res (pool_stmt_for cutoff) sts = Inr ss \<Longrightarrow> \<forall>s \<in> set ss. pool_stmt s"
proof (induction sts arbitrary: ss)
  case (Cons st sts)
  then obtain s ss' where s: "pool_stmt_for cutoff st = Inr s"
    "map_res (pool_stmt_for cutoff) sts = Inr ss'" "ss = s # ss'"
    by (auto split: sum.splits)
  from s(1) have "pool_stmt s"
    unfolding pool_stmt_for_def ipv6_flag_code by (auto simp: Let_def split: sum.splits option.splits)
  with Cons.IH [OF s(2)] s(3) show ?case by simp
qed simp

lemma stays_lift_batch:
  assumes "\<And>ss t. r = Inr ss \<Longrightarrow> db_step t (run_batch (f ss) t)"
  shows "db.stays (andThen (lift r) (\<lambda>ss. batch (f ss)))"
proof (cases r)
  case (Inl e)
  then have "andThen (lift r) (\<lambda>ss. batch (f ss)) = throw e"
    by (auto simp: andThen_def lift_def throw_def)
  then show ?thesis by (simp add: db.stays_throw)
next
  case (Inr ss)
  then have "andThen (lift r) (\<lambda>ss. batch (f ss)) = batch (f ss)"
    by (auto simp: andThen_def lift_def)
  with Inr assms show ?thesis by (simp add: stays_batch)
qed

lemma stays_insertCheckRows: "db.stays (insertCheckRows now rows)"
proof -
  have "db.stays (andThen (lift (map_res (check_stmt ok_ips cutoff) chunk)) (\<lambda>ss. batch ss))" for ok_ips cutoff chunk
    by (rule stays_lift_batch [of _ "\<lambda>ss. ss"]) (auto dest!: check_stmts intro: checks_batch)
  then show ?thesis
    unfolding insertCheckRows_def Let_def by (rule db.stays_bind [OF db.stays_lift db.stays_each])
qed

lemma stays_updatePoolBatch: "db.stays (updatePoolBatch now rows)"
proof -
  have "db.stays (andThen (lift (map_res (pool_stmt_for cutoff) chunk)) (\<lambda>ss. batch (BumpRevision # ss)))"
    for cutoff chunk
    by (rule stays_lift_batch) (intro db_step.pool_batch pool_stmts)
  then show ?thesis
    unfolding updatePoolBatch_def Let_def
    by (intro db.stays_bind db.stays_lift) (auto intro: db.stays_each)
qed

lemma stays_pruneCheckHistory: "db.stays (pruneCheckHistory ips)"
proof -
  have "db.stays (prune_chunk chunk)" for chunk
    unfolding prune_chunk_def
    by (intro db.stays_bind db.stays_query) (auto intro!: stays_batch db_step.prune_batch db_step.evict_batch)
  then show ?thesis unfolding pruneCheckHistory_def by (intro db.stays_each)
qed

lemma stays_saveRecheckResult: "db.stays (saveRecheckResult r)"
  unfolding saveRecheckResult_def isKnownGood_def
  by (auto intro!: db.stays_bind db.stays_lift db.stays_query stays_batch db_step.recheck)

lemma stays_updatePoolForCheck: "db.stays (updatePoolForCheck ip ok rttMs checkedAt scanMode)"
proof -
  have "db_steps t (run_batch [BumpRevision, PoolCheck ip (if ok then 1 else 0) rtt ts] t)" for t rtt ts
    by (rule r_into_rtranclp, rule db_step.pool_check) simp
  then have "db.stays (call (\<lambda>t. (length (filter (\<lambda>p. p_ip p = ip) (pool t)),
      run_batch [BumpRevision, PoolCheck ip (if ok then 1 else 0) rtt ts] t)))" for rtt ts
    by (intro db.stays_call) simp
  moreover have "db.stays (batch [BumpRevision, PoolCheckInsert ip (ipv6_flag ip) scanMode ts rtt])" for ts rtt
    by (intro stays_batch db_step.pool_check_insert refl)
  ultimately show ?thesis
    unfolding updatePoolForCheck_def Let_def ipv6_flag_code
    by (intro db.stays_bind db.stays_lift) auto
qed

end
