(* ===== verification/CheckHistory.thy ===== *)
theory CheckHistory
  imports StoreChecks
begin

text \<open>
  What insertCheckRows and pruneCheckHistory do to the history of an address: a retry after any
  fault adds nothing twice, failures of unknown addresses leave no trace, repeated failures are
  recorded once per window, and pruning keeps exactly the newest rows.
\<close>

section \<open>Inserting is idempotent\<close>

fun is_insert :: "stmt \<Rightarrow> bool" where
  "is_insert (InsertCheck _ _ _) = True"
| "is_insert _ = False"

lemma is_insertE: "is_insert s \<Longrightarrow> (\<And>a cutoff c. s = InsertCheck a cutoff c \<Longrightarrow> P) \<Longrightarrow> P"
  by (cases s) auto

lemma insert_pool [simp]: "is_insert s \<Longrightarrow> pool (run_stmt s t) = pool t"
  by (erule is_insertE) (simp add: add_check_def)

lemma insert_done: "is_insert s \<Longrightarrow> run_stmt s (run_stmt s t) = run_stmt s t"
  by (erule is_insertE) (auto simp: add_check_def)

definition has_check :: "check_rec \<Rightarrow> tables \<Rightarrow> bool" where
  "has_check c t \<longleftrightarrow> list_ex (\<lambda>k. k_ip k = k_ip c \<and> k_checked_at k = k_checked_at c) (checks t)"

lemma add_check_same: "add_check c t = t \<longleftrightarrow> has_check c t"
proof (cases "has_check c t")
  case False
  then have "checks (add_check c t) \<noteq> checks t" by (simp add: add_check_def has_check_def)
  with False show ?thesis by metis
qed (simp add: add_check_def has_check_def)

lemma has_check_mono: "has_check c t \<Longrightarrow> is_insert s \<Longrightarrow> has_check c (run_stmt s t)"
  by (erule is_insertE) (auto simp: add_check_def has_check_def)

lemma insert_stays_done:
  assumes "is_insert s" "is_insert s'" "run_stmt s t = t"
  shows "run_stmt s (run_stmt s' t) = run_stmt s' t"
proof -
  obtain a cutoff c where s: "s = InsertCheck a cutoff c" using assms(1) by (rule is_insertE)
  show ?thesis
  proof (cases "a \<or> list_ex (\<lambda>p. p_ip p = k_ip c \<and> failureGate cutoff p) (pool t)")
    case True
    with assms(3) s have "has_check c t" by (simp add: add_check_same)
    then have "has_check c (run_stmt s' t)" using assms(2) by (rule has_check_mono)
    with s True assms(2) show ?thesis by (simp add: add_check_same)
  next
    case False
    with s assms(2) show ?thesis by simp
  qed
qed

lemma inserts_done:
  "is_insert s \<Longrightarrow> run_stmt s t = t \<Longrightarrow> \<forall>s' \<in> set ss. is_insert s' \<Longrightarrow> run_stmt s (run_batch ss t) = run_batch ss t"
  by (induction ss arbitrary: t) (simp_all add: insert_stays_done)

lemma inserts_all_done:
  "\<forall>s \<in> set ss. is_insert s \<Longrightarrow> s \<in> set ss \<Longrightarrow> run_stmt s (run_batch ss t) = run_batch ss t"
  by (induction ss arbitrary: t) (auto simp: inserts_done insert_done)

lemma run_all_done: "\<forall>s \<in> set ss. run_stmt s t = t \<Longrightarrow> run_batch ss t = t"
  by (induction ss) simp_all

text \<open>Running a prefix first and then everything is running everything once.\<close>

lemma inserts_retry:
  "\<forall>s \<in> set (ss @ rest). is_insert s \<Longrightarrow> run_batch (ss @ rest) (run_batch ss t) = run_batch (ss @ rest) t"
  by (simp add: run_all_done inserts_all_done)

section \<open>Retrying after a fault\<close>

text \<open>The batches a loop over chunks sends, up to the chunk whose rows cannot be bound.\<close>

fun sendable :: "('a \<Rightarrow> stmt list res) \<Rightarrow> 'a list \<Rightarrow> stmt list list" where
  "sendable g [] = []"
| "sendable g (c # cs) = (case g c of Inl e \<Rightarrow> [] | Inr ss \<Rightarrow> ss # sendable g cs)"

abbreviation send_all :: "('a \<Rightarrow> stmt list res) \<Rightarrow> 'a list \<Rightarrow> (tables, unit) prog" where
  "send_all g \<equiv> each (\<lambda>c. andThen (lift (g c)) batch)"

definition only_faults :: "tables d1 \<Rightarrow> bool" where
  "only_faults db \<longleftrightarrow> (\<forall>turn \<in> set (script db). others turn = id)"

lemma batch_faults:
  assumes "only_faults db" "batch ss db = (r, db')"
  shows "only_faults db' \<and> (store db' = run_batch ss (store db) \<or> (store db' = store db \<and> (\<exists>e. r = Inl e)))
    \<and> (store db' = run_batch ss (store db) \<or> r \<noteq> Inr ())"
  using assms
  by (auto simp: batch_def exec_def call_def only_faults_def split: list.splits outcome.splits)

lemma send_Inl: "g c = Inl e \<Longrightarrow> send_all g (c # cs) = throw e"
  by (rule ext) (simp add: andThen_def lift_def throw_def)

lemma send_Inr: "g c = Inr ss \<Longrightarrow> send_all g (c # cs) = andThen (batch ss) (\<lambda>_. send_all g cs)"
  by (rule ext) (simp add: andThen_def [of "andThen _ _"] andThen_def [of "lift _"] andThen_def [of "batch _"] lift_def)

lemma send_all_faults:
  "only_faults db \<Longrightarrow> \<exists>n. store (snd (send_all g cs db)) = run_batch (concat (take n (sendable g cs))) (store db)"
proof (induction cs arbitrary: db)
  case Nil
  then show ?case by (simp add: ret_def)
next
  case (Cons c cs)
  show ?case
  proof (cases "g c")
    case (Inl e)
    then show ?thesis by (simp add: send_Inl throw_def del: each.simps)
  next
    case (Inr ss)
    obtain r db' where b: "batch ss db = (r, db')" by fastforce
    note f = batch_faults [OF Cons.prems b]
    show ?thesis
    proof (cases r)
      case (Inl e)
      then have "store (snd (send_all g (c # cs) db)) = store db'"
        by (simp add: send_Inr [of g, OF Inr] andThen_def b del: each.simps)
      with f Inr show ?thesis by (auto intro: exI [of _ 0] exI [of _ 1] simp del: each.simps)
    next
      case r: (Inr x)
      from f r have s: "store db' = run_batch ss (store db)" by auto
      from Cons.IH [of db'] f obtain n where
        n: "store (snd (send_all g cs db')) = run_batch (concat (take n (sendable g cs))) (store db')" by blast
      have "store (snd (send_all g (c # cs) db)) = store (snd (send_all g cs db'))"
        using r by (simp add: send_Inr [of g, OF Inr] andThen_def b del: each.simps)
      with n s Inr show ?thesis
        by (intro exI [of _ "Suc n"]) (simp del: each.simps)
    qed
  qed
qed

lemma send_all_quiet: "store (snd (send_all g cs (quiet t))) = run_batch (concat (sendable g cs)) t"
proof (induction cs arbitrary: t)
  case (Cons c cs)
  show ?case
  proof (cases "g c")
    case (Inl e)
    then show ?thesis by (simp add: send_Inl throw_def del: each.simps)
  next
    case (Inr ss)
    have "batch ss (quiet t) = (Inr (), quiet (run_batch ss t))" by (simp add: batch_def)
    then have "send_all g (c # cs) (quiet t) = send_all g cs (quiet (run_batch ss t))"
      by (simp add: send_Inr [of g, OF Inr] andThen_def [of "batch ss"] del: each.simps)
    with Cons.IH Inr show ?thesis by (simp del: each.simps)
  qed
qed (simp add: ret_def)

lemma check_stmt_insert: "check_stmt ok_ips cutoff row = Inr s \<Longrightarrow> is_insert s"
  by (auto simp: check_stmt_def split: sum.splits)

lemma map_check_stmt_insert:
  "map_res (check_stmt ok_ips cutoff) rows = Inr ss \<Longrightarrow> \<forall>s \<in> set ss. is_insert s"
proof (induction rows arbitrary: ss)
  case (Cons row rows)
  then obtain s ss' where "check_stmt ok_ips cutoff row = Inr s"
    "map_res (check_stmt ok_ips cutoff) rows = Inr ss'" "ss = s # ss'"
    by (auto split: sum.splits)
  with Cons.IH check_stmt_insert show ?case by simp
qed simp

lemma sendable_inserts:
  "\<forall>s \<in> set (concat (sendable (map_res (check_stmt ok_ips cutoff)) cs)). is_insert s"
proof (induction cs)
  case (Cons c cs)
  then show ?case
    using map_check_stmt_insert [of ok_ips cutoff c] by (cases "map_res (check_stmt ok_ips cutoff) c") auto
qed simp

lemma insertCheckRows_send:
  "dedup_cutoff now = Inr cutoff \<Longrightarrow> insertCheckRows now rows
     = send_all (map_res (check_stmt (js_set (map cr_ip (filter cr_ok rows))) cutoff)) (chunks MAX_BATCH rows)"
  by (rule ext) (simp add: insertCheckRows_def andThen_def lift_def)

lemma insert_retry:
  assumes "only_faults db"
  shows "store (snd (insertCheckRows now rows (quiet (store (snd (insertCheckRows now rows db))))))
    = store (snd (insertCheckRows now rows (quiet (store db))))"
proof (cases "dedup_cutoff now")
  case (Inl e)
  then show ?thesis by (simp add: insertCheckRows_def andThen_def lift_def Let_def)
next
  case (Inr cutoff)
  let ?g = "map_res (check_stmt (js_set (map cr_ip (filter cr_ok rows))) cutoff)"
  let ?ss = "sendable ?g (chunks MAX_BATCH rows)"
  note send = insertCheckRows_send [OF Inr, of rows]
  obtain n where n: "store (snd (insertCheckRows now rows db)) = run_batch (concat (take n ?ss)) (store db)"
    using send_all_faults [OF assms, of ?g] unfolding send by blast
  have split: "concat ?ss = concat (take n ?ss) @ concat (drop n ?ss)"
    by (simp flip: concat_append)
  have "\<forall>s \<in> set (concat (take n ?ss) @ concat (drop n ?ss)). is_insert s"
    unfolding split [symmetric] by (rule sendable_inserts)
  from inserts_retry [OF this] show ?thesis
    unfolding n unfolding send send_all_quiet split [symmetric] .
qed

section \<open>Pruning one address\<close>

text \<open>The newest \<open>n\<close> rows of a history, in storage order.\<close>

definition newest_rows :: "nat \<Rightarrow> check_rec list \<Rightarrow> check_rec list" where
  "newest_rows n cs = filter (\<lambda>c. length (filter (\<lambda>d. newer_check d c) cs) < n) cs"

lemma newer_linear: "k_id c \<noteq> k_id d \<Longrightarrow> newer_check c d \<or> newer_check d c"
  by (auto simp: newer_check_def)

lemma newer_trans: "newer_check a b \<Longrightarrow> newer_check b c \<Longrightarrow> newer_check a c"
  by (auto simp: newer_check_def)

lemma newer_irrefl [simp]: "\<not> newer_check c c"
  by (simp add: newer_check_def)

lemma newer_count_less:
  assumes "newer_check c d" "c \<in> set cs"
  shows "length (filter (\<lambda>e. newer_check e c) cs) < length (filter (\<lambda>e. newer_check e d) cs)"
proof -
  have "filter (\<lambda>e. newer_check e c) cs = filter (\<lambda>e. newer_check e c) (filter (\<lambda>e. newer_check e d) cs)"
    using newer_trans [OF _ assms(1)] by (auto intro: filter_cong)
  moreover have "c \<in> set (filter (\<lambda>e. newer_check e d) cs)" using assms by simp
  ultimately show ?thesis
    by (metis (no_types, lifting) length_filter_less newer_irrefl)
qed

lemma ranks:
  assumes "distinct (map k_id cs)"
  shows "inj_on (\<lambda>c. length (filter (\<lambda>d. newer_check d c) cs)) (set cs)"
    and "(\<lambda>c. length (filter (\<lambda>d. newer_check d c) cs)) ` set cs = {..<length cs}"
proof -
  let ?r = "\<lambda>c. length (filter (\<lambda>d. newer_check d c) cs)"
  show inj: "inj_on ?r (set cs)"
  proof (rule inj_onI)
    fix c d
    assume cd: "c \<in> set cs" "d \<in> set cs" "?r c = ?r d"
    show "c = d"
    proof (rule ccontr)
      assume "c \<noteq> d"
      with assms cd have "k_id c \<noteq> k_id d" by (auto simp: distinct_map inj_on_def)
      with newer_linear newer_count_less [of c d cs] newer_count_less [of d c cs] cd
      show False by fastforce
    qed
  qed
  have "?r c < length cs" if "c \<in> set cs" for c
    by (rule length_filter_less [OF that]) simp
  then have "?r ` set cs \<subseteq> {..<length cs}" by auto
  moreover have "card (?r ` set cs) = card {..<length cs}"
    using inj assms by (simp add: card_image distinct_map distinct_card)
  ultimately show "?r ` set cs = {..<length cs}" by (intro card_subset_eq) simp_all
qed

lemma length_newest_rows:
  assumes "distinct (map k_id cs)"
  shows "length (newest_rows n cs) = min n (length cs)"
proof -
  let ?r = "\<lambda>c. length (filter (\<lambda>d. newer_check d c) cs)"
  have d: "distinct cs" using assms by (simp add: distinct_map)
  have "length (newest_rows n cs) = card {c \<in> set cs. ?r c < n}"
    unfolding newest_rows_def by (simp add: distinct_card [OF distinct_filter [OF d], symmetric])
  also have "\<dots> = card (?r ` {c \<in> set cs. ?r c < n})"
    by (rule card_image [symmetric], rule inj_on_subset [OF ranks(1) [OF assms]]) blast
  also have "?r ` {c \<in> set cs. ?r c < n} = ?r ` set cs \<inter> {..<n}" by auto
  also have "\<dots> = {..<min n (length cs)}" unfolding ranks(2) [OF assms] by auto
  finally show ?thesis by simp
qed

lemma newest_rows_newer:
  "distinct (map k_id cs) \<Longrightarrow> c \<in> set (newest_rows n cs) \<Longrightarrow> d \<in> set cs \<Longrightarrow> d \<notin> set (newest_rows n cs) \<Longrightarrow> newer_check c d"
proof (rule ccontr)
  assume *: "distinct (map k_id cs)" "c \<in> set (newest_rows n cs)" "d \<in> set cs"
    "d \<notin> set (newest_rows n cs)" "\<not> newer_check c d"
  then have cs: "c \<in> set cs" "c \<noteq> d" by (auto simp: newest_rows_def)
  with * have "k_id c \<noteq> k_id d" by (auto simp: distinct_map inj_on_def)
  with * have "newer_check d c" using newer_linear by blast
  from newer_count_less [OF this *(3)] * show False by (auto simp: newest_rows_def)
qed

text \<open>What pruning does to the pool row and the history of one address.\<close>

definition prune_address ::
    "pool_row option \<times> check_rec list \<Rightarrow> pool_row option \<times> check_rec list" where
  "prune_address rc =
     (case rc of
        (None, cs) \<Rightarrow> (None, cs)
      | (Some p, cs) \<Rightarrow>
          let (p1, cs1) =
                (if int CHECK_HISTORY_RETENTION < p_history_count p
                 then let kept = newest_rows CHECK_HISTORY_RETENTION cs
                      in (p\<lparr>p_history_count := int (length kept)\<rparr>, kept)
                 else (p, cs))
          in if int CHECK_HISTORY_RETENTION \<le> p_history_count p1 \<and> \<not> list_ex (\<lambda>c. k_ok c = 1) cs1
             then (None, cs1) else (Some p1, cs1))"

lemma prune_address_cases:
  "prune_address (None, cs) = (None, cs)"
  "int CHECK_HISTORY_RETENTION < p_history_count p \<Longrightarrow> prune_address (Some p, cs) =
     (let kept = newest_rows CHECK_HISTORY_RETENTION cs in
      (if CHECK_HISTORY_RETENTION \<le> length kept \<and> \<not> list_ex (\<lambda>c. k_ok c = 1) kept then None
       else Some (p\<lparr>p_history_count := int (length kept)\<rparr>), kept))"
  "\<not> int CHECK_HISTORY_RETENTION < p_history_count p \<Longrightarrow> prune_address (Some p, cs) =
     (if int CHECK_HISTORY_RETENTION \<le> p_history_count p \<and> \<not> list_ex (\<lambda>c. k_ok c = 1) cs then None
      else Some p, cs)"
  by (simp_all add: prune_address_def Let_def)

definition address :: "tables \<Rightarrow> string \<Rightarrow> pool_row option \<times> check_rec list" where
  "address t ip = (find_row p_ip ip (pool t), checks_of ip t)"

text \<open>One chunk without the database monad.\<close>

definition prune_pure :: "string list \<Rightarrow> tables \<Rightarrow> tables" where
  "prune_pure chunk t =
     (let ol = over_limit chunk t;
          t1 = (if ol \<noteq> [] then run_batch [PruneChecks ol CHECK_HISTORY_RETENTION, RecountHistory ol] t else t);
          dead = dead_ips chunk t1
      in if dead = [] then t1 else run_batch [BumpRevision, MarkReset, EvictDead dead] t1)"

lemma prune_chunk_quiet: "prune_chunk chunk (quiet t) = (Inr (), quiet (prune_pure chunk t))"
  by (simp add: prune_chunk_def prune_pure_def andThen_def batch_def ret_def Let_def)

lemma prune_quiet:
  "pruneCheckHistory ips (quiet t) = (Inr (), quiet (fold prune_pure (chunks PRUNE_IP_CHUNK (js_set ips)) t))"
  unfolding pruneCheckHistory_def by (rule each_quiet) (rule prune_chunk_quiet)

lemma over_limit_iff:
  "distinct (map p_ip (pool t)) \<Longrightarrow> ip \<in> set (over_limit chunk t) \<longleftrightarrow>
     ip \<in> set chunk \<and> (\<exists>p. find_row p_ip ip (pool t) = Some p \<and> int CHECK_HISTORY_RETENTION < p_history_count p)"
  by (auto simp: over_limit_def find_row_in dest: find_row_Some)

lemma dead_ips_iff:
  "distinct (map p_ip (pool t)) \<Longrightarrow> ip \<in> set (dead_ips chunk t) \<longleftrightarrow>
     ip \<in> set chunk \<and> no_success t ip
       \<and> (\<exists>p. find_row p_ip ip (pool t) = Some p \<and> int CHECK_HISTORY_RETENTION \<le> p_history_count p)"
  by (auto simp: dead_ips_def find_row_in dest: find_row_Some)

lemma checks_of_prune:
  "checks_of ip (run_stmt (PruneChecks ips n) t)
    = (if ip \<in> set ips then newest_rows n (checks_of ip t) else checks_of ip t)"
proof -
  have "(k_ip c \<in> set ips \<and> n < row_number t c) = (ip \<in> set ips \<and> n \<le> length (filter (\<lambda>d. newer_check d c) (checks_of ip t)))"
    if "k_ip c = ip" for c using that by (auto simp: row_number_def)
  then show ?thesis
    by (auto simp: checks_of_def newest_rows_def filter_filter not_le intro!: filter_cong)
qed

lemma checks_of_cong: "checks u = checks t \<Longrightarrow> checks_of ip u = checks_of ip t"
  by (simp add: checks_of_def)

lemma address_prune_batch:
  "address (run_batch [PruneChecks ips n, RecountHistory ips] t) ip =
    (if ip \<in> set ips
     then (map_option (\<lambda>p. p\<lparr>p_history_count := int (length (newest_rows n (checks_of ip t)))\<rparr>) (find_row p_ip ip (pool t)),
       newest_rows n (checks_of ip t))
     else address t ip)"
proof -
  let ?t1 = "run_stmt (PruneChecks ips n) t"
  let ?u = "run_stmt (RecountHistory ips) ?t1"
  have "find_row p_ip ip (pool ?u) = map_option (\<lambda>p. if p_ip p \<in> set ips
      then p\<lparr>p_history_count := history_size ?t1 (p_ip p)\<rparr> else p) (find_row p_ip ip (pool t))"
    by (simp only: run_stmt.simps pool_update_pool, subst find_row_map) simp_all
  also have "\<dots> = map_option (\<lambda>p. if ip \<in> set ips
      then p\<lparr>p_history_count := history_size ?t1 ip\<rparr> else p) (find_row p_ip ip (pool t))"
    by (rule map_option_cong) (auto dest: find_row_Some)
  finally have row: "find_row p_ip ip (pool ?u) = \<dots>" .
  have "checks_of ip ?u = checks_of ip ?t1" by (rule checks_of_cong) simp
  then have "checks_of ip ?u = (if ip \<in> set ips then newest_rows n (checks_of ip t) else checks_of ip t)"
    by (simp only: checks_of_prune)
  with row show ?thesis
    by (cases "ip \<in> set ips"; cases "find_row p_ip ip (pool t)")
      (simp_all add: address_def history_size_def checks_of_prune del: run_stmt.simps)
qed

lemma address_evict_batch:
  "address (run_batch [BumpRevision, MarkReset, EvictDead ips] t) ip =
    (if ip \<in> set ips \<and> no_success t ip then None else find_row p_ip ip (pool t), checks_of ip t)"
proof -
  let ?t1 = "run_stmt MarkReset (run_stmt BumpRevision t)"
  have same: "no_success ?t1 = no_success t"
    by (rule ext) (simp add: no_success_def checks_of_def)
  have "pool (run_stmt (EvictDead ips) ?t1)
      = filter (\<lambda>p. \<not> (p_ip p \<in> set ips \<and> no_success t (p_ip p))) (pool t)"
    by (simp only: run_stmt.simps(8) same) simp
  moreover have "find_row p_ip ip (filter (\<lambda>p. \<not> (p_ip p \<in> set ips \<and> no_success t (p_ip p))) (pool t))
      = (if ip \<in> set ips \<and> no_success t ip then None else find_row p_ip ip (pool t))"
    by (subst find_row_filter [of p_ip ip "\<lambda>i. \<not> (i \<in> set ips \<and> no_success t i)"]) simp
  moreover have "checks_of ip (run_stmt (EvictDead ips) ?t1) = checks_of ip t" by (rule checks_of_cong) simp
  ultimately show ?thesis by (simp only: address_def run_batch_simps)
qed

lemma address_prune_pure:
  assumes "keys_distinct t"
  shows "address (prune_pure chunk t) ip = (if ip \<in> set chunk then prune_address (address t ip) else address t ip)"
proof -
  let ?ol = "over_limit chunk t"
  define t1 where "t1 = (if ?ol \<noteq> []
    then run_batch [PruneChecks ?ol CHECK_HISTORY_RETENTION, RecountHistory ?ol] t else t)"
  have d: "distinct (map p_ip (pool t))" using assms by (simp add: keys_distinct_def)
  have "map p_ip (pool t1) = map p_ip (pool t)"
    by (auto simp: t1_def)
  then have d1: "distinct (map p_ip (pool t1))" using d by simp
  have a1: "address t1 ip = (if ip \<in> set ?ol then
      (map_option (\<lambda>p. p\<lparr>p_history_count := int (length (newest_rows CHECK_HISTORY_RETENTION (checks_of ip t)))\<rparr>)
         (find_row p_ip ip (pool t)), newest_rows CHECK_HISTORY_RETENTION (checks_of ip t))
      else address t ip)"
    using address_prune_batch [of ?ol CHECK_HISTORY_RETENTION t ip] by (simp add: t1_def)
  let ?dead = "dead_ips chunk t1"
  have u: "prune_pure chunk t = (if ?dead = [] then t1 else run_batch [BumpRevision, MarkReset, EvictDead ?dead] t1)"
    unfolding prune_pure_def t1_def Let_def ..
  have a2: "address (prune_pure chunk t) ip =
      (if ip \<in> set ?dead then None else find_row p_ip ip (pool t1), checks_of ip t1)"
    using address_evict_batch [of ?dead t1 ip] dead_ips_iff [OF d1, of ip chunk]
    by (auto simp: u address_def)
  show ?thesis
  proof (cases "find_row p_ip ip (pool t)")
    case None
    then have "ip \<notin> set ?ol" by (simp add: over_limit_iff [OF d])
    with a1 None have "find_row p_ip ip (pool t1) = None" "checks_of ip t1 = checks_of ip t"
      by (simp_all add: address_def)
    with a2 None show ?thesis by (simp add: address_def prune_address_def)
  next
    case (Some p)
    show ?thesis
    proof (cases "ip \<in> set chunk")
      case False
      then have "ip \<notin> set ?ol" "ip \<notin> set ?dead" by (simp_all add: over_limit_iff [OF d] dead_ips_iff [OF d1])
      with a1 a2 False show ?thesis by (simp add: address_def)
    next
      case True
      then have "ip \<in> set ?ol \<longleftrightarrow> int CHECK_HISTORY_RETENTION < p_history_count p"
        by (simp add: over_limit_iff [OF d] Some)
      note ol = this
      show ?thesis
      proof (cases "int CHECK_HISTORY_RETENTION < p_history_count p")
        case big: True
        with a1 ol Some have "find_row p_ip ip (pool t1)
            = Some (p\<lparr>p_history_count := int (length (newest_rows CHECK_HISTORY_RETENTION (checks_of ip t)))\<rparr>)"
          "checks_of ip t1 = newest_rows CHECK_HISTORY_RETENTION (checks_of ip t)"
          by (simp_all add: address_def)
        with a2 Some True big show ?thesis
          by (simp add: address_def prune_address_cases Let_def dead_ips_iff [OF d1] no_success_def cong: if_cong)
      next
        case False
        with a1 ol Some have "find_row p_ip ip (pool t1) = Some p" "checks_of ip t1 = checks_of ip t"
          by (simp_all add: address_def)
        with a2 Some True False show ?thesis
          by (simp add: address_def prune_address_cases Let_def dead_ips_iff [OF d1] no_success_def cong: if_cong)
      qed
    qed
  qed
qed

lemma keys_prune_pure: "db_ok t \<Longrightarrow> db_ok (prune_pure chunk t)"
  using db_ok_step [OF db_step.prune_batch] db_ok_step [OF db_step.evict_batch]
  by (simp add: prune_pure_def Let_def del: run_batch_simps)

lemma fold_prune:
  "db_ok t \<Longrightarrow> distinct (concat css) \<Longrightarrow> address (fold prune_pure css t) ip =
     (if ip \<in> set (concat css) then prune_address (address t ip) else address t ip)"
proof (induction css arbitrary: t)
  case (Cons c css)
  then have "address (prune_pure c t) ip = (if ip \<in> set c then prune_address (address t ip) else address t ip)"
    by (intro address_prune_pure) (simp add: db_ok_def)
  with Cons.IH [OF keys_prune_pure [OF Cons.prems(1), of c]] Cons.prems(2) show ?case by auto
qed simp

lemma prune_history:
  assumes "db_ok t"
  shows "\<exists>u. pruneCheckHistory ips (quiet t) = (Inr (), quiet u) \<and> db_ok u
    \<and> (\<forall>ip. address u ip = (if ip \<in> set ips then prune_address (address t ip) else address t ip))"
proof -
  let ?css = "chunks PRUNE_IP_CHUNK (js_set ips)"
  have c: "concat ?css = js_set ips" by (simp add: PRUNE_IP_CHUNK_def)
  have "db_ok (fold prune_pure ?css t)"
    using assms by (intro fold_inv [of _ db_ok]) (auto intro: keys_prune_pure)
  moreover have "address (fold prune_pure ?css t) ip =
      (if ip \<in> set ips then prune_address (address t ip) else address t ip)" for ip
    using fold_prune [OF assms, of ?css ip] by (simp add: c)
  ultimately show ?thesis using prune_quiet [of ips t] by blast
qed


section \<open>What an insert adds\<close>

lemma insert_other: "is_insert s \<Longrightarrow> (\<And>a cutoff c. s = InsertCheck a cutoff c \<Longrightarrow> k_ip c \<noteq> ip) \<Longrightarrow>
    checks_of ip (run_stmt s t) = checks_of ip t"
  by (erule is_insertE) (auto simp: checks_of_def add_check_def)

lemma insert_gated: "\<not> in_pool ip t \<Longrightarrow> k_ip c = ip \<Longrightarrow> run_stmt (InsertCheck False cutoff c) t = t"
  by (auto simp: in_pool_def list_ex_iff)

definition gated :: "string \<Rightarrow> stmt \<Rightarrow> bool" where
  "gated ip s \<longleftrightarrow> is_insert s \<and> (\<forall>a cutoff c. s = InsertCheck a cutoff c \<longrightarrow> k_ip c = ip \<longrightarrow> \<not> a)"

lemma gated_batch:
  "\<forall>s \<in> set ss. gated ip s \<Longrightarrow> \<not> in_pool ip t \<Longrightarrow>
     checks_of ip (run_batch ss t) = checks_of ip t \<and> \<not> in_pool ip (run_batch ss t)"
proof (induction ss arbitrary: t)
  case (Cons s ss)
  then obtain a cutoff c where s: "s = InsertCheck a cutoff c" "k_ip c = ip \<Longrightarrow> \<not> a"
    by (auto simp: gated_def elim: is_insertE)
  have pool: "in_pool ip (run_stmt s t) = in_pool ip t" using s(1) by (simp add: in_pool_def add_check_def)
  have "checks_of ip (run_stmt s t) = checks_of ip t"
  proof (cases "k_ip c = ip")
    case True
    with s insert_gated [OF Cons.prems(2) True] show ?thesis by simp
  next
    case False
    with s(1) show ?thesis by (intro insert_other) auto
  qed
  with Cons pool show ?case by simp
qed simp

lemma map_check_stmt_gated:
  assumes "ip \<notin> set ok_ips"
  shows "map_res (check_stmt ok_ips cutoff) rows = Inr ss \<Longrightarrow> \<forall>r \<in> set rows. cr_ip r = ip \<longrightarrow> \<not> cr_ok r \<Longrightarrow>
    \<forall>s \<in> set ss. gated ip s"
proof (induction rows arbitrary: ss)
  case (Cons row rows)
  then obtain s ss' where s: "check_stmt ok_ips cutoff row = Inr s"
    "map_res (check_stmt ok_ips cutoff) rows = Inr ss'" "ss = s # ss'"
    by (auto split: sum.splits)
  moreover from s(1) have "gated ip s"
    using Cons.prems(2) assms by (auto simp: check_stmt_def gated_def split: sum.splits)
  ultimately show ?case using Cons by simp
qed simp

lemma sendable_gated:
  assumes "ip \<notin> set ok_ips" "\<forall>chunk \<in> set cs. \<forall>r \<in> set chunk. cr_ip r = ip \<longrightarrow> \<not> cr_ok r"
  shows "\<forall>s \<in> set (concat (sendable (map_res (check_stmt ok_ips cutoff)) cs)). gated ip s"
  using assms(2)
proof (induction cs)
  case (Cons c cs)
  then show ?case
    using map_check_stmt_gated [OF assms(1), of cutoff c]
    by (cases "map_res (check_stmt ok_ips cutoff) c") auto
qed simp

lemma chunks_elem: "c \<in> set (chunks n xs) \<Longrightarrow> x \<in> set c \<Longrightarrow> x \<in> set xs"
proof (induction n xs rule: chunks.induct)
  case (1 n xs)
  then show ?case
    by (cases "xs = [] \<or> n = 0") (auto simp: chunks.simps [of n xs] dest: in_set_takeD in_set_dropD)
qed

lemma cutoff_text: "\<bar>now - FAILURE_DEDUP_WINDOW_MS\<bar> \<le> 8640000000000000 \<Longrightarrow>
    dedup_cutoff now = Inr (to_iso (now - FAILURE_DEDUP_WINDOW_MS))"
  by (simp add: dedup_cutoff_def date_of_ms_def toSQLiteDateTime_def)

section \<open>Properties\<close>


definition empty_db :: tables where
  "empty_db = \<lparr>checks = [], pool = [], version = 0, reset_version = 0, ptrs = [], hosts = [], asns = [], rates = []\<rparr>"


text \<open>
  Failed checks of an address that is not in the pool leave no trace in its history, even
  when faults interrupt the flush, as long as the batch holds no success for it.
\<close>

theorem unknown_failures:
  assumes "only_faults db" "\<not> in_pool ip (store db)" "\<forall>r \<in> set rows. cr_ip r = ip \<longrightarrow> \<not> cr_ok r"
  shows "checks_of ip (store (snd (insertCheckRows now rows db))) = checks_of ip (store db)"
proof (cases "dedup_cutoff now")
  case (Inl e)
  then show ?thesis by (simp add: insertCheckRows_def andThen_def lift_def Let_def)
next
  case (Inr cutoff)
  let ?ok = "js_set (map cr_ip (filter cr_ok rows))"
  let ?g = "map_res (check_stmt ?ok cutoff)"
  let ?ss = "sendable ?g (chunks MAX_BATCH rows)"
  obtain n where n: "store (snd (insertCheckRows now rows db)) = run_batch (concat (take n ?ss)) (store db)"
    using send_all_faults [OF assms(1), of ?g] unfolding insertCheckRows_send [OF Inr, of rows] by blast
  have "ip \<notin> set ?ok" using assms(3) by auto
  then have "\<forall>s \<in> set (concat ?ss). gated ip s"
    using assms(3) by (intro sendable_gated) (auto dest: chunks_elem)
  then have "\<forall>s \<in> set (concat (take n ?ss)). gated ip s" by (auto dest: in_set_takeD)
  from gated_batch [OF this assms(2)] n show ?thesis by simp
qed

theorem unknown_failures_witness:
  "checks_of ''a'' (store (snd (insertCheckRows 0 [sample_row ''a'' False 1] (quiet empty_db)))) = []"
  using unknown_failures [of "quiet empty_db" "''a''" "[sample_row ''a'' False 1]" 0]
  by (simp add: only_faults_def quiet_def in_pool_def empty_db_def sample_row_def checks_of_def)

text \<open>
  A failure of a pooled address is recorded exactly when its last check was a success or
  lies more than six hours back, and the pool row's own failure update is gated the same way.
\<close>

theorem failure_window:
  assumes "pool t = [p]" "p_ip p = cr_ip r" "p_last_check_ok p = Some v" "p_last_checked_at p = Some (to_iso s)"
    and "\<not> cr_ok r" "cr_checkedAt r = Time c" "\<forall>k \<in> set (checks_of (cr_ip r) t). k_checked_at k \<noteq> to_iso c"
    and "iso_range s" "iso_range (now - FAILURE_DEDUP_WINDOW_MS)"
    and "\<bar>now - FAILURE_DEDUP_WINDOW_MS\<bar> \<le> 8640000000000000"
  shows "length (checks_of (cr_ip r) (store (snd (insertCheckRows now [r] (quiet t)))))
    = length (checks_of (cr_ip r) t) + (if v \<noteq> 0 \<or> s < now - 6 * 60 * 60 * 1000 then 1 else 0)"
proof -
  have w: "to_iso s < to_iso (now - FAILURE_DEDUP_WINDOW_MS) \<longleftrightarrow> s < now - 6 * 60 * 60 * 1000"
    using iso_less_iff [OF assms(8,9)] by (simp add: FAILURE_DEDUP_WINDOW_MS_def)
  let ?c = "\<lparr>k_id = 0, k_ip = cr_ip r, k_ok = 0, k_rtt_ms = cr_rttMs r, k_reason = cr_reason r,
    k_detail = cr_detail r, k_checked_at = to_iso c, k_scan_mode = Some (cr_scanMode r)\<rparr>"
  have stmt: "check_stmt [] (to_iso (now - FAILURE_DEDUP_WINDOW_MS)) r
      = Inr (InsertCheck False (to_iso (now - FAILURE_DEDUP_WINDOW_MS)) ?c)"
    using assms(5,6) by (simp add: check_stmt_def toSQLiteDateTime_def)
  have "store (snd (insertCheckRows now [r] (quiet t)))
      = run_stmt (InsertCheck False (to_iso (now - FAILURE_DEDUP_WINDOW_MS)) ?c) t"
    unfolding insertCheckRows_send [OF cutoff_text [OF assms(10)]] send_all_quiet
    using stmt assms(5) by (simp add: MAX_BATCH_def chunks_short del: run_stmt.simps)
  moreover have "\<not> has_check ?c t"
    using assms(7) by (auto simp: has_check_def list_ex_iff checks_of_def)
  ultimately show ?thesis
    using assms(1-4) w by (simp add: failureGate_def add_check_def has_check_def checks_of_def)
qed

definition sample_pool :: "string \<Rightarrow> int \<Rightarrow> int \<Rightarrow> pool_row" where
  "sample_pool ip ok checked =
     \<lparr>p_ip = ip, p_is_ipv6 = 0, p_scan_mode = Some ''SNI'', p_first_seen = Some (to_iso 0),
      p_last_seen = Some (to_iso 0), p_last_rtt_ms = Some 10, p_times_seen = 1,
      p_last_checked_at = Some (to_iso checked), p_last_check_ok = Some ok, p_revision = 0,
      p_history_count = 301, p_ptr_checked_at = None\<rparr>"

theorem failure_window_witness:
  "length (checks_of ''a'' (store (snd (insertCheckRows 30000000 [sample_row ''a'' False 30000000]
     (quiet (empty_db\<lparr>pool := [sample_pool ''a'' 0 1000]\<rparr>)))))) = 1"
proof -
  have r: "iso_range 1000" "iso_range (30000000 - FAILURE_DEDUP_WINDOW_MS)"
    by (simp_all add: FAILURE_DEDUP_WINDOW_MS_def, code_simp+)
  show ?thesis
    using failure_window [of "empty_db\<lparr>pool := [sample_pool ''a'' 0 1000]\<rparr>" "sample_pool ''a'' 0 1000"
        "sample_row ''a'' False 30000000" 0 1000 30000000 30000000] r
    by (simp add: sample_pool_def sample_row_def empty_db_def checks_of_def FAILURE_DEDUP_WINDOW_MS_def)
qed

text \<open>
  C25: pruning works address by address. Each address of the list ends as
  \<open>prune_address\<close> says: an over-limit history keeps its newest 300 rows and the count becomes
  exact, and a pool row whose retained window is full and holds no success is evicted. All
  other addresses keep their row and history.
\<close>

theorem prune_per_address:
  assumes "db_ok t"
  shows "\<exists>u. pruneCheckHistory ips (quiet t) = (Inr (), quiet u) \<and> db_ok u
    \<and> (\<forall>ip. address u ip = (if ip \<in> set ips then prune_address (address t ip) else address t ip))"
  using assms by (rule prune_history)

theorem prune_per_address_witness:
  "\<exists>u. pruneCheckHistory [''a''] (quiet (empty_db\<lparr>pool := [sample_pool ''a'' 0 1000]\<rparr>)) = (Inr (), quiet u)
     \<and> address u ''a'' = (Some (sample_pool ''a'' 0 1000\<lparr>p_history_count := 0\<rparr>), [])"
proof -
  let ?t = "empty_db\<lparr>pool := [sample_pool ''a'' 0 1000]\<rparr>"
  have "db_ok ?t" by (simp add: db_ok_parts row_ok_def empty_db_def sample_pool_def ipv6_flag_def)
  from prune_per_address [OF this, of "[''a'']"] obtain u where u:
    "pruneCheckHistory [''a''] (quiet ?t) = (Inr (), quiet u)"
    "address u ''a'' = prune_address (address ?t ''a'')" by force
  have "prune_address (address ?t ''a'') = (Some (sample_pool ''a'' 0 1000\<lparr>p_history_count := 0\<rparr>), [])"
    by (simp add: address_def find_row_def checks_of_def empty_db_def prune_address_cases sample_pool_def
        CHECK_HISTORY_RETENTION_def newest_rows_def Let_def)
  with u show ?thesis by auto
qed



end
