(* ===== verification/PoolUpdate.thy ===== *)
theory PoolUpdate
  imports CheckHistory
begin

text \<open>
  What updatePoolBatch and updatePoolForCheck make of each pool row: a batch amounts, address
  by address, to one update with the newest success and the newest row of that address,
  whatever the order and the chunking of the batch.
\<close>

section \<open>The rows of one address\<close>

definition pb_spec :: "check_row list \<Rightarrow> pb_state option" where
  "pb_spec rs =
     (if rs = [] then None
      else Some \<lparr>pb_latest = last rs,
                 pb_success = (if filter cr_ok rs = [] then None else Some (last (filter cr_ok rs)))\<rparr>)"

lemma pb_spec_snoc:
  "pb_spec (rs @ [r]) = Some (case pb_spec rs of
      None \<Rightarrow> \<lparr>pb_latest = r, pb_success = (if cr_ok r then Some r else None)\<rparr>
    | Some st \<Rightarrow> \<lparr>pb_latest = r, pb_success = (if cr_ok r then Some r else pb_success st)\<rparr>)"
  by (auto simp: pb_spec_def)

lemma pb_fold: "map_of (foldl pb_step [] rs) ip = pb_spec (rows_for ip rs)"
proof (induction rs arbitrary: ip rule: rev_induct)
  case (snoc r rs)
  show ?case
  proof (cases "cr_ip r = ip")
    case True
    with pb_spec_snoc [of "rows_for ip rs" r] show ?thesis
      by (simp add: pb_step_def [of "foldl pb_step [] rs"] snoc.IH split: option.splits)
  next
    case False
    then show ?thesis
      by (simp add: pb_step_def [of "foldl pb_step [] rs"] snoc.IH split: option.splits)
  qed
qed (simp add: pb_spec_def)

lemma pb_distinct: "distinct (map fst (foldl pb_step [] rs))"
  by (induction rs rule: rev_induct) (auto simp: pb_step_def split: option.splits)

lemma pb_of_two_rows:
  assumes "valid_dates cr_checkedAt rs"
  shows "pb_spec (two_rows rs) = map_option (\<lambda>n. \<lparr>pb_latest = n, pb_success = newest (filter cr_ok rs)\<rparr>) (newest rs)"
proof (cases "newest rs")
  case None
  then show ?thesis by (simp add: two_rows_def pb_spec_def)
next
  case (Some n)
  show ?thesis
  proof (cases "cr_ok n")
    case True
    with newest_by_filter [OF assms Some] Some show ?thesis
      by (simp add: two_rows_def pb_spec_def)
  next
    case False
    have "cr_ok s" if "newest (filter cr_ok rs) = Some s" for s
      using newest_by_in [OF that] by simp
    with Some False show ?thesis
      by (cases "newest (filter cr_ok rs)") (simp_all add: two_rows_def pb_spec_def)
  qed
qed

section \<open>The effect on one row\<close>

text \<open>
  The row of an address after a batch whose newest row for it is \<open>n\<close> and whose newest success
  is \<open>s\<close>; \<open>cs\<close> is its stored history and \<open>v\<close> the revision of its batch.
\<close>

definition pool_after ::
    "string \<Rightarrow> int \<Rightarrow> check_rec list \<Rightarrow> check_row \<Rightarrow> check_row option \<Rightarrow> pool_row option \<Rightarrow> pool_row option" where
  "pool_after cutoff v cs n s old =
     (let ts_of = (\<lambda>r. to_iso (ms (cr_checkedAt r)));
          grown = (\<lambda>p. p_history_count p + (case p_last_checked_at p of None \<Rightarrow> 0
             | Some checked \<Rightarrow> int (length (filter (\<lambda>c. checked < k_checked_at c) cs))))
      in case s of
           Some s \<Rightarrow>
             (let rtt = (case cr_rttMs s of None \<Rightarrow> 0 | Some r \<Rightarrow> r);
                  up = (if cr_ok n then 1 else 0)
              in case old of
                   None \<Rightarrow> Some \<lparr>p_ip = cr_ip n, p_is_ipv6 = ipv6_flag (cr_ip n),
                     p_scan_mode = Some (cr_scanMode s), p_first_seen = Some (ts_of s), p_last_seen = Some (ts_of s),
                     p_last_rtt_ms = Some rtt, p_times_seen = 1, p_last_checked_at = Some (ts_of n),
                     p_last_check_ok = Some up, p_revision = v, p_history_count = int (length cs),
                     p_ptr_checked_at = None\<rparr>
                 | Some p \<Rightarrow> Some (p\<lparr>p_scan_mode := Some (cr_scanMode s), p_last_seen := Some (ts_of s),
                     p_last_rtt_ms := Some rtt, p_times_seen := p_times_seen p + 1,
                     p_last_checked_at := Some (ts_of n), p_last_check_ok := Some up,
                     p_revision := v, p_history_count := grown p\<rparr>))
         | None \<Rightarrow>
             (case old of
                None \<Rightarrow> None
              | Some p \<Rightarrow>
                  if failureGate cutoff p
                  then Some (p\<lparr>p_last_checked_at := Some (ts_of n), p_last_check_ok := Some 0,
                     p_revision := v, p_history_count := grown p\<rparr>)
                  else Some p))"

fun stmt_ip :: "stmt \<Rightarrow> string" where
  "stmt_ip (PoolUpsert ip _ _ _ _ _ _) = ip"
| "stmt_ip (PoolFail ip _ _) = ip"
| "stmt_ip _ = []"

lemma pool_stmt_frame:
  assumes "pool_stmt s"
  shows "checks (run_stmt s t) = checks t" "version (run_stmt s t) = version t"
    "stmt_ip s \<noteq> ip \<Longrightarrow> find_row p_ip ip (pool (run_stmt s t)) = find_row p_ip ip (pool t)"
proof -
  show "checks (run_stmt s t) = checks t" "version (run_stmt s t) = version t"
    using assms by (induction s rule: pool_stmt.induct) simp_all
  show "stmt_ip s \<noteq> ip \<Longrightarrow> find_row p_ip ip (pool (run_stmt s t)) = find_row p_ip ip (pool t)"
    using assms
  proof (induction s rule: pool_stmt.induct)
    case (1 i is_ipv6 mode successTS rtt latestTS ok)
    then show ?case by (simp add: find_row_upsert)
  next
    case (2 i latestTS cutoff)
    have "map_option (\<lambda>p. if p_ip p = i \<and> failureGate cutoff p then p\<lparr>p_last_checked_at := Some latestTS,
        p_last_check_ok := Some 0, p_revision := version t, p_history_count := historyCountIncr t p\<rparr> else p)
      (find_row p_ip ip (pool t)) = find_row p_ip ip (pool t)"
      using 2(1) by (cases "find_row p_ip ip (pool t)") (auto dest: find_row_Some)
    then show ?case by (simp add: find_row_map)
  qed simp_all
qed

lemma pool_stmt_effect:
  assumes "pool_stmt_for cutoff \<lparr>pb_latest = n, pb_success = s\<rparr> = Inr st" "cr_ip n = ip"
    and "cr_checkedAt n \<noteq> Invalid_Date" "\<And>x. s = Some x \<Longrightarrow> cr_checkedAt x \<noteq> Invalid_Date"
  shows "find_row p_ip ip (pool (run_stmt st t))
    = pool_after cutoff (version t) (checks_of ip t) n s (find_row p_ip ip (pool t))"
proof -
  have date: "toSQLiteDateTime d = Inr (to_iso (ms d))" if "d \<noteq> Invalid_Date" for d
    using that by (cases d) (simp_all add: toSQLiteDateTime_def)
  show ?thesis
  proof (cases s)
    case None
    then have st: "st = PoolFail ip (to_iso (ms (cr_checkedAt n))) cutoff"
      using assms by (simp add: pool_stmt_for_def date)
    show ?thesis
    proof (cases "find_row p_ip ip (pool t)")
      case (Some p)
      from find_row_Some [OF Some] have "p_ip p = ip" by simp
      with Some None show ?thesis
        by (simp add: st find_row_map pool_after_def historyCountIncr_def split: option.split)
    qed (simp add: st None find_row_map pool_after_def)
  next
    case (Some x)
    then have st: "st = PoolUpsert ip (ipv6_flag ip) (cr_scanMode x) (to_iso (ms (cr_checkedAt x)))
        (case cr_rttMs x of None \<Rightarrow> 0 | Some r \<Rightarrow> r) (to_iso (ms (cr_checkedAt n))) (if cr_ok n then 1 else 0)"
      using assms unfolding pool_stmt_for_def ipv6_flag_code by (simp add: date)
    show ?thesis
    proof (cases "find_row p_ip ip (pool t)")
      case None
      with Some assms(2) show ?thesis
        by (simp add: st find_row_upsert pool_after_def history_size_def)
    next
      case (Some p)
      from find_row_Some [OF Some] have "p_ip p = ip" by simp
      with Some \<open>s = Some x\<close> show ?thesis
        by (simp add: st find_row_upsert pool_after_def historyCountIncr_def split: option.split)
    qed
  qed
qed


section \<open>A whole batch\<close>

text \<open>One chunk of distinct addresses, then the loop over the chunks.\<close>

lemma pool_batch_frame:
  "\<forall>s \<in> set ss. pool_stmt s \<and> stmt_ip s \<noteq> ip \<Longrightarrow>
     find_row p_ip ip (pool (run_batch ss t)) = find_row p_ip ip (pool t)"
  by (induction ss arbitrary: t) (simp_all add: pool_stmt_frame)

lemma pool_batch_same: "\<forall>s \<in> set ss. pool_stmt s \<Longrightarrow>
    checks (run_batch ss t) = checks t \<and> version (run_batch ss t) = version t"
  by (induction ss arbitrary: t) (simp_all add: pool_stmt_frame)

definition pool_chunk :: "('a \<Rightarrow> stmt) \<Rightarrow> 'a list \<Rightarrow> tables \<Rightarrow> tables" where
  "pool_chunk f xs t = run_batch (BumpRevision # map f xs) t"

lemma pool_chunk_row:
  assumes "\<forall>x \<in> set xs. pool_stmt (f x)" "distinct (map (\<lambda>x. stmt_ip (f x)) xs)" "x \<in> set xs"
    and eff: "\<And>u. checks u = checks t \<Longrightarrow> version u = version t + 1 \<Longrightarrow>
      find_row p_ip (stmt_ip (f x)) (pool (run_stmt (f x) u)) = E (find_row p_ip (stmt_ip (f x)) (pool u))"
  shows "find_row p_ip (stmt_ip (f x)) (pool (pool_chunk f xs t)) = E (find_row p_ip (stmt_ip (f x)) (pool t))"
proof -
  from assms(3) obtain us vs where xs: "xs = us @ x # vs" by (meson split_list)
  have others: "\<forall>y \<in> set us \<union> set vs. stmt_ip (f y) \<noteq> stmt_ip (f x)"
    using assms(2) xs by (force simp: image_iff)
  let ?t0 = "run_stmt BumpRevision t"
  let ?u = "run_batch (map f us) ?t0"
  have us: "find_row p_ip (stmt_ip (f x)) (pool ?u) = find_row p_ip (stmt_ip (f x)) (pool t)"
    using assms(1) others xs by (subst pool_batch_frame) auto
  have same: "checks ?u = checks t" "version ?u = version t + 1"
    using pool_batch_same [of "map f us" ?t0] assms(1) xs by auto
  have "find_row p_ip (stmt_ip (f x)) (pool (pool_chunk f xs t))
      = find_row p_ip (stmt_ip (f x)) (pool (run_stmt (f x) ?u))"
    unfolding pool_chunk_def xs using assms(1) others xs by (simp, subst pool_batch_frame) auto
  with eff [OF same] us show ?thesis by simp
qed

lemma pool_chunk_same: "\<forall>x \<in> set xs. pool_stmt (f x) \<Longrightarrow>
    checks (pool_chunk f xs t) = checks t \<and> version (pool_chunk f xs t) = version t + 1"
  using pool_batch_same [of "map f xs" "run_stmt BumpRevision t"] by (simp add: pool_chunk_def)

lemma pool_chunk_frame:
  "\<forall>x \<in> set xs. pool_stmt (f x) \<and> stmt_ip (f x) \<noteq> ip \<Longrightarrow>
    find_row p_ip ip (pool (pool_chunk f xs t)) = find_row p_ip ip (pool t)"
  using pool_batch_frame [of "map f xs" ip "run_stmt BumpRevision t"] by (simp add: pool_chunk_def)

lemma pool_chunks_frame:
  "\<forall>x \<in> set (concat xss). pool_stmt (f x) \<and> stmt_ip (f x) \<noteq> ip \<Longrightarrow>
    find_row p_ip ip (pool (fold (pool_chunk f) xss t)) = find_row p_ip ip (pool t)"
  by (induction xss arbitrary: t) (simp_all add: pool_chunk_frame)

lemma pool_chunks_same: "\<forall>x \<in> set (concat xss). pool_stmt (f x) \<Longrightarrow>
    checks (fold (pool_chunk f) xss t) = checks t
    \<and> version (fold (pool_chunk f) xss t) = version t + int (length xss)"
  by (induction xss arbitrary: t) (simp_all add: pool_chunk_same)

lemma pool_chunks_row:
  assumes "\<forall>x \<in> set (concat xss). pool_stmt (f x)" "distinct (map (\<lambda>x. stmt_ip (f x)) (concat xss))"
    and "x \<in> set (concat xss)"
    and "\<And>u. checks u = checks t \<Longrightarrow>
      find_row p_ip (stmt_ip (f x)) (pool (run_stmt (f x) u)) = E (version u) (find_row p_ip (stmt_ip (f x)) (pool u))"
  shows "\<exists>v. version t < v \<and> v \<le> version (fold (pool_chunk f) xss t)
    \<and> find_row p_ip (stmt_ip (f x)) (pool (fold (pool_chunk f) xss t)) = E v (find_row p_ip (stmt_ip (f x)) (pool t))"
  using assms
proof (induction xss arbitrary: t)
  case (Cons xs xss)
  let ?t1 = "pool_chunk f xs t"
  have same: "checks ?t1 = checks t" "version ?t1 = version t + 1"
    using pool_chunk_same [of xs f t] Cons.prems(1) by simp_all
  have v: "version (fold (pool_chunk f) xss ?t1) = version t + 1 + int (length xss)"
    using pool_chunks_same [of xss f ?t1] Cons.prems(1) same by simp
  show ?case
  proof (cases "x \<in> set xs")
    case True
    have "find_row p_ip (stmt_ip (f x)) (pool ?t1) = E (version t + 1) (find_row p_ip (stmt_ip (f x)) (pool t))"
      using Cons.prems True by (intro pool_chunk_row) simp_all
    moreover have "find_row p_ip (stmt_ip (f x)) (pool (fold (pool_chunk f) xss ?t1))
        = find_row p_ip (stmt_ip (f x)) (pool ?t1)"
      using Cons.prems(1,2) True by (intro pool_chunks_frame) (force simp: image_iff)
    ultimately show ?thesis using v by (intro exI [of _ "version t + 1"]) simp
  next
    case False
    have "find_row p_ip (stmt_ip (f x)) (pool ?t1) = find_row p_ip (stmt_ip (f x)) (pool t)"
      using Cons.prems(1,2,3) False by (intro pool_chunk_frame) (force simp: image_iff)
    moreover have "\<exists>v. version ?t1 < v \<and> v \<le> version (fold (pool_chunk f) xss ?t1)
        \<and> find_row p_ip (stmt_ip (f x)) (pool (fold (pool_chunk f) xss ?t1)) = E v (find_row p_ip (stmt_ip (f x)) (pool ?t1))"
      using Cons.prems False same by (intro Cons.IH) simp_all
    then obtain v where "version ?t1 < v" "v \<le> version (fold (pool_chunk f) xss ?t1)"
      "find_row p_ip (stmt_ip (f x)) (pool (fold (pool_chunk f) xss ?t1)) = E v (find_row p_ip (stmt_ip (f x)) (pool ?t1))"
      by blast
    ultimately show ?thesis using same by (intro exI [of _ v]) simp
  qed
qed simp


section \<open>updatePoolBatch\<close>

lemma updatePoolBatch_quiet:
  assumes "dedup_cutoff now = Inr cutoff"
    and f: "\<And>st. st \<in> set (map snd (foldl pb_step [] (coalesceCheckRows rows))) \<Longrightarrow> pool_stmt_for cutoff st = Inr (f st)"
  shows "updatePoolBatch now rows (quiet t) = (Inr (),
    quiet (fold (pool_chunk f) (chunks POOL_UPSERT_CHUNK (map snd (foldl pb_step [] (coalesceCheckRows rows)))) t))"
proof -
  let ?sts = "map snd (foldl pb_step [] (coalesceCheckRows rows))"
  let ?F = "\<lambda>chunk. andThen (lift (map_res (pool_stmt_for cutoff) chunk)) (\<lambda>ss. batch (BumpRevision # ss))"
  have "?F chunk (quiet t) = (Inr (), quiet (pool_chunk f chunk t))"
    if "chunk \<in> set (chunks POOL_UPSERT_CHUNK ?sts)" for chunk t
  proof -
    have "map_res (pool_stmt_for cutoff) chunk = Inr (map f chunk)"
      using that by (intro map_res_pure f) (rule chunks_elem)
    then show ?thesis by (simp add: andThen_def lift_def batch_def pool_chunk_def)
  qed
  then have "each ?F (chunks POOL_UPSERT_CHUNK ?sts) (quiet t)
      = (Inr (), quiet (fold (pool_chunk f) (chunks POOL_UPSERT_CHUNK ?sts) t))"
    by (rule each_quiet)
  moreover have "updatePoolBatch now rows = (if ?sts = [] then ret () else each ?F (chunks POOL_UPSERT_CHUNK ?sts))"
    by (rule ext) (simp add: updatePoolBatch_def assms(1) andThen_def [of "lift (Inr _)"] lift_def Let_def)
  ultimately show ?thesis by (auto simp: ret_def)
qed

lemma pb_states:
  assumes "valid_dates cr_checkedAt rows" "st \<in> set (map snd (foldl pb_step [] (coalesceCheckRows rows)))"
  shows "\<exists>ip n. newest (rows_for ip rows) = Some n \<and> cr_ip n = ip
    \<and> st = \<lparr>pb_latest = n, pb_success = newest (filter cr_ok (rows_for ip rows))\<rparr>
    \<and> map_of (foldl pb_step [] (coalesceCheckRows rows)) ip = Some st"
proof -
  from assms(2) obtain ip where "(ip, st) \<in> set (foldl pb_step [] (coalesceCheckRows rows))" by auto
  then have m: "map_of (foldl pb_step [] (coalesceCheckRows rows)) ip = Some st"
    using pb_distinct by simp
  have "valid_dates cr_checkedAt (rows_for ip rows)" using assms(1) by (simp add: valid_dates_def)
  from m pb_of_two_rows [OF this] obtain n where n: "newest (rows_for ip rows) = Some n"
    "st = \<lparr>pb_latest = n, pb_success = newest (filter cr_ok (rows_for ip rows))\<rparr>"
    by (auto simp: pb_fold coalesce_for [OF assms(1)])
  moreover from newest_by_in [OF n(1)] have "cr_ip n = ip" by simp
  ultimately show ?thesis using m by blast
qed


lemma pool_stmt_for_valid:
  assumes "cr_checkedAt (pb_latest st) \<noteq> Invalid_Date" "\<And>s. pb_success st = Some s \<Longrightarrow> cr_checkedAt s \<noteq> Invalid_Date"
  shows "\<exists>s. pool_stmt_for cutoff st = Inr s \<and> pool_stmt s \<and> stmt_ip s = cr_ip (pb_latest st)"
proof -
  have date: "\<exists>s. toSQLiteDateTime d = Inr s" if "d \<noteq> Invalid_Date" for d
    using that by (cases d) (simp_all add: toSQLiteDateTime_def)
  then obtain a where a: "toSQLiteDateTime (cr_checkedAt (pb_latest st)) = Inr a" using assms(1) by blast
  show ?thesis
  proof (cases "pb_success st")
    case None
    with a show ?thesis by (simp add: pool_stmt_for_def)
  next
    case (Some s)
    with date assms(2) obtain b where "toSQLiteDateTime (cr_checkedAt s) = Inr b" by blast
    with a Some show ?thesis unfolding pool_stmt_for_def ipv6_flag_code by (simp add: Let_def)
  qed
qed

lemma pool_after_batch:
  assumes v: "valid_dates cr_checkedAt rows" and c: "dedup_cutoff now = Inr cutoff"
  shows "\<exists>u. updatePoolBatch now rows (quiet t) = (Inr (), quiet u) \<and> checks u = checks t
    \<and> (\<forall>ip. case newest (rows_for ip rows) of
        None \<Rightarrow> find_row p_ip ip (pool u) = find_row p_ip ip (pool t)
      | Some n \<Rightarrow> \<exists>rev. version t < rev \<and> rev \<le> version u \<and> find_row p_ip ip (pool u)
          = pool_after cutoff rev (checks_of ip t) n (newest (filter cr_ok (rows_for ip rows))) (find_row p_ip ip (pool t)))"
proof -
  let ?m = "foldl pb_step [] (coalesceCheckRows rows)"
  let ?sts = "map snd ?m"
  define f where "f st = (case pool_stmt_for cutoff st of Inr s \<Rightarrow> s | Inl e \<Rightarrow> BumpRevision)" for st
  have valid: "cr_checkedAt r \<noteq> Invalid_Date" if "r \<in> set rows" for r
    using v that by (simp add: valid_dates_def)
  have st: "pool_stmt_for cutoff st = Inr (f st) \<and> pool_stmt (f st) \<and> stmt_ip (f st) = cr_ip (pb_latest st)"
    if "st \<in> set ?sts" for st
  proof -
    from pb_states [OF v that] obtain ip n where s: "newest (rows_for ip rows) = Some n"
      "st = \<lparr>pb_latest = n, pb_success = newest (filter cr_ok (rows_for ip rows))\<rparr>" by blast
    have "n \<in> set rows" using newest_by_in [OF s(1)] by simp
    have "\<exists>s. pool_stmt_for cutoff st = Inr s \<and> pool_stmt s \<and> stmt_ip s = cr_ip (pb_latest st)"
    proof (rule pool_stmt_for_valid)
      show "cr_checkedAt (pb_latest st) \<noteq> Invalid_Date"
        unfolding s(2) pb_state.select_convs by (rule valid) fact
      fix x
      assume "pb_success st = Some x"
      then have "newest (filter cr_ok (rows_for ip rows)) = Some x" unfolding s(2) by simp
      from newest_by_in [OF this] have "x \<in> set rows" by simp
      then show "cr_checkedAt x \<noteq> Invalid_Date" by (rule valid)
    qed
    then show ?thesis by (auto simp: f_def)
  qed
  have key: "stmt_ip (f st) = ip" if m: "(ip, st) \<in> set ?m" for ip st
  proof -
    from m have "map_of ?m ip = Some st" using pb_distinct by simp
    with pb_fold [of "coalesceCheckRows rows" ip] have "rows_for ip (coalesceCheckRows rows) \<noteq> []"
      "pb_latest st = last (rows_for ip (coalesceCheckRows rows))"
      by (auto simp: pb_spec_def split: if_splits)
    then have "cr_ip (pb_latest st) = ip" by (metis (mono_tags, lifting) last_in_set mem_Collect_eq set_filter)
    with st [of st] m show ?thesis by force
  qed
  let ?css = "chunks POOL_UPSERT_CHUNK ?sts"
  let ?u = "fold (pool_chunk f) ?css t"
  have css: "concat ?css = ?sts" by (simp add: POOL_UPSERT_CHUNK_def)
  have "map (\<lambda>st. stmt_ip (f st)) ?sts = map fst ?m" using key by auto
  then have d: "distinct (map (\<lambda>st. stmt_ip (f st)) (concat ?css))"
    unfolding css using pb_distinct by (simp only:)
  have ps: "\<forall>x \<in> set (concat ?css). pool_stmt (f x)" using st css by simp
  have row: "case newest (rows_for ip rows) of
        None \<Rightarrow> find_row p_ip ip (pool ?u) = find_row p_ip ip (pool t)
      | Some n \<Rightarrow> \<exists>rev. version t < rev \<and> rev \<le> version ?u \<and> find_row p_ip ip (pool ?u)
          = pool_after cutoff rev (checks_of ip t) n (newest (filter cr_ok (rows_for ip rows))) (find_row p_ip ip (pool t))" for ip
  proof -
    have vr: "valid_dates cr_checkedAt (rows_for ip rows)" using v by (simp add: valid_dates_def)
    have m: "map_of ?m ip = map_option (\<lambda>n. \<lparr>pb_latest = n, pb_success = newest (filter cr_ok (rows_for ip rows))\<rparr>)
        (newest (rows_for ip rows))"
      by (simp add: pb_fold coalesce_for [OF v] pb_of_two_rows [OF vr])
    show ?thesis
    proof (cases "newest (rows_for ip rows)")
      case None
      with m have "ip \<notin> fst ` set ?m" by (simp add: map_of_eq_None_iff)
      with key have "\<forall>x \<in> set ?sts. stmt_ip (f x) \<noteq> ip" by force
      then have "find_row p_ip ip (pool ?u) = find_row p_ip ip (pool t)"
        using ps css by (intro pool_chunks_frame) simp
      with None show ?thesis by simp
    next
      case (Some n)
      let ?st = "\<lparr>pb_latest = n, pb_success = newest (filter cr_ok (rows_for ip rows))\<rparr>"
      from m Some have in_m: "(ip, ?st) \<in> set ?m" by (simp add: map_of_SomeD)
      then have in_s: "?st \<in> set (concat ?css)" unfolding css by force
      have "n \<in> set rows" "cr_ip n = ip" using newest_by_in [OF Some] by simp_all
      have "find_row p_ip (stmt_ip (f ?st)) (pool (run_stmt (f ?st) u)) =
          pool_after cutoff (version u) (checks_of ip t) n (newest (filter cr_ok (rows_for ip rows)))
            (find_row p_ip (stmt_ip (f ?st)) (pool u))" if "checks u = checks t" for u
      proof -
        have "find_row p_ip ip (pool (run_stmt (f ?st) u)) = pool_after cutoff (version u) (checks_of ip u) n
            (newest (filter cr_ok (rows_for ip rows))) (find_row p_ip ip (pool u))"
        proof (rule pool_stmt_effect)
          show "pool_stmt_for cutoff ?st = Inr (f ?st)" using st in_s unfolding css by blast
          show "cr_ip n = ip" by fact
          show "cr_checkedAt n \<noteq> Invalid_Date" using valid \<open>n \<in> set rows\<close> by simp
          show "cr_checkedAt x \<noteq> Invalid_Date" if "newest (filter cr_ok (rows_for ip rows)) = Some x" for x
            using newest_by_in [OF that] valid by simp
        qed
        then show ?thesis unfolding key [OF in_m] checks_of_cong [OF that] .
      qed
      from pool_chunks_row [where E = "\<lambda>rev. pool_after cutoff rev (checks_of ip t) n
          (newest (filter cr_ok (rows_for ip rows)))", OF ps d in_s this] Some
      show ?thesis unfolding key [OF in_m] by simp
    qed
  qed
  have "updatePoolBatch now rows (quiet t) = (Inr (), quiet ?u)"
    using st by (intro updatePoolBatch_quiet [OF c]) blast
  moreover have "checks ?u = checks t" using pool_chunks_same [OF ps, of t] by simp
  ultimately show ?thesis using row by blast
qed


section \<open>On-demand probes\<close>

definition probed_row :: "int \<Rightarrow> bool \<Rightarrow> int \<Rightarrow> string \<Rightarrow> int \<Rightarrow> pool_row \<Rightarrow> pool_row" where
  "probed_row v ok rtt ts grown p =
     p\<lparr>p_last_checked_at := Some ts, p_last_check_ok := Some (if ok then 1 else 0),
       p_last_rtt_ms := (if ok then Some rtt else p_last_rtt_ms p),
       p_last_seen := (if ok then Some ts else p_last_seen p),
       p_times_seen := (if ok then p_times_seen p + 1 else p_times_seen p),
       p_history_count := grown, p_revision := v\<rparr>"

lemma length_filter_key: "length (filter (\<lambda>p. p_ip p = ip) ps) = 0 \<longleftrightarrow> find_row p_ip ip ps = None"
  by (auto simp: find_row_None filter_empty_conv image_iff)

lemma pool_check_row:
  "find_row p_ip i (pool (run_batch [BumpRevision, PoolCheck ip (if ok then 1 else 0) rtt ts] t)) =
     (if i = ip then map_option (\<lambda>p. probed_row (version t + 1) ok rtt ts (historyCountIncr t p) p)
        (find_row p_ip i (pool t))
      else find_row p_ip i (pool t))"
proof -
  have h: "historyCountIncr (t\<lparr>version := version t + 1\<rparr>) p = historyCountIncr t p" for p
    by (simp add: historyCountIncr_def checks_of_def split: option.split)
  show ?thesis
    by (cases "find_row p_ip i (pool t)"; cases ok)
      (auto simp: find_row_map probed_row_def h dest: find_row_Some)
qed

lemma updatePoolForCheck_quiet:
  "updatePoolForCheck ip ok rtt (Time c) mode (quiet t) =
     (let r = (case rtt of None \<Rightarrow> 0 | Some r \<Rightarrow> r);
          u = run_batch [BumpRevision, PoolCheck ip (if ok then 1 else 0) r (to_iso c)] t
      in (Inr (), quiet
        (if find_row p_ip ip (pool t) = None \<and> ok
         then run_batch [BumpRevision, PoolCheckInsert ip (ipv6_flag ip) mode (to_iso c) r] u else u)))"
proof -
  note call_quiet [simp]
  show ?thesis
    unfolding updatePoolForCheck_def ipv6_flag_code Let_def
    by (simp add: andThen_def lift_def toSQLiteDateTime_def length_filter_key [simplified] ret_def batch_def
        del: run_batch_simps)
qed

section \<open>Rows only grow while they stay\<close>

definition grows :: "pool_row \<Rightarrow> pool_row \<Rightarrow> bool" where
  "grows p q \<longleftrightarrow> p_ip q = p_ip p \<and> p_first_seen q = p_first_seen p \<and> p_is_ipv6 q = p_is_ipv6 p
     \<and> p_times_seen p \<le> p_times_seen q"

lemma grows_refl [simp]: "grows p p"
  by (simp add: grows_def)

lemma grows_trans: "grows p q \<Longrightarrow> grows q r \<Longrightarrow> grows p r"
  by (auto simp: grows_def)

fun evicts :: "stmt \<Rightarrow> bool" where
  "evicts (EvictDead _) = True"
| "evicts _ = False"

lemma stmt_grows:
  assumes "\<not> evicts s" "find_row p_ip ip (pool t) = Some p"
  shows "\<exists>q. find_row p_ip ip (pool (run_stmt s t)) = Some q \<and> grows p q"
proof (cases s)
  case (PoolUpsert a b c d e f g)
  with assms show ?thesis by (cases "ip = a") (auto simp: find_row_upsert grows_def)
next
  case (PoolCheckInsert a b c d e)
  with assms show ?thesis by (cases "ip = a") (auto simp: find_row_upsert grows_def)
next
  case (PoolFail a b c)
  with assms(2) show ?thesis by (simp add: find_row_map grows_def)
next
  case (RecountHistory ips)
  with assms(2) show ?thesis by (simp add: find_row_map grows_def)
next
  case (PtrTouch a b)
  with assms(2) show ?thesis by (simp add: find_row_map grows_def)
next
  case (PoolCheck a b c d)
  with assms(2) show ?thesis by (simp add: find_row_map grows_def)
qed (use assms in \<open>simp_all add: add_check_def\<close>)

lemma batch_grows:
  "\<forall>s \<in> set ss. \<not> evicts s \<Longrightarrow> find_row p_ip ip (pool t) = Some p \<Longrightarrow>
     \<exists>q. find_row p_ip ip (pool (run_batch ss t)) = Some q \<and> grows p q"
proof (induction ss arbitrary: t p)
  case (Cons s ss)
  from stmt_grows [of s ip t p] Cons.prems obtain q where
    "find_row p_ip ip (pool (run_stmt s t)) = Some q" "grows p q" by auto
  with Cons.IH [of "run_stmt s t" q] Cons.prems(1) show ?case by (auto intro: grows_trans)
qed simp

lemma evict_grows:
  assumes "find_row p_ip ip (pool t) = Some p"
  shows "find_row p_ip ip (pool (run_batch [BumpRevision, MarkReset, EvictDead ips] t)) \<in> {None, Some p}"
  using assms by (simp add: find_row_filter [of p_ip ip "\<lambda>i. \<not> (i \<in> set ips \<and> no_success _ i)", simplified])

lemma step_grows:
  assumes "db_step t u" "find_row p_ip ip (pool t) = Some p"
  shows "(\<exists>q. find_row p_ip ip (pool u) = Some q \<and> grows p q) \<or> version t < reset_version u"
  using assms
proof (induction rule: db_step.induct)
  case (checks_batch cs t)
  then have "find_row p_ip ip (pool (run_batch (map (\<lambda>(always, cutoff, c). InsertCheck always cutoff c) cs) t)) = Some p"
    using checks_batch_same [of cs t] by simp
  then show ?case by auto
next
  case (pool_batch ss t)
  have "\<not> evicts s" if "pool_stmt s" for s using that by (cases s) simp_all
  with pool_batch show ?case by (intro disjI1 batch_grows) auto
next
  case (ptr_batch t es)
  then show ?case by (intro disjI1 batch_grows) (auto simp: ptr_pair_def)
next
  case (evict_batch t ips)
  then show ?case by auto
qed (intro disjI1 batch_grows; simp)+

lemma steps_grow:
  assumes "db_steps t u" "db_ok t" "find_row p_ip ip (pool t) = Some p" "reset_version u \<le> version t"
  shows "\<exists>q. find_row p_ip ip (pool u) = Some q \<and> grows p q"
  using assms(1,3,4)
proof (induction rule: rtranclp_induct)
  case (step u v)
  have u: "db_ok u" by (rule pool.steps_inv [OF step.hyps(1) assms(2)])
  have "reset_version u \<le> reset_version v" by (rule pool.reset_step [OF u step.hyps(2)])
  with step.IH [OF step.prems(1)] step.prems(2) obtain q where
    q: "find_row p_ip ip (pool u) = Some q" "grows p q" by auto
  have "\<not> version u < reset_version v"
    using step.prems(2) pool.steps_ver [OF step.hyps(1)] by linarith
  with step_grows [OF step.hyps(2) q(1)] q(2) show ?case by (blast intro: grows_trans)
qed simp

section \<open>Properties\<close>

text \<open>
  C6: updatePoolBatch refines one update per address. For a batch with valid dates the pool row
  of every address of the batch ends as \<open>pool_after\<close> makes it of the old row, the newest row
  and the newest success of that address, under a fresh revision; every other pool row and all
  of ip_checks stay as they are. Order within the batch and chunking do not matter.
\<close>

theorem pool_batch_effect:
  assumes "valid_dates cr_checkedAt rows" "dedup_cutoff now = Inr cutoff"
  shows "\<exists>u. updatePoolBatch now rows (quiet t) = (Inr (), quiet u) \<and> checks u = checks t
    \<and> (\<forall>ip. case newest (rows_for ip rows) of
        None \<Rightarrow> find_row p_ip ip (pool u) = find_row p_ip ip (pool t)
      | Some n \<Rightarrow> \<exists>rev. version t < rev \<and> rev \<le> version u \<and> find_row p_ip ip (pool u)
          = pool_after cutoff rev (checks_of ip t) n (newest (filter cr_ok (rows_for ip rows))) (find_row p_ip ip (pool t)))"
  using assms by (rule pool_after_batch)

theorem pool_batch_effect_witness:
  "\<exists>u p. updatePoolBatch 0 [sample_row ''a'' True 1, sample_row ''a'' False 4] (quiet empty_db) = (Inr (), quiet u)
     \<and> find_row p_ip ''a'' (pool u) = Some p \<and> p_last_check_ok p = Some 0 \<and> p_last_seen p = Some (to_iso 1)"
proof -
  let ?rows = "[sample_row ''a'' True 1, sample_row ''a'' False 4]"
  have v: "valid_dates cr_checkedAt ?rows" by (simp add: valid_dates_def sample_row_def)
  have c: "dedup_cutoff 0 = Inr (to_iso (0 - FAILURE_DEDUP_WINDOW_MS))"
    by (rule cutoff_text) (simp add: FAILURE_DEDUP_WINDOW_MS_def)
  have n: "newest (rows_for ''a'' ?rows) = Some (sample_row ''a'' False 4)"
    "newest (filter cr_ok (rows_for ''a'' ?rows)) = Some (sample_row ''a'' True 1)"
    by (simp_all add: sample_row_def)
  from pool_batch_effect [OF v c, of empty_db] obtain u where
    u: "updatePoolBatch 0 ?rows (quiet empty_db) = (Inr (), quiet u)"
    and all: "\<forall>ip. case newest (rows_for ip ?rows) of
        None \<Rightarrow> find_row p_ip ip (pool u) = find_row p_ip ip (pool empty_db)
      | Some n \<Rightarrow> \<exists>rev. version empty_db < rev \<and> rev \<le> version u \<and> find_row p_ip ip (pool u)
          = pool_after (to_iso (0 - FAILURE_DEDUP_WINDOW_MS)) rev (checks_of ip empty_db) n
              (newest (filter cr_ok (rows_for ip ?rows))) (find_row p_ip ip (pool empty_db))"
    by blast
  from all [THEN spec, of "''a''"] n obtain rev where
    "find_row p_ip ''a'' (pool u) = pool_after (to_iso (0 - FAILURE_DEDUP_WINDOW_MS)) rev (checks_of ''a'' empty_db)
       (sample_row ''a'' False 4) (Some (sample_row ''a'' True 1)) None"
    by (auto simp: empty_db_def find_row_def)
  then have "\<exists>p. find_row p_ip ''a'' (pool u) = Some p \<and> p_last_check_ok p = Some 0 \<and> p_last_seen p = Some (to_iso 1)"
    by (simp add: pool_after_def sample_row_def)
  with u show ?thesis by blast
qed

lemma probe_rows:
  "\<exists>u v. updatePoolForCheck ip ok rtt (Time c) mode (quiet t) = (Inr (), quiet u) \<and> checks u = checks t
    \<and> (\<forall>i. i \<noteq> ip \<longrightarrow> find_row p_ip i (pool u) = find_row p_ip i (pool t))
    \<and> find_row p_ip ip (pool u) =
       (let r = (case rtt of None \<Rightarrow> 0 | Some r \<Rightarrow> r) in
        case find_row p_ip ip (pool t) of
          Some p \<Rightarrow> Some (probed_row v ok r (to_iso c) (historyCountIncr t p) p)
        | None \<Rightarrow>
            if ok then Some \<lparr>p_ip = ip, p_is_ipv6 = ipv6_flag ip, p_scan_mode = Some mode,
              p_first_seen = Some (to_iso c), p_last_seen = Some (to_iso c), p_last_rtt_ms = Some r,
              p_times_seen = 1, p_last_checked_at = Some (to_iso c), p_last_check_ok = Some 1,
              p_revision = v, p_history_count = history_size t ip, p_ptr_checked_at = None\<rparr>
            else None)"
proof -
  let ?r = "case rtt of None \<Rightarrow> 0 | Some r \<Rightarrow> r"
  let ?u1 = "run_batch [BumpRevision, PoolCheck ip (if ok then 1 else 0) ?r (to_iso c)] t"
  let ?u = "if find_row p_ip ip (pool t) = None \<and> ok
    then run_batch [BumpRevision, PoolCheckInsert ip (ipv6_flag ip) mode (to_iso c) ?r] ?u1 else ?u1"
  have run: "updatePoolForCheck ip ok rtt (Time c) mode (quiet t) = (Inr (), quiet ?u)"
    unfolding updatePoolForCheck_quiet Let_def ..
  have same: "checks ?u1 = checks t" "version ?u1 = version t + 1" by simp_all
  note row1 = pool_check_row [of _ ip ok ?r "to_iso c" t]
  show ?thesis
  proof (cases "find_row p_ip ip (pool t) = None \<and> ok")
    case False
    then show ?thesis
      using run same(1) row1 by (intro exI [of _ ?u1] exI [of _ "version t + 1"]) (auto split: option.split)
  next
    case True
    let ?u2 = "run_batch [BumpRevision, PoolCheckInsert ip (ipv6_flag ip) mode (to_iso c) ?r] ?u1"
    have h: "history_size (run_stmt BumpRevision ?u1) ip = history_size t ip"
      using same(1) by (simp add: history_size_def checks_of_def)
    have "find_row p_ip i (pool ?u2) = (if i = ip then Some \<lparr>p_ip = ip, p_is_ipv6 = ipv6_flag ip,
        p_scan_mode = Some mode, p_first_seen = Some (to_iso c), p_last_seen = Some (to_iso c),
        p_last_rtt_ms = Some ?r, p_times_seen = 1, p_last_checked_at = Some (to_iso c), p_last_check_ok = Some 1,
        p_revision = version t + 2, p_history_count = history_size t ip, p_ptr_checked_at = None\<rparr>
      else find_row p_ip i (pool ?u1))" for i
      using True row1 [of ip] h by (simp add: find_row_upsert)
    moreover have "checks ?u2 = checks t" by simp
    ultimately show ?thesis
      using run True row1 by (intro exI [of _ ?u2] exI [of _ "version t + 2"]) (simp del: run_batch_simps)
  qed
qed

text \<open>
  An on-demand probe updates exactly the row of its address: a known address gets the new
  check (with its last-seen data and counter on success only), an unknown one enters the pool
  only by a success, and a failure of an unknown address creates nothing.
\<close>

theorem probe_effect:
  "\<exists>u v. updatePoolForCheck ip ok rtt (Time c) mode (quiet t) = (Inr (), quiet u) \<and> checks u = checks t
    \<and> (\<lambda>i. find_row p_ip i (pool u)) = (\<lambda>i. find_row p_ip i (pool t)) (ip :=
       (let r = (case rtt of None \<Rightarrow> 0 | Some r \<Rightarrow> r) in
        case find_row p_ip ip (pool t) of
          Some p \<Rightarrow> Some (probed_row v ok r (to_iso c) (historyCountIncr t p) p)
        | None \<Rightarrow>
            if ok then Some \<lparr>p_ip = ip, p_is_ipv6 = ipv6_flag ip, p_scan_mode = Some mode,
              p_first_seen = Some (to_iso c), p_last_seen = Some (to_iso c), p_last_rtt_ms = Some r,
              p_times_seen = 1, p_last_checked_at = Some (to_iso c), p_last_check_ok = Some 1,
              p_revision = v, p_history_count = history_size t ip, p_ptr_checked_at = None\<rparr>
            else None))"
proof -
  from probe_rows [of ip ok rtt c mode t] obtain u v where u: "updatePoolForCheck ip ok rtt (Time c) mode (quiet t) = (Inr (), quiet u)"
    "checks u = checks t" "\<forall>i. i \<noteq> ip \<longrightarrow> find_row p_ip i (pool u) = find_row p_ip i (pool t)"
    and row: "find_row p_ip ip (pool u) =
       (let r = (case rtt of None \<Rightarrow> 0 | Some r \<Rightarrow> r) in
        case find_row p_ip ip (pool t) of
          Some p \<Rightarrow> Some (probed_row v ok r (to_iso c) (historyCountIncr t p) p)
        | None \<Rightarrow>
            if ok then Some \<lparr>p_ip = ip, p_is_ipv6 = ipv6_flag ip, p_scan_mode = Some mode,
              p_first_seen = Some (to_iso c), p_last_seen = Some (to_iso c), p_last_rtt_ms = Some r,
              p_times_seen = 1, p_last_checked_at = Some (to_iso c), p_last_check_ok = Some 1,
              p_revision = v, p_history_count = history_size t ip, p_ptr_checked_at = None\<rparr>
            else None)" by (elim exE conjE)
  show ?thesis by (intro exI [of _ u] exI [of _ v] conjI ext) (use u row in simp_all)
qed

text \<open>
  A failing probe of an address nobody has seen reachable changes neither history nor pool.
\<close>

theorem unknown_probe_failure:
  assumes "\<not> in_pool (cr_ip r) t" "\<not> cr_ok r" "cr_checkedAt r = Time c"
  shows "\<exists>u. andThen (saveRecheckResult r)
      (\<lambda>_. updatePoolForCheck (cr_ip r) False (cr_rttMs r) (cr_checkedAt r) (cr_scanMode r)) (quiet t)
      = (Inr (), quiet u) \<and> pool u = pool t \<and> checks u = checks t"
proof -
  have none: "find_row p_ip (cr_ip r) (pool t) = None"
    using assms(1) by (auto simp: in_pool_def list_ex_iff find_row_None)
  have save: "saveRecheckResult r (quiet t) = (Inr (), quiet t)"
    using assms(1,2) by (simp add: saveRecheckResult_def isKnownGood_def andThen_def ret_def)
  let ?u = "run_batch [BumpRevision, PoolCheck (cr_ip r) 0 (case cr_rttMs r of None \<Rightarrow> 0 | Some r \<Rightarrow> r) (to_iso c)] t"
  have "p_ip p \<noteq> cr_ip r" if "p \<in> set (pool t)" for p
    using none that unfolding find_row_None by (metis imageI)
  then have "pool ?u = pool t" by (simp add: map_idI)
  moreover have "checks ?u = checks t" by simp
  ultimately show ?thesis
    using save none by (intro exI [of _ ?u]) (simp add: andThen_def [of "saveRecheckResult r"] assms(3)
        updatePoolForCheck_quiet del: run_batch_simps)
qed

theorem unknown_probe_failure_witness:
  "\<exists>u. andThen (saveRecheckResult (sample_row ''a'' False 1))
      (\<lambda>_. updatePoolForCheck ''a'' False None (Time 1) ''SNI'') (quiet empty_db)
      = (Inr (), quiet u) \<and> pool u = []"
  using unknown_probe_failure [of "sample_row ''a'' False 1" empty_db 1]
  by (simp add: sample_row_def empty_db_def in_pool_def) blast



text \<open>A stored recheck reason is prefixed once, and prefixing it again changes nothing.\<close>

theorem recheck_reason_prefix:
  "(starts_with (recheck_reason r) ''recheck:'' \<or> starts_with (recheck_reason r) ''scan:'')
   \<and> recheck_reason (Some (recheck_reason r)) = recheck_reason r"
proof -
  have p: "starts_with (''recheck:'' @ s) ''recheck:''" for s by (simp add: starts_with_def)
  show ?thesis
  proof (cases r)
    case (Some s)
    consider "s = []" | "s \<noteq> []" "starts_with s ''recheck:'' \<or> starts_with s ''scan:''"
      | "s \<noteq> []" "\<not> (starts_with s ''recheck:'' \<or> starts_with s ''scan:'')" by blast
    then show ?thesis
    proof cases
      case 3
      then have "recheck_reason r = ''recheck:'' @ s" using Some by (simp add: recheck_reason_def)
      with p [of s] show ?thesis by (simp add: recheck_reason_def)
    qed (use Some in \<open>simp_all add: recheck_reason_def starts_with_def\<close>)
  qed (simp add: recheck_reason_def starts_with_def)
qed

end
