(* ===== verification/StoreRead.thy ===== *)
theory StoreRead
  imports PoolUpdate
begin

text \<open>
  The read path of src/src/store.ts: the queries over ip_pool LEFT JOIN ptr_cache with their
  ORDER BY, LIKE and LIMIT clauses, the shaping of rows into IPStatus values, the summary
  counters, and the versions that clients poll. \<open>legacy\<close> stands for the engine-defined part of
  \<open>new Date(text)\<close>, used only for text that is not in ISO form.
\<close>

section \<open>Values and orders of SQLite\<close>

datatype sql_val = SNull | SInt int | SText string

fun sql_less :: "sql_val \<Rightarrow> sql_val \<Rightarrow> bool" where
  "sql_less SNull b = (b \<noteq> SNull)"
| "sql_less (SInt a) (SInt b) = (a < b)"
| "sql_less (SInt a) (SText b) = True"
| "sql_less (SText a) (SText b) = (a < b)"
| "sql_less _ _ = False"

instantiation sql_val :: linorder
begin

definition less_sql_val :: "sql_val \<Rightarrow> sql_val \<Rightarrow> bool" where
  "less_sql_val a b = sql_less a b"

definition less_eq_sql_val :: "sql_val \<Rightarrow> sql_val \<Rightarrow> bool" where
  "less_eq_sql_val a b = (a = b \<or> sql_less a b)"

instance
proof
  fix a b c :: sql_val
  show "(a < b) = (a \<le> b \<and> \<not> b \<le> a)"
    by (cases a; cases b) (auto simp: less_sql_val_def less_eq_sql_val_def)
  show "a \<le> a" by (simp add: less_eq_sql_val_def)
  show "a \<le> b \<Longrightarrow> b \<le> c \<Longrightarrow> a \<le> c"
    by (cases a; cases b; cases c) (auto simp: less_eq_sql_val_def)
  show "a \<le> b \<Longrightarrow> b \<le> a \<Longrightarrow> a = b"
    by (cases a; cases b) (auto simp: less_eq_sql_val_def)
  show "a \<le> b \<or> b \<le> a"
    by (cases a; cases b) (auto simp: less_eq_sql_val_def)
qed

end

definition sql_int :: "int option \<Rightarrow> sql_val" where
  "sql_int x = (case x of None \<Rightarrow> SNull | Some i \<Rightarrow> SInt i)"

definition sql_text :: "string option \<Rightarrow> sql_val" where
  "sql_text x = (case x of None \<Rightarrow> SNull | Some s \<Rightarrow> SText s)"

text \<open>ORDER BY with a list of sort terms: a key and whether it descends.\<close>

fun order_before :: "(('r \<Rightarrow> sql_val) \<times> bool) list \<Rightarrow> 'r \<Rightarrow> 'r \<Rightarrow> bool" where
  "order_before [] x y = False"
| "order_before ((key, desc) # terms) x y =
     (if key x = key y then order_before terms x y
      else if desc then key y < key x else key x < key y)"

definition order_by :: "(('r \<Rightarrow> sql_val) \<times> bool) list \<Rightarrow> 'r list \<Rightarrow> 'r list" where
  "order_by terms rows = sort_by (order_before terms) rows"

lemma order_before_asym: "order_before terms x y \<Longrightarrow> \<not> order_before terms y x"
  by (induction terms x y rule: order_before.induct) (auto split: if_splits)

lemma order_before_weak: "order_before terms x y \<Longrightarrow> order_before terms x z \<or> order_before terms z y"
proof (induction terms x y rule: order_before.induct)
  case (2 key desc terms x y)
  then show ?case
    by (cases "key z = key x"; cases "key z = key y"; cases desc) (auto split: if_splits)
qed simp

interpretation sql: sql_order "order_before terms" for terms
  by unfold_locales (fact order_before_asym order_before_weak)+

lemma set_order_by [simp]: "set (order_by terms rows) = set rows"
  by (simp add: order_by_def)

text \<open>\<open>x LIKE pattern\<close>: ASCII letters match in either case, percent any text, underscore one character.\<close>

definition ascii_lower :: "char \<Rightarrow> char" where
  "ascii_lower c = (let n = of_char c :: nat in if 65 \<le> n \<and> n \<le> 90 then char_of (n + 32) else c)"

function like :: "string \<Rightarrow> string \<Rightarrow> bool" where
  "like [] s = (s = [])"
| "like (p # ps) s =
     (if p = CHR ''%''
      then like ps s \<or> (case s of [] \<Rightarrow> False | c # cs \<Rightarrow> like (p # ps) cs)
      else (case s of
              [] \<Rightarrow> False
            | c # cs \<Rightarrow> (p = CHR ''_'' \<or> ascii_lower p = ascii_lower c) \<and> like ps cs))"
  by pat_completeness auto
termination
  by (relation "measure (\<lambda>(p, s). length p + length s)") auto

section \<open>Shaping rows\<close>

definition joinStrings :: "string list \<Rightarrow> string" where
  "joinStrings values = join ''; '' values"

definition splitStrings :: "string \<Rightarrow> string list" where
  "splitStrings joined = (if joined \<noteq> [] then split_on ''; '' joined else [])"

definition fromSQLiteDateTime :: "(string \<Rightarrow> js_date) \<Rightarrow> string option \<Rightarrow> js_date option" where
  "fromSQLiteDateTime legacy s =
     (case s of None \<Rightarrow> None | Some text \<Rightarrow> if text \<noteq> [] then Some (new_date legacy text) else None)"

record ip_status =
  s_ip :: string
  s_revision :: int
  s_isIPv6 :: bool
  s_scanMode :: string
  s_firstSeen :: "js_date option"
  s_lastSeen :: "js_date option"
  s_lastRttMs :: int
  s_timesSeen :: int
  s_lastCheckedAt :: "js_date option"
  s_lastCheckOk :: bool
  s_hasCheck :: bool
  s_ptrHostname :: "string list"

definition or_else :: "'a option \<Rightarrow> 'a \<Rightarrow> 'a" where
  "or_else x d = (case x of None \<Rightarrow> d | Some v \<Rightarrow> v)"

definition rowToIPStatus :: "(string \<Rightarrow> js_date) \<Rightarrow> ip_pool_row \<Rightarrow> ip_status" where
  "rowToIPStatus legacy row =
     \<lparr>s_ip = q_ip row, s_revision = q_revision row, s_isIPv6 = (q_is_ipv6 row \<noteq> 0),
      s_scanMode = or_else (q_scan_mode row) [],
      s_firstSeen = fromSQLiteDateTime legacy (q_first_seen row),
      s_lastSeen = fromSQLiteDateTime legacy (q_last_seen row),
      s_lastRttMs = or_else (q_last_rtt_ms row) 0, s_timesSeen = q_times_seen row,
      s_lastCheckedAt = fromSQLiteDateTime legacy (q_last_checked_at row),
      s_lastCheckOk = (q_last_check_ok row = Some 1), s_hasCheck = (q_last_check_ok row \<noteq> None),
      s_ptrHostname = splitStrings (or_else (q_ptr_hostname row) [])\<rparr>"

section \<open>Queries over the pool\<close>

definition ipStatusFor :: "(string \<Rightarrow> js_date) \<Rightarrow> string \<Rightarrow> (tables, ip_status option) prog" where
  "ipStatusFor legacy ip =
     andThen (query (\<lambda>t. map_option (\<lambda>p. (join_row t p)\<lparr>q_ptr_hostname := None\<rparr>)
        (find_row p_ip ip (pool t)))) (\<lambda>row.
     ret (map_option (rowToIPStatus legacy) row))"

definition topIPsForPublish :: "int \<Rightarrow> nat \<Rightarrow> (tables, string list) prog" where
  "topIPsForPublish family limit =
     (let isIPv6 = (if family = 6 then 1 else 0) in
      query (\<lambda>t. map p_ip (take limit
        (order_by [(\<lambda>p. SInt (p_times_seen p), True), (\<lambda>p. sql_int (p_last_rtt_ms p), False)]
          (filter (\<lambda>p. p_is_ipv6 p = isIPv6 \<and> p_last_check_ok p = Some 1 \<and> p_last_rtt_ms p \<noteq> None)
            (pool t))))))"

definition poolVersion :: "(tables, int) prog" where
  "poolVersion = query version"

definition poolResetVersion :: "(tables, int) prog" where
  "poolResetVersion = query reset_version"

record stats =
  totalKnownIPs :: int
  totalChecks :: int
  lastCheckAt :: "js_date option"
  st_scanMode :: string

text \<open>
  The aggregates come from caches.default when the entry is there (\<open>hit\<close>); the two queries are
  started together, the one over ip_checks first.
\<close>

definition cachedOverviewAggregates :: "(int \<times> int) option \<Rightarrow> (tables, int \<times> int) prog" where
  "cachedOverviewAggregates hit =
     (case hit of
        Some agg \<Rightarrow> ret agg
      | None \<Rightarrow> query (\<lambda>t. (int (length (pool t)), sum_list (map p_times_seen (pool t)))))"

definition overview :: "(string \<Rightarrow> js_date) \<Rightarrow> (int \<times> int) option \<Rightarrow> (tables, stats) prog" where
  "overview legacy hit =
     andThen (query (\<lambda>t. case order_by [(\<lambda>c. SInt (k_id c), True)] (checks t) of
        [] \<Rightarrow> None | c # _ \<Rightarrow> Some (k_checked_at c, k_scan_mode c))) (\<lambda>lastCheck.
     andThen (cachedOverviewAggregates hit) (\<lambda>agg.
     ret \<lparr>totalKnownIPs = fst agg, totalChecks = snd agg,
          lastCheckAt = (case lastCheck of None \<Rightarrow> None
            | Some (checked_at, _) \<Rightarrow> fromSQLiteDateTime legacy (Some checked_at)),
          st_scanMode = (case lastCheck of None \<Rightarrow> [] | Some (_, mode) \<Rightarrow> or_else mode [])\<rparr>))"

text \<open>The whitelist of sortable columns: any other key sorts by last_seen.\<close>

definition ptr_column :: "tables \<Rightarrow> pool_row \<Rightarrow> string option" where
  "ptr_column t p = (case find_row t_ip (p_ip p) (ptrs t) of None \<Rightarrow> None | Some r \<Rightarrow> t_ptr_hostname r)"

definition listKnownIPsSortColumns :: "tables \<Rightarrow> string \<Rightarrow> (pool_row \<Rightarrow> sql_val) option" where
  "listKnownIPsSortColumns t sortBy =
     (if sortBy = ''ip'' then Some (\<lambda>p. SText (p_ip p))
      else if sortBy = ''ptr'' then Some (\<lambda>p. sql_text (ptr_column t p))
      else if sortBy = ''status'' then Some (\<lambda>p. sql_int (p_last_check_ok p))
      else if sortBy = ''first_seen'' then Some (\<lambda>p. sql_text (p_first_seen p))
      else if sortBy = ''last_seen'' then Some (\<lambda>p. sql_text (p_last_seen p))
      else if sortBy = ''rtt'' then Some (\<lambda>p. sql_int (p_last_rtt_ms p))
      else None)"

record list_options =
  o_onlyUp :: bool
  o_family :: "int option"
  o_search :: string
  o_sortBy :: "string option"
  o_sortDesc :: bool
  o_limit :: nat

definition known_filter :: "list_options \<Rightarrow> tables \<Rightarrow> pool_row \<Rightarrow> bool" where
  "known_filter opts t p =
     ((o_onlyUp opts \<longrightarrow> p_last_check_ok p = None \<or> p_last_check_ok p = Some 1)
      \<and> (o_family opts = Some 4 \<longrightarrow> p_is_ipv6 p = 0)
      \<and> (o_family opts = Some 6 \<longrightarrow> p_is_ipv6 p = 1)
      \<and> (o_search opts \<noteq> [] \<longrightarrow>
           (let pattern = ''%'' @ o_search opts @ ''%'' in
            like pattern (p_ip p)
            \<or> (case ptr_column t p of None \<Rightarrow> False | Some h \<Rightarrow> like pattern h))))"

definition known_rows :: "list_options \<Rightarrow> tables \<Rightarrow> pool_row list" where
  "known_rows opts t =
     (let col = (case listKnownIPsSortColumns t (or_else (o_sortBy opts) []) of
                   Some c \<Rightarrow> c | None \<Rightarrow> (\<lambda>p. sql_text (p_last_seen p)));
          rows = order_by [(col, o_sortDesc opts), (\<lambda>p. sql_text (p_last_seen p), True)]
                   (filter (known_filter opts t) (pool t))
      in if o_limit opts > 0 then take (o_limit opts) rows else rows)"

definition listKnownIPs :: "(string \<Rightarrow> js_date) \<Rightarrow> list_options \<Rightarrow> (tables, ip_status list) prog" where
  "listKnownIPs legacy opts =
     andThen (query (\<lambda>t. map (join_row t) (known_rows opts t))) (\<lambda>rows.
     ret (map (rowToIPStatus legacy) rows))"

definition changed_rows :: "int \<Rightarrow> int \<Rightarrow> tables \<Rightarrow> ip_pool_row list" where
  "changed_rows after through t =
     map (join_row t)
       (order_by [(\<lambda>p. SInt (p_revision p), False), (\<lambda>p. SText (p_ip p), False)]
         (filter (\<lambda>p. after < p_revision p \<and> p_revision p \<le> through) (pool t)))"

definition listKnownIPsChanged :: "(string \<Rightarrow> js_date) \<Rightarrow> int \<Rightarrow> int \<Rightarrow> (tables, ip_status list) prog" where
  "listKnownIPsChanged legacy afterRevision throughRevision =
     andThen (query (changed_rows afterRevision throughRevision)) (\<lambda>rows.
     ret (map (rowToIPStatus legacy) rows))"

section \<open>History of one address\<close>

record history_row =
  y_ip :: string
  y_ok :: bool
  y_rttMs :: int
  y_reason :: string
  y_detail :: string
  y_checkedAt :: "js_date option"
  y_scanMode :: string

definition ipHistoryVersion :: "string \<Rightarrow> (tables, int) prog" where
  "ipHistoryVersion ip = query (\<lambda>t. case map k_id (checks_of ip t) of [] \<Rightarrow> 0 | i # is \<Rightarrow> foldr max is i)"

definition history_page :: "nat \<Rightarrow> nat \<Rightarrow> check_rec list \<Rightarrow> check_rec list" where
  "history_page page offset cs =
     take page (drop offset (order_by [(\<lambda>c. SText (k_checked_at c), True), (\<lambda>c. SInt (k_id c), True)] cs))"

definition ipHistory :: "(string \<Rightarrow> js_date) \<Rightarrow> string \<Rightarrow> nat \<Rightarrow> nat \<Rightarrow> (tables, history_row list) prog" where
  "ipHistory legacy ip page offset =
     andThen (query (\<lambda>t. history_page page offset (checks_of ip t))) (\<lambda>rows.
     ret (map (\<lambda>row. \<lparr>y_ip = k_ip row, y_ok = (k_ok row \<noteq> 0), y_rttMs = or_else (k_rtt_ms row) 0,
        y_reason = or_else (k_reason row) [], y_detail = or_else (k_detail row) [],
        y_checkedAt = fromSQLiteDateTime legacy (Some (k_checked_at row)),
        y_scanMode = or_else (k_scan_mode row) []\<rparr>) rows))"


section \<open>Packing lists of strings\<close>

lemma split_on_word: "\<not> str_includes w sep \<Longrightarrow> sep \<noteq> [] \<Longrightarrow> split_on sep w = [w]"
proof (induction w)
  case (Cons c w)
  then have "strip_prefix sep (c # w) = None" "\<not> str_includes w sep"
    by (auto simp: str_includes_def starts_with_def split: if_splits)
  with Cons show ?case by (simp add: split_on_Cons del: strip_prefix.simps)
qed simp

text \<open>The separator cannot begin inside a word: its first character is not followed by a space there.\<close>

lemma split_on_semicolon:
  "\<not> str_includes w ''; '' \<Longrightarrow> split_on ''; '' (w @ ''; '' @ s) = w # split_on ''; '' s"
proof (induction w)
  case Nil
  show ?case using split_on_sep [of "''; ''" s] by simp
next
  case (Cons c w)
  then have w: "\<not> str_includes w ''; ''" "\<not> starts_with (c # w) ''; ''"
    by (auto simp: str_includes_def split: if_splits)
  have "strip_prefix ''; '' (c # w @ ''; '' @ s) = None"
    using w(2) by (cases w) (auto simp: starts_with_def split: if_splits)
  with Cons.IH [OF w(1)] show ?case by (simp add: split_on_Cons del: strip_prefix.simps)
qed

lemma split_join: "ws \<noteq> [] \<Longrightarrow> \<forall>w \<in> set ws. \<not> str_includes w ''; '' \<Longrightarrow> split_on ''; '' (join ''; '' ws) = ws"
proof (induction ws rule: induct_list012)
  case (2 w)
  then show ?case by (simp add: split_on_word)
next
  case (3 w v ws)
  then show ?case using split_on_semicolon [of w "join ''; '' (v # ws)"] by simp
qed simp

section \<open>Searching\<close>

definition plain_pattern :: "string \<Rightarrow> bool" where
  "plain_pattern s \<longleftrightarrow> CHR ''%'' \<notin> set s \<and> CHR ''_'' \<notin> set s"

lemma like_cases:
  "like (CHR ''%'' # ps) [] = like ps []"
  "like (CHR ''%'' # ps) (c # cs) = (like ps (c # cs) \<or> like (CHR ''%'' # ps) cs)"
  "p \<noteq> CHR ''%'' \<Longrightarrow> \<not> like (p # ps) []"
  "p \<noteq> CHR ''%'' \<Longrightarrow> p \<noteq> CHR ''_'' \<Longrightarrow>
    like (p # ps) (c # cs) = (ascii_lower p = ascii_lower c \<and> like ps cs)"
  by simp_all

declare like.simps(2) [simp del]

lemma like_prefix:
  "plain_pattern s \<Longrightarrow> like (s @ ''%'') x \<longleftrightarrow> (\<exists>m v. x = m @ v \<and> map ascii_lower m = map ascii_lower s)"
proof (induction s arbitrary: x)
  case Nil
  have "like ''%'' x" by (induction x) (simp_all add: like_cases)
  then show ?case by simp
next
  case (Cons c s)
  then have plain: "plain_pattern s" "c \<noteq> CHR ''%''" "c \<noteq> CHR ''_''" by (auto simp: plain_pattern_def)
  show ?case
  proof (cases x)
    case (Cons d x')
    have "(\<exists>m v. d # x' = m @ v \<and> map ascii_lower m = ascii_lower c # map ascii_lower s)
      \<longleftrightarrow> ascii_lower c = ascii_lower d \<and> (\<exists>m v. x' = m @ v \<and> map ascii_lower m = map ascii_lower s)"
      (is "?L \<longleftrightarrow> ?R")
    proof
      assume ?L
      then obtain m v where "d # x' = m @ v" "map ascii_lower m = ascii_lower c # map ascii_lower s"
        by (elim exE conjE)
      moreover from this obtain e m' where m: "m = e # m'" by (cases m) simp_all
      ultimately have "x' = m' @ v" "map ascii_lower m' = map ascii_lower s" "ascii_lower c = ascii_lower d" by simp_all
      then show ?R by (intro conjI exI)
    next
      assume ?R
      then obtain m v where "ascii_lower c = ascii_lower d" "x' = m @ v" "map ascii_lower m = map ascii_lower s"
        by (elim exE conjE)
      then have "d # x' = (d # m) @ v" "map ascii_lower (d # m) = ascii_lower c # map ascii_lower s" by simp_all
      then show ?L by (intro exI conjI)
    qed
    with plain Cons Cons.IH [OF plain(1), of x'] show ?thesis by (simp add: like_cases)
  qed (use plain in \<open>simp add: like_cases\<close>)
qed

lemma like_search:
  "plain_pattern s \<Longrightarrow> like (''%'' @ s @ ''%'') x
    \<longleftrightarrow> (\<exists>u m v. x = u @ m @ v \<and> map ascii_lower m = map ascii_lower s)"
proof (induction x)
  case Nil
  then show ?case using like_prefix [of s "[]"] by (auto simp: like_cases)
next
  case (Cons c x)
  have "like (''%'' @ s @ ''%'') (c # x) \<longleftrightarrow> like (s @ ''%'') (c # x) \<or> like (''%'' @ s @ ''%'') x"
    by (simp add: like_cases)
  also have "\<dots> \<longleftrightarrow> (\<exists>m v. c # x = m @ v \<and> map ascii_lower m = map ascii_lower s)
      \<or> (\<exists>u m v. x = u @ m @ v \<and> map ascii_lower m = map ascii_lower s)"
    using Cons by (simp only: like_prefix)
  also have "\<dots> \<longleftrightarrow> (\<exists>u m v. c # x = u @ m @ v \<and> map ascii_lower m = map ascii_lower s)" (is "?L \<longleftrightarrow> ?R")
  proof
    assume ?L
    then show ?R
    proof (elim disjE exE conjE)
      fix m v assume "c # x = m @ v" "map ascii_lower m = map ascii_lower s"
      then show ?R by (intro exI [of _ "[]"] exI [of _ m] exI [of _ v]) simp
    next
      fix u m v assume "x = u @ m @ v" "map ascii_lower m = map ascii_lower s"
      then show ?R by (intro exI [of _ "c # u"] exI [of _ m] exI [of _ v]) simp
    qed
  next
    assume ?R
    then obtain u m v where "c # x = u @ m @ v" "map ascii_lower m = map ascii_lower s" by (elim exE conjE)
    then show ?L
    proof (cases u)
      case Nil
      then show ?L using \<open>c # x = u @ m @ v\<close> \<open>map ascii_lower m = map ascii_lower s\<close>
        by (intro disjI1 exI [of _ m] exI [of _ v]) simp
    next
      case (Cons a u')
      then show ?L using \<open>c # x = u @ m @ v\<close> \<open>map ascii_lower m = map ascii_lower s\<close>
        by (intro disjI2 exI [of _ u'] exI [of _ m] exI [of _ v]) simp
    qed
  qed
  finally show ?case .
qed

section \<open>Catching up with the pool\<close>

text \<open>What a client does with the rows of a change response: replace by address.\<close>

definition merge_rows :: "(string \<Rightarrow> ip_pool_row option) \<Rightarrow> ip_pool_row list \<Rightarrow> string \<Rightarrow> ip_pool_row option" where
  "merge_rows snap rows = foldl (\<lambda>m r. m(q_ip r \<mapsto> r)) snap rows"

lemma merge_rows_at:
  "distinct (map q_ip rows) \<Longrightarrow> merge_rows snap rows ip =
     (case find_row q_ip ip rows of Some r \<Rightarrow> Some r | None \<Rightarrow> snap ip)"
proof (induction rows arbitrary: snap)
  case (Cons r rows)
  then have "merge_rows snap (r # rows) ip
      = (case find_row q_ip ip rows of Some r' \<Rightarrow> Some r' | None \<Rightarrow> (snap(q_ip r \<mapsto> r)) ip)"
    by (simp add: merge_rows_def)
  moreover have "find_row q_ip (q_ip r) rows = None" using Cons.prems by (auto simp: find_row_None)
  ultimately show ?case by (auto simp: find_row_def split: option.splits)
qed (simp add: merge_rows_def find_row_def)

lemma find_row_join: "find_row q_ip ip (map (join_row t) ps) = map_option (join_row t) (find_row p_ip ip ps)"
  by (induction ps) (auto simp: find_row_def)

lemma find_changed:
  assumes "db_ok t"
  shows "find_row q_ip ip (changed_rows a b t)
    = (case view t ip of None \<Rightarrow> None | Some r \<Rightarrow> if a < q_revision r \<and> q_revision r \<le> b then Some r else None)"
    and "distinct (map q_ip (changed_rows a b t))"
proof -
  let ?terms = "[(\<lambda>p. SInt (p_revision p), False), (\<lambda>p. SText (p_ip p), False)]"
  let ?ps = "filter (\<lambda>p. a < p_revision p \<and> p_revision p \<le> b) (pool t)"
  have d: "distinct (map p_ip (pool t))" using assms by (simp add: db_ok_def keys_distinct_def)
  then have d': "distinct (map p_ip (order_by ?terms ?ps))" by (simp add: order_by_def distinct_map_filter)
  have q: "map q_ip (changed_rows a b t) = map p_ip (order_by ?terms ?ps)"
    by (simp add: changed_rows_def)
  show "distinct (map q_ip (changed_rows a b t))" unfolding q by (rule d')
  have "find_row q_ip ip (changed_rows a b t) = map_option (join_row t) (find_row p_ip ip (order_by ?terms ?ps))"
    unfolding changed_rows_def by (rule find_row_join)
  moreover have "find_row p_ip ip (order_by ?terms ?ps)
      = (case find_row p_ip ip (pool t) of None \<Rightarrow> None
         | Some p \<Rightarrow> if a < p_revision p \<and> p_revision p \<le> b then Some p else None)"
  proof (cases "find_row p_ip ip (order_by ?terms ?ps)")
    case None
    then have "p \<in> set (pool t) \<Longrightarrow> p_ip p = ip \<Longrightarrow> \<not> (a < p_revision p \<and> p_revision p \<le> b)" for p
      by (auto simp: find_row_None)
    then show ?thesis using None by (auto split: option.split dest: find_row_Some)
  next
    case (Some p)
    from find_row_Some [OF this] have "p \<in> set (pool t)" "p_ip p = ip" "a < p_revision p \<and> p_revision p \<le> b"
      by simp_all
    with find_row_in [OF d] Some show ?thesis by auto
  qed
  ultimately show "find_row q_ip ip (changed_rows a b t)
    = (case view t ip of None \<Rightarrow> None | Some r \<Rightarrow> if a < q_revision r \<and> q_revision r \<le> b then Some r else None)"
    by (auto simp: view_def split: option.split)
qed

lemma merge_changes:
  assumes "db_ok t" "db_steps t u" "reset_version u \<le> version t"
  shows "merge_rows (view t) (changed_rows (version t) (version u) u) = view u"
proof
  fix ip
  have u: "db_ok u" by (rule pool.steps_inv [OF assms(2,1)])
  have "q_revision r \<le> version u" if "view u ip = Some r" for r
    by (rule pool.rev_le [OF u that])
  then show "merge_rows (view t) (changed_rows (version t) (version u) u) ip = view u ip"
    using pool.catch_up [OF assms(2,1,3), of ip]
    by (auto simp: merge_rows_at [OF find_changed(2) [OF u]] find_changed(1) [OF u] split: option.splits if_splits)
qed

section \<open>Pages of a history\<close>

lemma insert_by_least: "\<forall>y \<in> set ys. \<not> before y x \<Longrightarrow> insert_by before x ys = x # ys"
  by (cases ys) simp_all

lemma filter_insert_by:
  assumes "\<And>a b c. before a b \<Longrightarrow> before a c \<or> before c b"
  shows "sorted_wrt (\<lambda>a b. \<not> before b a) ys \<Longrightarrow>
    filter P (insert_by before x ys) = (if P x then insert_by before x (filter P ys) else filter P ys)"
proof (induction ys)
  case (Cons y ys)
  show ?case
  proof (cases "before y x")
    case False
    with Cons.prems assms have "\<forall>z \<in> set ys. \<not> before z x" by fastforce
    with False have "\<forall>z \<in> set (filter P (y # ys)). \<not> before z x" by simp
    from insert_by_least [of "filter P (y # ys)" before x, OF this] False show ?thesis by simp
  qed (use Cons in simp)
qed simp

lemma filter_order_by: "filter P (order_by terms rows) = order_by terms (filter P rows)"
proof (induction rows)
  case (Cons r rows)
  have "filter P (insert_by (order_before terms) r (sort_by (order_before terms) rows)) =
      (if P r then insert_by (order_before terms) r (filter P (sort_by (order_before terms) rows))
       else filter P (sort_by (order_before terms) rows))"
    by (rule filter_insert_by [OF order_before_weak sql.sort_sorted])
  with Cons show ?case by (simp add: order_by_def)
qed (simp add: order_by_def)

lemma length_filter_order_by: "length (filter P (order_by terms rows)) = length (filter P rows)"
  by (simp add: filter_order_by) (simp add: order_by_def)

lemma take_ranked:
  "sorted_wrt newer_check cs \<Longrightarrow> filter (\<lambda>c. length (filter (\<lambda>d. newer_check d c) cs) < n) cs = take n cs"
proof (induction cs arbitrary: n)
  case (Cons c cs)
  have none: "filter (\<lambda>d. newer_check d c) cs = []"
    using Cons.prems newer_trans newer_irrefl by (fastforce simp: filter_empty_conv)
  have "filter (\<lambda>e. length (filter (\<lambda>d. newer_check d e) (c # cs)) < n) cs
      = filter (\<lambda>e. length (filter (\<lambda>d. newer_check d e) cs) < n - 1) cs"
    using Cons.prems by (intro filter_cong refl) auto
  with Cons.IH [of "n - 1"] Cons.prems none show ?case by (cases n) simp_all
qed simp

lemma history_order: "order_before [(\<lambda>c. SText (k_checked_at c), True), (\<lambda>c. SInt (k_id c), True)] = newer_check"
  by (rule ext, rule ext) (auto simp: newer_check_def less_sql_val_def)

lemma strictly_newer:
  "sorted_wrt (\<lambda>a b. \<not> newer_check b a) cs \<Longrightarrow> distinct (map k_id cs) \<Longrightarrow> sorted_wrt newer_check cs"
proof (induction cs)
  case (Cons c cs)
  have "newer_check c d" if "d \<in> set cs" for d
  proof -
    have "k_id c \<noteq> k_id d" using Cons.prems(2) that by force
    with newer_linear [of c d] Cons.prems(1) that show ?thesis by auto
  qed
  with Cons show ?case by simp
qed simp

lemma history_page_pruned:
  assumes "distinct (map k_id cs)"
  shows "history_page n 0 (newest_rows n cs) = history_page n 0 cs"
proof -
  let ?terms = "[(\<lambda>c. SText (k_checked_at c), True), (\<lambda>c. SInt (k_id c), True)]"
  let ?s = "order_by ?terms cs"
  have "sorted_wrt (\<lambda>a b. \<not> newer_check b a) ?s" "distinct (map k_id ?s)"
    using sql.sort_sorted [of ?terms cs] assms by (simp_all only: order_by_def history_order distinct_sort_by)
  then have "sorted_wrt newer_check ?s" by (rule strictly_newer)
  then have "filter (\<lambda>c. length (filter (\<lambda>d. newer_check d c) ?s) < n) ?s = take n ?s" by (rule take_ranked)
  then have "order_by ?terms (newest_rows n cs) = take n ?s"
    unfolding newest_rows_def filter_order_by [symmetric] by (simp only: length_filter_order_by)
  then show ?thesis by (simp add: history_page_def)
qed

text \<open>What pruning leaves of the first pages of a history.\<close>

lemma history_page_within:
  assumes "distinct (map k_id cs)" "page + offset \<le> n"
  shows "history_page page offset (newest_rows n cs) = history_page page offset cs"
proof -
  have "history_page page offset ds = take page (drop offset (history_page n 0 ds))" for ds
    using assms(2) by (simp add: history_page_def take_drop min_def)
  then show ?thesis by (metis history_page_pruned [OF assms(1)])
qed

lemma ipHistory_quiet:
  "checks_of ip u = cs \<Longrightarrow> fst (ipHistory legacy ip page offset (quiet u)) =
    Inr (map (\<lambda>row. \<lparr>y_ip = k_ip row, y_ok = (k_ok row \<noteq> 0), y_rttMs = or_else (k_rtt_ms row) 0,
        y_reason = or_else (k_reason row) [], y_detail = or_else (k_detail row) [],
        y_checkedAt = fromSQLiteDateTime legacy (Some (k_checked_at row)),
        y_scanMode = or_else (k_scan_mode row) []\<rparr>) (history_page page offset cs))"
  by (simp add: ipHistory_def d1_defs)



section \<open>What is published\<close>

definition publishable :: "int \<Rightarrow> pool_row \<Rightarrow> bool" where
  "publishable family p \<longleftrightarrow> p_is_ipv6 p = (if family = 6 then 1 else 0) \<and> p_last_check_ok p = Some 1
     \<and> p_last_rtt_ms p \<noteq> None"

definition better :: "pool_row \<Rightarrow> pool_row \<Rightarrow> bool" where
  "better p q \<longleftrightarrow> p_times_seen q < p_times_seen p
     \<or> (p_times_seen p = p_times_seen q \<and> the (p_last_rtt_ms p) < the (p_last_rtt_ms q))"

lemma publish_order:
  assumes "publishable f p" "publishable f q"
  shows "order_before [(\<lambda>p. SInt (p_times_seen p), True), (\<lambda>p. sql_int (p_last_rtt_ms p), False)] p q = better p q"
  using assms by (auto simp: publishable_def better_def less_sql_val_def sql_int_def)

text \<open>
  C29: topIPsForPublish returns as many addresses as the limit allows, each once, all of them
  of the family, reachable at their last check and measured; they come best first, and no
  eligible address left out was seen more often, or as often with a lower round trip.
\<close>

theorem publish_best:
  assumes "db_ok t"
  shows "\<exists>rows. topIPsForPublish family limit (quiet t) = (Inr (map p_ip rows), quiet t)
    \<and> distinct (map p_ip rows) \<and> length rows = min limit (length (filter (publishable family) (pool t)))
    \<and> (\<forall>p \<in> set rows. p \<in> set (pool t) \<and> publishable family p)
    \<and> sorted_wrt (\<lambda>p q. \<not> better q p) rows
    \<and> (\<forall>p \<in> set rows. \<forall>q \<in> set (pool t) - set rows. publishable family q \<longrightarrow> \<not> better q p)"
proof -
  let ?terms = "[(\<lambda>p. SInt (p_times_seen p), True), (\<lambda>p. sql_int (p_last_rtt_ms p), False)]"
  let ?el = "filter (publishable family) (pool t)"
  let ?s = "order_by ?terms ?el"
  have s: "set ?s = set ?el" by simp
  have ord: "order_before ?terms p q = better p q" if "p \<in> set ?s" "q \<in> set ?s" for p q
    using that publish_order [of family] by simp
  have sorted: "sorted_wrt (\<lambda>p q. \<not> order_before ?terms q p) ?s"
    unfolding order_by_def by (rule sql.sort_sorted)
  then have "sorted_wrt (\<lambda>p q. \<not> better q p) ?s"
    by (rule sorted_wrt_mono_rel [rotated]) (use ord in blast)
  then have 1: "sorted_wrt (\<lambda>p q. \<not> better q p) (take limit ?s)" by (rule sorted_wrt_take)
  have 2: "\<not> better q p" if "p \<in> set (take limit ?s)" "q \<in> set (pool t)" "q \<notin> set (take limit ?s)" "publishable family q"
    for p q
  proof -
    have "q \<in> set ?s" using that by simp
    then have "q \<in> set (drop limit ?s)" using that(3) by (metis append_take_drop_id Un_iff set_append)
    with sql.limit_best [of p limit ?terms ?el q] that(1) have "\<not> order_before ?terms q p"
      by (simp add: order_by_def)
    with ord [of q p] \<open>q \<in> set ?s\<close> that(1) show ?thesis by (metis in_set_takeD)
  qed
  have d: "distinct (map p_ip (take limit ?s))"
    using assms by (simp add: take_map [symmetric] order_by_def db_ok_parts distinct_map_filter)
  have q: "topIPsForPublish family limit (quiet t) = (Inr (map p_ip (take limit ?s)), quiet t)"
    by (simp add: topIPsForPublish_def publishable_def [abs_def] Let_def)
  have "set (take limit ?s) \<subseteq> set ?el" using set_take_subset [of limit ?s] by simp
  then show ?thesis
    using q d 1 2 by (intro exI [of _ "take limit ?s"]) (auto simp: order_by_def min_def)
qed

theorem publish_best_witness:
  "\<exists>rows. topIPsForPublish 4 4 (quiet (empty_db\<lparr>pool := [sample_pool ''a'' 1 1000]\<rparr>))
     = (Inr (map p_ip rows), quiet (empty_db\<lparr>pool := [sample_pool ''a'' 1 1000]\<rparr>)) \<and> sorted_wrt (\<lambda>p q. \<not> better q p) rows"
proof -
  have "db_ok (empty_db\<lparr>pool := [sample_pool ''a'' 1 1000]\<rparr>)"
    by (simp add: db_ok_parts row_ok_def empty_db_def sample_pool_def ipv6_flag_def)
  from publish_best [OF this, of 4 4] show ?thesis by blast
qed

section \<open>What a search finds\<close>

definition contains_nocase :: "string \<Rightarrow> string \<Rightarrow> bool" where
  "contains_nocase s x \<longleftrightarrow> str_includes (map ascii_lower x) (map ascii_lower s)"

lemma like_contains: "plain_pattern s \<Longrightarrow> like (''%'' @ s @ ''%'') x = contains_nocase s x"
proof -
  have "(\<exists>u m v. x = u @ m @ v \<and> map ascii_lower m = map ascii_lower s)
      = (\<exists>u v. map ascii_lower x = u @ map ascii_lower s @ v)" (is "?L = ?R")
  proof
    assume ?L
    then obtain u m v where "x = u @ m @ v" "map ascii_lower m = map ascii_lower s" by (elim exE conjE)
    then have "map ascii_lower x = map ascii_lower u @ map ascii_lower s @ map ascii_lower v" by simp
    then show ?R by (intro exI)
  next
    assume ?R
    then obtain u v where e: "map ascii_lower x = u @ map ascii_lower s @ v" by (elim exE)
    let ?u = "take (length u) x" and ?m = "take (length s) (drop (length u) x)"
    have "map ascii_lower ?m = take (length s) (drop (length u) (map ascii_lower x))"
      by (simp add: take_map drop_map)
    also have "\<dots> = map ascii_lower s" unfolding e by simp
    finally have "map ascii_lower ?m = map ascii_lower s" .
    moreover have "x = ?u @ ?m @ drop (length s) (drop (length u) x)" by (simp del: drop_drop)
    ultimately show ?L by (intro exI conjI)
  qed
  then show "plain_pattern s \<Longrightarrow> ?thesis"
    by (simp only: like_search contains_nocase_def str_includes_iff)
qed

text \<open>
  Without LIMIT, listKnownIPs returns exactly the pool rows that pass the filters, each
  once: not known down when only reachable rows are wanted, of the family, and with the search
  text, in any case, inside the address or the cached host names; ordered by the sort column.
\<close>

theorem known_ips:
  assumes "db_ok t" "plain_pattern (o_search opts)" "o_limit opts = 0"
  shows "\<exists>rows. listKnownIPs legacy opts (quiet t) = (Inr (map (rowToIPStatus legacy \<circ> join_row t) rows), quiet t)
    \<and> distinct rows
    \<and> set rows = {p \<in> set (pool t).
        (o_onlyUp opts \<longrightarrow> p_last_check_ok p \<in> {None, Some 1})
        \<and> (o_family opts = Some 4 \<longrightarrow> \<not> str_includes (p_ip p) '':'')
        \<and> (o_family opts = Some 6 \<longrightarrow> str_includes (p_ip p) '':'')
        \<and> (o_search opts \<noteq> [] \<longrightarrow> contains_nocase (o_search opts) (p_ip p)
            \<or> (\<exists>h. ptr_column t p = Some h \<and> contains_nocase (o_search opts) h))}
    \<and> (\<forall>col. listKnownIPsSortColumns t (or_else (o_sortBy opts) []) = Some col \<longrightarrow>
         sorted_wrt (\<lambda>p q. if o_sortDesc opts then col q \<le> col p else col p \<le> col q) rows)"
proof -
  let ?rows = "known_rows opts t"
  define col where "col = (case listKnownIPsSortColumns t (or_else (o_sortBy opts) []) of
      Some c \<Rightarrow> c | None \<Rightarrow> (\<lambda>p. sql_text (p_last_seen p)))"
  let ?terms = "[(col, o_sortDesc opts), (\<lambda>p. sql_text (p_last_seen p), True)]"
  have rows: "?rows = order_by ?terms (filter (known_filter opts t) (pool t))"
    using assms(3) by (simp add: known_rows_def col_def Let_def)
  have "distinct (map p_ip (pool t))" using assms(1) by (simp add: db_ok_parts)
  then have "distinct (map p_ip ?rows)" unfolding rows order_by_def by (simp add: distinct_map_filter)
  then have d: "distinct ?rows" by (simp add: distinct_map)
  have flag: "p_is_ipv6 p = (if str_includes (p_ip p) '':'' then 1 else 0)" if "p \<in> set (pool t)" for p
    using assms(1) that by (simp add: db_ok_parts row_ok_def ipv6_flag_def str_includes_char)
  have "known_filter opts t p \<longleftrightarrow>
        (o_onlyUp opts \<longrightarrow> p_last_check_ok p \<in> {None, Some 1})
        \<and> (o_family opts = Some 4 \<longrightarrow> \<not> str_includes (p_ip p) '':'')
        \<and> (o_family opts = Some 6 \<longrightarrow> str_includes (p_ip p) '':'')
        \<and> (o_search opts \<noteq> [] \<longrightarrow> contains_nocase (o_search opts) (p_ip p)
            \<or> (\<exists>h. ptr_column t p = Some h \<and> contains_nocase (o_search opts) h))" if "p \<in> set (pool t)" for p
    unfolding known_filter_def Let_def like_contains [OF assms(2)] flag [OF that]
    by (auto split: option.splits)
  then have set: "set ?rows = {p \<in> set (pool t).
        (o_onlyUp opts \<longrightarrow> p_last_check_ok p \<in> {None, Some 1})
        \<and> (o_family opts = Some 4 \<longrightarrow> \<not> str_includes (p_ip p) '':'')
        \<and> (o_family opts = Some 6 \<longrightarrow> str_includes (p_ip p) '':'')
        \<and> (o_search opts \<noteq> [] \<longrightarrow> contains_nocase (o_search opts) (p_ip p)
            \<or> (\<exists>h. ptr_column t p = Some h \<and> contains_nocase (o_search opts) h))}"
    unfolding rows set_order_by set_filter by (intro Collect_cong conj_cong refl)
  have "sorted_wrt (\<lambda>p q. \<not> order_before ?terms q p) ?rows"
    unfolding rows order_by_def by (rule sql.sort_sorted)
  then have "sorted_wrt (\<lambda>p q. if o_sortDesc opts then col q \<le> col p else col p \<le> col q) ?rows"
    by (rule sorted_wrt_mono_rel [rotated]) (auto split: if_splits)
  then have sorted: "\<forall>c. listKnownIPsSortColumns t (or_else (o_sortBy opts) []) = Some c \<longrightarrow>
         sorted_wrt (\<lambda>p q. if o_sortDesc opts then c q \<le> c p else c p \<le> c q) ?rows"
    by (auto simp only: col_def option.case)
  have "listKnownIPs legacy opts (quiet t) = (Inr (map (rowToIPStatus legacy \<circ> join_row t) ?rows), quiet t)"
    by (simp add: listKnownIPs_def d1_defs)
  with d set sorted show ?thesis by blast
qed

theorem known_ips_witness:
  "\<exists>rows. set rows = {sample_pool ''1.2.3.4'' 1 1000} \<and>
     listKnownIPs (\<lambda>_. Invalid_Date) \<lparr>o_onlyUp = True, o_family = Some 4, o_search = ''2.3'', o_sortBy = Some ''ip'',
        o_sortDesc = False, o_limit = 0\<rparr> (quiet (empty_db\<lparr>pool := [sample_pool ''1.2.3.4'' 1 1000]\<rparr>))
      = (Inr (map (rowToIPStatus (\<lambda>_. Invalid_Date) \<circ> join_row (empty_db\<lparr>pool := [sample_pool ''1.2.3.4'' 1 1000]\<rparr>)) rows),
         quiet (empty_db\<lparr>pool := [sample_pool ''1.2.3.4'' 1 1000]\<rparr>))"
proof -
  let ?t = "empty_db\<lparr>pool := [sample_pool ''1.2.3.4'' 1 1000]\<rparr>"
  let ?o = "\<lparr>o_onlyUp = True, o_family = Some 4, o_search = ''2.3'', o_sortBy = Some ''ip'',
        o_sortDesc = False, o_limit = 0\<rparr>"
  have ok: "db_ok ?t" by (simp add: db_ok_parts row_ok_def empty_db_def sample_pool_def ipv6_flag_def)
  have "plain_pattern (o_search ?o)" "o_limit ?o = 0" by (simp_all add: plain_pattern_def)
  from known_ips [OF ok this, of "\<lambda>_. Invalid_Date"] show ?thesis
    by (fastforce simp: empty_db_def sample_pool_def contains_nocase_def ascii_lower_def str_includes_def
        starts_with_def)
qed

definition packable :: "string list \<Rightarrow> bool" where
  "packable ws \<longleftrightarrow> (\<forall>w \<in> set ws. \<not> str_includes w ''; '') \<and> ws \<noteq> [[]]"

lemma unpack_pack:
  assumes "packable ws"
  shows "splitStrings (joinStrings ws) = ws"
proof (cases ws)
  case Nil
  then show ?thesis by (simp add: splitStrings_def joinStrings_def)
next
  case (Cons w vs)
  with assms have "joinStrings ws \<noteq> []" by (cases vs) (auto simp: packable_def joinStrings_def join_Cons)
  with Cons split_join [of ws] assms show ?thesis by (simp add: packable_def splitStrings_def joinStrings_def)
qed

text \<open>
  Packing a list of values into a column and unpacking it gives the list back, when no
  value contains the separator and the list is not the single empty value (which unpacks to
  no value at all).
\<close>

theorem strings_roundtrip:
  assumes "\<forall>w \<in> set ws. \<not> str_includes w ''; ''" "ws \<noteq> [[]]"
  shows "splitStrings (joinStrings ws) = ws"
  using assms by (intro unpack_pack) (simp add: packable_def)

theorem strings_roundtrip_witness:
  "splitStrings (joinStrings [''1.1.1.1'', ''8.8.8.8'']) = [''1.1.1.1'', ''8.8.8.8'']"
  by (rule strings_roundtrip) (simp_all add: str_includes_def starts_with_def)

end
