(* ===== verification/Html.thy ===== *)
theory Html
  imports JsDate
begin

text \<open>
  The pure helpers of src/src/html.ts: escaping of text that goes into a page, recognition of
  crawlers, the build stamp and the rendering of dates. The pages themselves
  are in Pages.
\<close>

section \<open>Escaping\<close>

text \<open>\<open>s.replace(/c/g, w)\<close> for a single character.\<close>

definition replace_char :: "char \<Rightarrow> string \<Rightarrow> string \<Rightarrow> string" where
  "replace_char c w s = concat (map (\<lambda>d. if d = c then w else [d]) s)"

definition escapeHTML :: "string \<Rightarrow> string" where
  "escapeHTML s =
     replace_char (CHR 0x27) ''&#39;'' (replace_char (CHR 0x22) ''&quot;''
       (replace_char (CHR ''>'') ''&gt;'' (replace_char (CHR ''<'') ''&lt;''
         (replace_char (CHR ''&'') ''&amp;'' s))))"

section \<open>Crawlers\<close>

definition crawlerUAs :: "string list" where
  "crawlerUAs =
     [''bot'', ''crawl'', ''spider'', ''slurp'', ''archiver'', ''archive.org'', ''archive.ph'',
      ''archive.today'', ''heritrix'', ''facebookexternalhit'', ''embedly'', ''quora link preview'',
      ''outbrain'', ''pinterest'', ''whatsapp'', ''telegrambot'', ''twitterbot'']"

definition isCrawlerUA :: "string \<Rightarrow> bool" where
  "isCrawlerUA ua = list_ex (\<lambda>s. str_includes (to_lower ua) s) crawlerUAs"

section \<open>The build stamp\<close>

definition repoURL :: string where
  "repoURL = ''https://github.com/cuthead/gwsdb''"

record build_info =
  b_revision :: string
  b_commitURL :: string

definition buildInfoFromEnv :: "string option \<Rightarrow> build_info" where
  "buildInfoFromEnv commitSha =
     (case commitSha of
        None \<Rightarrow> \<lparr>b_revision = [], b_commitURL = []\<rparr>
      | Some sha \<Rightarrow>
          if sha = [] then \<lparr>b_revision = [], b_commitURL = []\<rparr>
          else \<lparr>b_revision = take 7 sha, b_commitURL = repoURL @ ''/commit/'' @ sha\<rparr>)"

definition footerHTML :: "build_info \<Rightarrow> string" where
  "footerHTML build =
     (if b_revision build \<noteq> []
      then ''commit <a href='' @ [CHR 0x22] @ escapeHTML (b_commitURL build) @ [CHR 0x22] @ ''>''
        @ escapeHTML (b_revision build) @ ''</a>''
      else ''<a href='' @ [CHR 0x22] @ repoURL @ [CHR 0x22] @ ''>gwsdb</a>'')"

section \<open>Dates\<close>

text \<open>A JavaScript integer in a template string.\<close>

definition int_text :: "int \<Rightarrow> string" where
  "int_text n = (if n < 0 then ''-'' @ num_str 10 (nat (- n)) else num_str 10 (nat n))"

definition formatTime :: "js_date option \<Rightarrow> string" where
  "formatTime d =
     (case d of
        None \<Rightarrow> ''-''
      | Some Invalid_Date \<Rightarrow> ''NaN-NaN-NaN NaN:NaN:NaN''
      | Some (Time t) \<Rightarrow>
          let f = utc_fields t; pad = (\<lambda>n. pad_start 2 CHR ''0'' (int_text n)) in
          int_text (df_year f) @ ''-'' @ pad (df_month f + 1) @ ''-'' @ pad (df_date f) @ '' '' @
          pad (df_hours f) @ '':'' @ pad (df_minutes f) @ '':'' @ pad (df_seconds f))"

section \<open>What escaping guarantees\<close>

text \<open>The five replacements in their order are one pass over the text.\<close>

definition escape_char :: "char \<Rightarrow> string" where
  "escape_char c =
     (if c = CHR ''&'' then ''&amp;'' else if c = CHR ''<'' then ''&lt;''
      else if c = CHR ''>'' then ''&gt;'' else if c = CHR 0x22 then ''&quot;''
      else if c = CHR 0x27 then ''&#39;'' else [c])"

lemma replace_char_append [simp]: "replace_char c w (s @ u) = replace_char c w s @ replace_char c w u"
  by (simp add: replace_char_def)

lemma replace_char_simps [simp]: "replace_char c w [] = []"
  "replace_char c w (d # s) = (if d = c then w else [d]) @ replace_char c w s"
  by (simp_all add: replace_char_def)

lemma escape_pass: "escapeHTML s = concat (map escape_char s)"
proof (induction s)
  case Nil
  show ?case by (simp add: escapeHTML_def)
next
  case (Cons c s)
  have "escapeHTML (c # s) = escapeHTML [c] @ escapeHTML s" by (simp add: escapeHTML_def)
  moreover have "escapeHTML [c] = escape_char c" by (simp add: escapeHTML_def escape_char_def)
  ultimately show ?case using Cons by simp
qed

text \<open>What a browser does to the entities escaping produces.\<close>

definition entities :: "(string \<times> char) list" where
  "entities = [(''&amp;'', CHR ''&''), (''&lt;'', CHR ''<''), (''&gt;'', CHR ''>''),
     (''&quot;'', CHR 0x22), (''&#39;'', CHR 0x27)]"

definition entity_at :: "string \<Rightarrow> (char \<times> string) option" where
  "entity_at s = (case find (\<lambda>(e, c). starts_with s e) entities of
     None \<Rightarrow> None | Some (e, c) \<Rightarrow> Some (c, drop (length e) s))"

lemma entity_at_shorter: "entity_at s = Some (c, rest) \<Longrightarrow> length rest < length s"
  by (auto simp: entity_at_def entities_def starts_with_iff split: option.splits if_splits)

function unescape :: "string \<Rightarrow> string" where
  "unescape s = (case s of [] \<Rightarrow> [] | c # cs \<Rightarrow>
     (case entity_at s of None \<Rightarrow> c # unescape cs | Some (d, rest) \<Rightarrow> d # unescape rest))"
  by pat_completeness auto
termination
  by (relation "measure length") (auto dest: entity_at_shorter)

declare unescape.simps [simp del]

lemma unescape_escape_char: "unescape (escape_char c @ s) = c # unescape s"
proof (cases "c \<in> set ''&<>'' \<union> {CHR 0x22, CHR 0x27}")
  case True
  then show ?thesis
    by (subst unescape.simps)
      (auto simp: escape_char_def entity_at_def entities_def starts_with_def)
next
  case False
  then show ?thesis
    by (subst unescape.simps) (auto simp: escape_char_def entity_at_def entities_def starts_with_def)
qed

text \<open>
  Escaped text holds none of the characters that can open a tag or end an attribute, and
  replacing the entities by what they stand for gives the original text back.
\<close>

theorem escape_safe:
  "set (escapeHTML s) \<inter> {CHR ''<'', CHR ''>'', CHR 0x22, CHR 0x27} = {} \<and> unescape (escapeHTML s) = s"
proof
  show "set (escapeHTML s) \<inter> {CHR ''<'', CHR ''>'', CHR 0x22, CHR 0x27} = {}"
    unfolding escape_pass by (auto simp: escape_char_def split: if_splits)
  show "unescape (escapeHTML s) = s"
    unfolding escape_pass by (induction s) (simp_all add: unescape_escape_char unescape.simps [of "[]"])
qed

section \<open>Dates on pages and in the database\<close>

lemma int_text_pad: "0 \<le> n \<Longrightarrow> pad_start k CHR ''0'' (int_text n) = pad_num k n"
  by (simp add: int_text_def pad_num_def)

lemma formatTime_iso:
  assumes "1000 \<le> df_year (utc_fields t)" "df_year (utc_fields t) \<le> 9999"
  shows "formatTime (Some (Time t)) = take 10 (to_iso t) @ '' '' @ take 8 (drop 11 (to_iso t))"
proof -
  let ?f = "utc_fields t"
  have f: "fields_ok ?f" by (rule fields_ok_utc)
  have y: "int_text (df_year ?f) = pad_num 4 (df_year ?f)"
  proof -
    have "length (num_str 10 (nat (df_year ?f))) = 4"
    proof (rule antisym)
      show "length (num_str 10 (nat (df_year ?f))) \<le> 4" using assms by (intro length_num_str) auto
      have "num_val 10 (num_str 10 (nat (df_year ?f))) < 10 ^ length (num_str 10 (nat (df_year ?f)))"
        using num_str_dig [of 10] by (intro num_val_less) auto
      then have "nat (df_year ?f) < 10 ^ length (num_str 10 (nat (df_year ?f)))" by simp
      moreover have "10 ^ 3 \<le> nat (df_year ?f)" using assms(1) by simp
      ultimately have "10 ^ 3 < (10::nat) ^ length (num_str 10 (nat (df_year ?f)))" by linarith
      then show "4 \<le> length (num_str 10 (nat (df_year ?f)))" by (simp only: power_strict_increasing_iff)
    qed
    with assms show ?thesis by (simp add: int_text_def pad_num_def pad_start_full)
  qed
  have len: "length (pad_num 4 (df_year ?f)) = 4" "length (pad_num 2 (df_month ?f + 1)) = 2"
    "length (pad_num 2 (df_date ?f)) = 2" "length (pad_num 2 (df_hours ?f)) = 2"
    "length (pad_num 2 (df_minutes ?f)) = 2" "length (pad_num 2 (df_seconds ?f)) = 2"
    using f fields_ok_date [OF f] assms by (auto simp: fields_ok_def intro!: length_pad_num)
  have iso: "to_iso t = (pad_num 4 (df_year ?f) @ ''-'' @ pad_num 2 (df_month ?f + 1) @ ''-'' @ pad_num 2 (df_date ?f))
      @ ''T'' @ (pad_num 2 (df_hours ?f) @ '':'' @ pad_num 2 (df_minutes ?f) @ '':'' @ pad_num 2 (df_seconds ?f))
      @ ''.'' @ pad_num 3 (df_millis ?f) @ ''Z''"
    using assms by (simp add: to_iso_def iso_text_def iso_year_def)
  have "take 10 (to_iso t) = pad_num 4 (df_year ?f) @ ''-'' @ pad_num 2 (df_month ?f + 1) @ ''-'' @ pad_num 2 (df_date ?f)"
    "take 8 (drop 11 (to_iso t)) = pad_num 2 (df_hours ?f) @ '':'' @ pad_num 2 (df_minutes ?f) @ '':'' @ pad_num 2 (df_seconds ?f)"
    unfolding iso by (simp_all add: len)
  then show ?thesis
    using f by (simp add: formatTime_def y int_text_pad fields_ok_def Let_def)
qed

end
