(* ===== verification/GeoData.thy ===== *)
theory GeoData
  imports JsText
begin

text \<open>
  The table of src/public/static/geoData.js (re-exported by src/src/geoData.ts): which place a
  two-letter regional prefix or a three-letter airport code of a 1e100.net host name stands
  for. The keys are distinct in the source, so the order of the entries does not matter.
\<close>

record place =
  city :: string
  country :: string

abbreviation place :: "string \<Rightarrow> string \<Rightarrow> place" where
  "place c n \<equiv> \<lparr>city = c, country = n\<rparr>"

text \<open>The regional codes, by their first letter.\<close>

definition regionalCodes_b_to_i :: "(string \<times> place) list" where
  "regionalCodes_b_to_i = [
     (''bc'', place ''Virginia'' ''United States''),
     (''bg'', place ''Virginia'' ''United States''),
     (''bh'', place ''Virginia'' ''United States''),
     (''bi'', place ''Virginia'' ''United States''),
     (''bj'', place ''Virginia'' ''United States''),
     (''bk'', place ''Virginia'' ''United States''),
     (''bl'', place ''Virginia'' ''United States''),
     (''bt'', place ''Frankfurt am Main'' ''Germany''),
     (''bu'', place ''Melbourne'' ''Australia''),
     (''bv'', place ''Melbourne'' ''Australia''),
     (''bw'', place ''Melbourne'' ''Australia''),
     (''bx'', place ''Frankfurt am Main'' ''Germany''),
     (''by'', place ''Frankfurt am Main'' ''Germany''),
     (''bz'', place ''Frankfurt am Main'' ''Germany''),
     (''cb'', place ''Santiago'' ''Chile''),
     (''ce'', place ''Santiago'' ''Chile''),
     (''cf'', place ''Santiago Metropolitan'' ''Chile''),
     (''cg'', place ''Santiago'' ''Chile''),
     (''cj'', place ''Santiago'' ''Chile''),
     (''cm'', place ''Mumbai'' ''India''),
     (''cn'', place ''Mumbai'' ''India''),
     (''co'', place ''Santiago'' ''Chile''),
     (''cu'', place ''Milan'' ''Italy''),
     (''cv'', place ''Milan'' ''Italy''),
     (''cw'', place ''Milan'' ''Italy''),
     (''dd'', place ''Las Vegas, NV'' ''United States''),
     (''dg'', place ''Dublin'' ''Ireland''),
     (''dh'', place ''Dublin'' ''Ireland''),
     (''di'', place ''Dublin'' ''Ireland''),
     (''dj'', place ''Dublin'' ''Ireland''),
     (''dl'', place ''Las Vegas, NV'' ''United States''),
     (''dx'', place ''Mumbai'' ''India''),
     (''dy'', place ''Las Vegas, NV'' ''United States''),
     (''dz'', place ''Las Vegas, NV'' ''United States''),
     (''ea'', place ''Groningen'' ''Netherlands''),
     (''eb'', place ''Groningen'' ''Netherlands''),
     (''ec'', place ''Groningen'' ''Netherlands''),
     (''ed'', place ''Groningen'' ''Netherlands''),
     (''ef'', place ''Groningen'' ''Netherlands''),
     (''eg'', place ''Groningen'' ''Netherlands''),
     (''eh'', place ''Groningen'' ''Netherlands''),
     (''ei'', place ''Groningen'' ''Netherlands''),
     (''ej'', place ''Groningen'' ''Netherlands''),
     (''el'', place ''Groningen'' ''Netherlands''),
     (''en'', place ''Groningen'' ''Netherlands''),
     (''eq'', place ''Groningen'' ''Netherlands''),
     (''er'', place ''Groningen'' ''Netherlands''),
     (''et'', place ''Madrid'' ''Spain''),
     (''eu'', place ''Madrid'' ''Spain''),
     (''ev'', place ''Madrid'' ''Spain''),
     (''ew'', place ''Madrid'' ''Spain''),
     (''fa'', place ''Seoul'' ''South Korea''),
     (''fb'', place ''Seoul'' ''South Korea''),
     (''fc'', place ''Seoul'' ''South Korea''),
     (''ff'', place ''Seoul'' ''South Korea''),
     (''fg'', place ''Seoul'' ''South Korea''),
     (''fh'', place ''Jakarta'' ''Indonesia''),
     (''fi'', place ''Jakarta'' ''Indonesia''),
     (''fj'', place ''Jakarta'' ''Indonesia''),
     (''fk'', place ''Jakarta'' ''Indonesia''),
     (''fl'', place ''Virginia'' ''United States''),
     (''fm'', place ''Virginia'' ''United States''),
     (''fn'', place ''Virginia'' ''United States''),
     (''fo'', place ''Jakarta'' ''Indonesia''),
     (''fq'', place ''Sydney'' ''Australia''),
     (''fr'', place ''Sydney'' ''Australia''),
     (''fs'', place ''Frankfurt am Main'' ''Germany''),
     (''ft'', place (''S'' @ [CHR 0xE3] @ ''o Paulo'') ''Brazil''),
     (''fu'', place (''S'' @ [CHR 0xE3] @ ''o Paulo'') ''Brazil''),
     (''fv'', place (''S'' @ [CHR 0xE3] @ ''o Paulo'') ''Brazil''),
     (''fw'', place ''Mumbai'' ''India''),
     (''fx'', place ''Mumbai'' ''India''),
     (''fy'', place ''Mumbai'' ''India''),
     (''ga'', place ''Columbus, OH'' ''United States''),
     (''gb'', place ''Columbus, OH'' ''United States''),
     (''gc'', place '''' ''United States''),
     (''gd'', place '''' ''United States''),
     (''ge'', place '''' ''United States''),
     (''gf'', place '''' ''United States''),
     (''gg'', place '''' ''United States''),
     (''gh'', place ''Columbus, OH'' ''United States''),
     (''gi'', place ''Atlanta, GA'' ''United States''),
     (''gj'', place '''' ''United States''),
     (''gk'', place '''' ''United States''),
     (''gl'', place ''Columbus, OH'' ''United States''),
     (''gm'', place ''Columbus, OH'' ''United States''),
     (''go'', place ''Columbus, OH'' ''United States''),
     (''gq'', place ''Sydney'' ''Australia''),
     (''gv'', place ''Tel Aviv'' ''Israel''),
     (''ha'', place ''Mumbai'' ''India''),
     (''hb'', place ''Mumbai'' ''India''),
     (''hc'', place ''Mumbai'' ''India''),
     (''hd'', place (''Montr'' @ [CHR 0xE9] @ ''al'') ''Canada''),
     (''he'', place (''Montr'' @ [CHR 0xE9] @ ''al'') ''Canada''),
     (''hf'', place (''Montr'' @ [CHR 0xE9] @ ''al'') ''Canada''),
     (''hg'', place ''Los Angeles, CA'' ''United States''),
     (''hh'', place ''Los Angeles, CA'' ''United States''),
     (''hi'', place ''Los Angeles, CA'' ''United States''),
     (''hj'', place '''' ''Hong Kong''),
     (''hk'', place '''' ''Hong Kong''),
     (''hl'', place '''' ''Hong Kong''),
     (''hm'', place ''Los Angeles, CA'' ''United States''),
     (''ho'', place ''Los Angeles, CA'' ''United States''),
     (''hq'', place ''Osaka'' ''Japan''),
     (''hr'', place ''Osaka'' ''Japan''),
     (''hs'', place ''Osaka'' ''Japan''),
     (''hw'', place (''Z'' @ [CHR 0xFC] @ ''rich'') ''Switzerland''),
     (''hx'', place (''Z'' @ [CHR 0xFC] @ ''rich'') ''Switzerland''),
     (''hy'', place (''Z'' @ [CHR 0xFC] @ ''rich'') ''Switzerland''),
     (''hz'', place ''Paris'' ''France''),
     (''ia'', place '''' ''United States''),
     (''ib'', place '''' ''United States''),
     (''ic'', place '''' ''United States''),
     (''ie'', place '''' ''United States''),
     (''if'', place '''' ''United States''),
     (''ii'', place (''Z'' @ [CHR 0xFC] @ ''rich'') ''Switzerland''),
     (''ik'', place '''' ''United States''),
     (''il'', place '''' ''United States''),
     (''im'', place '''' ''United States''),
     (''in'', place '''' ''United States''),
     (''io'', place '''' ''United States''),
     (''iq'', place '''' ''United States''),
     (''ir'', place '''' ''United States''),
     (''is'', place '''' ''United States''),
     (''it'', place '''' ''United States''),
     (''iu'', place '''' ''United States''),
     (''iv'', place '''' ''United States''),
     (''iw'', place '''' ''United States''),
     (''ix'', place '''' ''United States''),
     (''iy'', place '''' ''United States''),
     (''iz'', place '''' ''United States'')]"

definition regionalCodes_j_to_q :: "(string \<times> place) list" where
  "regionalCodes_j_to_q = [
     (''ja'', place '''' ''United States''),
     (''jb'', place '''' ''United States''),
     (''jc'', place '''' ''United States''),
     (''jd'', place '''' ''United States''),
     (''je'', place '''' ''United States''),
     (''jf'', place '''' ''United States''),
     (''jg'', place '''' ''United States''),
     (''jh'', place '''' ''United States''),
     (''ji'', place '''' ''United States''),
     (''jj'', place '''' ''United States''),
     (''jl'', place '''' ''United States''),
     (''jm'', place '''' ''United States''),
     (''jn'', place '''' ''United States''),
     (''jo'', place '''' ''United States''),
     (''jp'', place '''' ''United States''),
     (''jq'', place '''' ''United States''),
     (''jr'', place '''' ''United States''),
     (''js'', place ''Council Bluffs, IA'' ''United States''),
     (''jt'', place ''Council Bluffs, IA'' ''United States''),
     (''jv'', place '''' ''United States''),
     (''jw'', place '''' ''United States''),
     (''jx'', place '''' ''United States''),
     (''jy'', place '''' ''United States''),
     (''jz'', place '''' ''United States''),
     (''kz'', place (''Z'' @ [CHR 0xFC] @ ''rich'') ''Switzerland''),
     (''la'', place '''' ''Finland''),
     (''lb'', place '''' ''Finland''),
     (''le'', place '''' ''Finland''),
     (''lf'', place '''' ''Finland''),
     (''lg'', place '''' ''Finland''),
     (''lh'', place '''' ''Finland''),
     (''li'', place '''' ''Finland''),
     (''lj'', place '''' ''Finland''),
     (''lk'', place '''' ''Finland''),
     (''lm'', place '''' ''Finland''),
     (''lo'', place '''' ''Finland''),
     (''lq'', place '''' ''Finland''),
     (''lr'', place '''' ''Finland''),
     (''lt'', place '''' ''Finland''),
     (''lu'', place '''' ''Finland''),
     (''lx'', place ''Tel Aviv'' ''Israel''),
     (''ly'', place ''Mumbai'' ''India''),
     (''ma'', place ''Tennessee'' ''United States''),
     (''mb'', place '''' ''United States''),
     (''md'', place ''Tennessee'' ''United States''),
     (''me'', place ''Tennessee'' ''United States''),
     (''mf'', place '''' ''United States''),
     (''mg'', place '''' ''United States''),
     (''mh'', place '''' ''United States''),
     (''mj'', place '''' ''United States''),
     (''mr'', place '''' ''United States''),
     (''mu'', place ''Milan'' ''Italy''),
     (''my'', place ''Mumbai'' ''India''),
     (''na'', place ''Oklahoma'' ''United States''),
     (''nb'', place ''Tulsa, OK'' ''United States''),
     (''nd'', place ''Tulsa, OK'' ''United States''),
     (''ne'', place '''' ''United States''),
     (''nf'', place ''Tulsa, OK'' ''United States''),
     (''ng'', place ''Tulsa, OK'' ''United States''),
     (''nh'', place '''' ''Israel''),
     (''nj'', place '''' ''United States''),
     (''nk'', place '''' ''United States''),
     (''nl'', place '''' ''United States''),
     (''nm'', place ''Tulsa, OK'' ''United States''),
     (''nn'', place ''Tulsa, OK'' ''United States''),
     (''nq'', place '''' ''Hong Kong''),
     (''nr'', place ''Santiago'' ''Chile''),
     (''nt'', place ''Warsaw'' ''Poland''),
     (''nu'', place ''Delhi'' ''India''),
     (''nv'', place ''Delhi'' ''India''),
     (''nw'', place ''Delhi'' ''India''),
     (''nx'', place ''Tel Aviv'' ''Israel''),
     (''ny'', place '''' ''United States''),
     (''nz'', place '''' ''United States''),
     (''oa'', place ''Tulsa, OK'' ''United States''),
     (''ob'', place ''Oklahoma'' ''United States''),
     (''oc'', place ''Oklahoma'' ''United States''),
     (''od'', place ''Tulsa, OK'' ''United States''),
     (''oe'', place '''' ''United States''),
     (''og'', place '''' ''United States''),
     (''oi'', place ''Oklahoma'' ''United States''),
     (''oj'', place '''' ''United States''),
     (''ok'', place ''Oklahoma'' ''United States''),
     (''om'', place '''' ''United States''),
     (''on'', place '''' ''United States''),
     (''oo'', place ''Oklahoma'' ''United States''),
     (''oq'', place ''Tulsa, OK'' ''United States''),
     (''or'', place '''' ''United States''),
     (''os'', place '''' ''United States''),
     (''ot'', place ''Oklahoma'' ''United States''),
     (''ou'', place ''Oklahoma'' ''United States''),
     (''ov'', place ''Oklahoma'' ''United States''),
     (''ow'', place ''Oklahoma'' ''United States''),
     (''ox'', place ''Oklahoma'' ''United States''),
     (''oy'', place ''Tulsa, OK'' ''United States''),
     (''oz'', place ''Tulsa, OK'' ''United States''),
     (''pa'', place '''' ''United States''),
     (''pb'', place '''' ''United States''),
     (''pc'', place '''' ''United States''),
     (''pd'', place ''Virginia'' ''United States''),
     (''pe'', place ''Virginia'' ''United States''),
     (''pf'', place ''The Dalles, OR'' ''United States''),
     (''pg'', place ''The Dalles, OR'' ''United States''),
     (''ph'', place ''The Dalles, OR'' ''United States''),
     (''pi'', place ''The Dalles, OR'' ''United States''),
     (''pj'', place ''The Dalles, OR'' ''United States''),
     (''pl'', place ''The Dalles, OR'' ''United States''),
     (''pm'', place ''Frankfurt am Main'' ''Germany''),
     (''pt'', place ''Mumbai'' ''India''),
     (''pu'', place ''Mumbai'' ''India''),
     (''pv'', place ''The Dalles, OR'' ''United States''),
     (''pw'', place ''The Dalles, OR'' ''United States''),
     (''px'', place ''The Dalles, OR'' ''United States''),
     (''py'', place ''The Dalles, OR'' ''United States''),
     (''pz'', place ''The Dalles, OR'' ''United States''),
     (''qa'', place ''North Carolina'' ''United States''),
     (''qb'', place ''North Carolina'' ''United States''),
     (''qc'', place ''North Carolina'' ''United States''),
     (''qf'', place ''Salt Lake City, UT'' ''United States''),
     (''qi'', place ''North Carolina'' ''United States''),
     (''qj'', place '''' ''United States''),
     (''qk'', place ''North Carolina'' ''United States''),
     (''ql'', place '''' ''United States''),
     (''qm'', place ''North Carolina'' ''United States''),
     (''qn'', place ''North Carolina'' ''United States''),
     (''qo'', place ''North Carolina'' ''United States''),
     (''qr'', place ''North Carolina'' ''United States''),
     (''qs'', place ''North Carolina'' ''United States''),
     (''qt'', place ''North Carolina'' ''United States''),
     (''qu'', place ''North Carolina'' ''United States''),
     (''qv'', place ''North Carolina'' ''United States''),
     (''qw'', place ''Columbus, OH'' ''United States''),
     (''qy'', place ''Salt Lake City, UT'' ''United States'')]"

definition regionalCodes_r_to_w :: "(string \<times> place) list" where
  "regionalCodes_r_to_w = [
     (''ra'', place '''' ''Netherlands''),
     (''rb'', place '''' ''Netherlands''),
     (''rf'', place ''Paris'' ''France''),
     (''rg'', place ''Columbus, OH'' ''United States''),
     (''rj'', place ''Tokyo'' ''Japan''),
     (''rk'', place ''Tokyo'' ''Japan''),
     (''rl'', place ''Tokyo'' ''Japan''),
     (''ro'', place '''' ''United States''),
     (''rq'', place ''Dallas, TX'' ''United States''),
     (''rr'', place ''Dallas, TX'' ''United States''),
     (''rs'', place ''Dallas, TX'' ''United States''),
     (''rt'', place ''Dallas, TX'' ''United States''),
     (''ru'', place '''' ''United States''),
     (''rv'', place '''' ''United States''),
     (''rw'', place ''Dallas, TX'' ''United States''),
     (''rx'', place ''Tokyo'' ''Japan''),
     (''ry'', place ''Virginia'' ''United States''),
     (''rz'', place ''Virginia'' ''United States''),
     (''sa'', place ''Singapore'' ''Singapore''),
     (''sb'', place ''Singapore'' ''Singapore''),
     (''sc'', place ''Singapore'' ''Singapore''),
     (''sd'', place ''Singapore'' ''Singapore''),
     (''se'', place ''Singapore'' ''Singapore''),
     (''sf'', place ''Singapore'' ''Singapore''),
     (''sg'', place ''Singapore'' ''Singapore''),
     (''sh'', place ''Singapore'' ''Singapore''),
     (''si'', place ''Singapore'' ''Singapore''),
     (''sj'', place ''Singapore'' ''Singapore''),
     (''sk'', place ''Singapore'' ''Singapore''),
     (''sl'', place ''Singapore'' ''Singapore''),
     (''sm'', place ''Singapore'' ''Singapore''),
     (''sn'', place ''Singapore'' ''Singapore''),
     (''so'', place ''Singapore'' ''Singapore''),
     (''sq'', place ''Jakarta'' ''Indonesia''),
     (''sr'', place ''Jakarta'' ''Indonesia''),
     (''st'', place ''England'' ''United Kingdom''),
     (''sv'', place ''England'' ''United Kingdom''),
     (''sx'', place ''Singapore'' ''Singapore''),
     (''sy'', place ''Singapore'' ''Singapore''),
     (''ta'', place ''Taiwan'' ''Taiwan''),
     (''tb'', place ''Taiwan'' ''Taiwan''),
     (''tc'', place ''Taiwan'' ''Taiwan''),
     (''td'', place ''Taiwan'' ''Taiwan''),
     (''tf'', place ''Taipei'' ''Taiwan''),
     (''tg'', place ''Taiwan'' ''Taiwan''),
     (''th'', place ''Taiwan'' ''Taiwan''),
     (''ti'', place ''Taiwan'' ''Taiwan''),
     (''tj'', place ''Taiwan'' ''Taiwan''),
     (''tk'', place ''Taiwan'' ''Taiwan''),
     (''tl'', place ''Taiwan'' ''Taiwan''),
     (''tm'', place ''Taiwan'' ''Taiwan''),
     (''tp'', place ''Taiwan'' ''Taiwan''),
     (''ts'', place ''The Dalles, OR'' ''United States''),
     (''tt'', place ''The Dalles, OR'' ''United States''),
     (''tu'', place ''Osaka'' ''Japan''),
     (''tv'', place ''Osaka'' ''Japan''),
     (''tw'', place ''Doha'' ''Qatar''),
     (''tx'', place ''Doha'' ''Qatar''),
     (''ty'', place ''Doha'' ''Qatar''),
     (''ua'', place ''South Carolina'' ''United States''),
     (''ub'', place ''South Carolina'' ''United States''),
     (''uc'', place ''South Carolina'' ''United States''),
     (''ud'', place ''South Carolina'' ''United States''),
     (''ue'', place ''South Carolina'' ''United States''),
     (''uf'', place ''South Carolina'' ''United States''),
     (''ug'', place ''South Carolina'' ''United States''),
     (''uh'', place ''South Carolina'' ''United States''),
     (''ui'', place ''South Carolina'' ''United States''),
     (''uj'', place ''South Carolina'' ''United States''),
     (''uk'', place ''South Carolina'' ''United States''),
     (''ul'', place ''London'' ''United Kingdom''),
     (''um'', place ''London'' ''United Kingdom''),
     (''uo'', place ''London'' ''United Kingdom''),
     (''uv'', place ''England'' ''United Kingdom''),
     (''ux'', place ''South Carolina'' ''United States''),
     (''uy'', place ''South Carolina'' ''United States''),
     (''vb'', place '''' ''United States''),
     (''vc'', place ''Berlin'' ''Germany''),
     (''vd'', place ''Berlin'' ''Germany''),
     (''vg'', place '''' ''United States''),
     (''vh'', place ''South Carolina'' ''United States''),
     (''vj'', place ''South Carolina'' ''United States''),
     (''vk'', place ''South Carolina'' ''United States''),
     (''vl'', place ''South Carolina'' ''United States''),
     (''vn'', place ''South Carolina'' ''United States''),
     (''vo'', place ''South Carolina'' ''United States''),
     (''vq'', place ''South Carolina'' ''United States''),
     (''vr'', place ''South Carolina'' ''United States''),
     (''vs'', place ''South Carolina'' ''United States''),
     (''vt'', place ''South Carolina'' ''United States''),
     (''vu'', place ''South Carolina'' ''United States''),
     (''vw'', place ''South Carolina'' ''United States''),
     (''vx'', place ''South Carolina'' ''United States''),
     (''vz'', place ''South Carolina'' ''United States''),
     (''wa'', place ''Brussels'' ''Belgium''),
     (''wb'', place ''Brussels'' ''Belgium''),
     (''wd'', place ''Brussels'' ''Belgium''),
     (''we'', place ''Brussels'' ''Belgium''),
     (''wf'', place ''Brussels'' ''Belgium''),
     (''wg'', place ''Brussels'' ''Belgium''),
     (''wh'', place ''Brussels'' ''Belgium''),
     (''wi'', place ''Brussels'' ''Belgium''),
     (''wk'', place ''Brussels'' ''Belgium''),
     (''wl'', place ''Brussels'' ''Belgium''),
     (''wm'', place ''Brussels'' ''Belgium''),
     (''wn'', place ''Brussels'' ''Belgium''),
     (''wo'', place ''Brussels'' ''Belgium''),
     (''wq'', place ''Brussels'' ''Belgium''),
     (''wr'', place ''Brussels'' ''Belgium''),
     (''ws'', place ''Brussels'' ''Belgium''),
     (''wt'', place ''Frankfurt am Main'' ''Germany''),
     (''wu'', place ''Seoul'' ''South Korea''),
     (''wv'', place ''Virginia'' ''United States''),
     (''ww'', place ''Virginia'' ''United States''),
     (''wx'', place ''Turin'' ''Italy''),
     (''wy'', place ''Turin'' ''Italy''),
     (''wz'', place ''Turin'' ''Italy'')]"

definition regionalCodes_x_to_z :: "(string \<times> place) list" where
  "regionalCodes_x_to_z = [
     (''xa'', place ''Tokyo'' ''Japan''),
     (''xb'', place ''Tokyo'' ''Japan''),
     (''xc'', place ''Tokyo'' ''Japan''),
     (''xd'', place ''London'' ''United Kingdom''),
     (''xe'', place ''London'' ''United Kingdom''),
     (''xf'', place ''London'' ''United Kingdom''),
     (''xg'', place ''Virginia'' ''United States''),
     (''xh'', place ''Virginia'' ''United States''),
     (''xi'', place ''Virginia'' ''United States''),
     (''xj'', place ''Frankfurt am Main'' ''Germany''),
     (''xk'', place ''Frankfurt am Main'' ''Germany''),
     (''xm'', place ''Frankfurt am Main'' ''Germany''),
     (''xn'', place ''Sydney'' ''Australia''),
     (''xo'', place ''Sydney'' ''Australia''),
     (''xq'', place ''Sydney'' ''Australia''),
     (''xu'', place (''S'' @ [CHR 0xE3] @ ''o Paulo'') ''Brazil''),
     (''xv'', place (''S'' @ [CHR 0xE3] @ ''o Paulo'') ''Brazil''),
     (''xw'', place (''S'' @ [CHR 0xE3] @ ''o Paulo'') ''Brazil''),
     (''xy'', place ''Frankfurt am Main'' ''Germany''),
     (''xz'', place ''Tokyo'' ''Japan''),
     (''ya'', place ''Atlanta, GA'' ''United States''),
     (''yb'', place ''Atlanta, GA'' ''United States''),
     (''yd'', place ''Paris'' ''France''),
     (''ye'', place ''Paris'' ''France''),
     (''yi'', place ''Atlanta, GA'' ''United States''),
     (''yj'', place ''Berlin'' ''Germany''),
     (''yk'', place '''' ''United States''),
     (''yl'', place ''Atlanta, GA'' ''United States''),
     (''ym'', place ''Atlanta, GA'' ''United States''),
     (''yo'', place ''Atlanta, GA'' ''United States''),
     (''yq'', place ''Atlanta, GA'' ''United States''),
     (''yr'', place ''Atlanta, GA'' ''United States''),
     (''ys'', place ''Atlanta, GA'' ''United States''),
     (''yt'', place ''Atlanta, GA'' ''United States''),
     (''yv'', place ''Atlanta, GA'' ''United States''),
     (''yw'', place ''Atlanta, GA'' ''United States''),
     (''yx'', place ''Atlanta, GA'' ''United States''),
     (''zd'', place ''Salt Lake City, UT'' ''United States''),
     (''ze'', place ''Salt Lake City, UT'' ''United States''),
     (''zf'', place ''Salt Lake City, UT'' ''United States''),
     (''zg'', place ''Tokyo'' ''Japan''),
     (''zh'', place ''Tokyo'' ''Japan''),
     (''zi'', place '''' ''Hong Kong''),
     (''zj'', place ''Tokyo'' ''Japan''),
     (''zk'', place ''Las Vegas, NV'' ''United States''),
     (''zl'', place ''Las Vegas, NV'' ''United States''),
     (''zm'', place ''Las Vegas, NV'' ''United States''),
     (''zo'', place ''Warsaw'' ''Poland''),
     (''zq'', place ''Warsaw'' ''Poland''),
     (''zr'', place ''Warsaw'' ''Poland''),
     (''zs'', place ''Frankfurt am Main'' ''Germany''),
     (''zt'', place ''Frankfurt am Main'' ''Germany''),
     (''zu'', place ''Frankfurt am Main'' ''Germany''),
     (''zv'', place ''Frankfurt am Main'' ''Germany'')]"

definition regionalCodes :: "(string \<times> place) list" where
  "regionalCodes = regionalCodes_b_to_i @ regionalCodes_j_to_q @ regionalCodes_r_to_w @ regionalCodes_x_to_z"

definition airportCodes :: "(string \<times> place) list" where
  "airportCodes = [
     (''act'', place ''Waco, TX'' ''United States''),
     (''ama'', place ''Amarillo, TX'' ''United States''),
     (''atl'', place ''Atlanta, GA'' ''United States''),
     (''aus'', place ''Austin, TX'' ''United States''),
     (''auz'', place ''Aurora, IL'' ''United States''),
     (''bos'', place ''Boston, MA'' ''United States''),
     (''cbf'', place ''Council Bluffs, IA'' ''United States''),
     (''chs'', place ''Charleston, SC'' ''United States''),
     (''ckv'', place ''Clarksville, TN'' ''United States''),
     (''clt'', place ''Charlotte, NC'' ''United States''),
     (''den'', place ''Denver, CO'' ''United States''),
     (''dfw'', place ''Dallas-Fort Worth, TX'' ''United States''),
     (''dls'', place ''The Dalles, OR'' ''United States''),
     (''ewr'', place ''Newark, NJ'' ''United States''),
     (''fwa'', place ''Fort Wayne, IN'' ''United States''),
     (''hou'', place ''Houston, TX'' ''United States''),
     (''iad'', place ''Ashburn/Washington, VA'' ''United States''),
     (''iah'', place ''Houston, TX'' ''United States''),
     (''jfk'', place ''New York, NY'' ''United States''),
     (''las'', place ''Las Vegas, NV'' ''United States''),
     (''lax'', place ''Los Angeles, CA'' ''United States''),
     (''lga'', place ''New York, NY'' ''United States''),
     (''lhm'', place ''Council Bluffs, IA'' ''United States''),
     (''lnk'', place ''Lincoln, NE'' ''United States''),
     (''mci'', place ''Kansas City, MO'' ''United States''),
     (''mia'', place ''Miami, FL'' ''United States''),
     (''mrn'', place ''Morganton, NC'' ''United States''),
     (''msp'', place ''Minneapolis, MN'' ''United States''),
     (''nuq'', place ''Mountain View, CA'' ''United States''),
     (''oak'', place ''Oakland, CA'' ''United States''),
     (''okc'', place ''Oklahoma City, OK'' ''United States''),
     (''ord'', place ''Chicago, IL'' ''United States''),
     (''pao'', place ''Palo Alto, CA'' ''United States''),
     (''pdx'', place ''Portland, OR'' ''United States''),
     (''phx'', place ''Phoenix, AZ'' ''United States''),
     (''rfd'', place ''Rockford, IL'' ''United States''),
     (''rno'', place ''Reno, NV'' ''United States''),
     (''sea'', place ''Seattle, WA'' ''United States''),
     (''sfo'', place ''San Francisco, CA'' ''United States''),
     (''sjc'', place ''San Jose, CA'' ''United States''),
     (''slc'', place ''Salt Lake City, UT'' ''United States''),
     (''stl'', place ''St. Louis, MO'' ''United States''),
     (''swo'', place ''Stillwater, OK'' ''United States''),
     (''tul'', place ''Tulsa, OK'' ''United States''),
     (''uos'', place ''Franklin County, TN'' ''United States''),
     (''yul'', place ''Montreal'' ''Canada''),
     (''yyz'', place ''Toronto'' ''Canada''),
     (''ams'', place ''Amsterdam/Eemshaven'' ''Netherlands''),
     (''arn'', place ''Stockholm'' ''Sweden''),
     (''ber'', place ''Berlin'' ''Germany''),
     (''bru'', place ''Brussels'' ''Belgium''),
     (''bud'', place ''Budapest'' ''Hungary''),
     (''buh'', place ''Bucharest'' ''Romania''),
     (''cdg'', place ''Paris'' ''France''),
     (''cph'', place ''Copenhagen'' ''Denmark''),
     (''dub'', place ''Dublin'' ''Ireland''),
     (''fco'', place ''Rome'' ''Italy''),
     (''fra'', place ''Frankfurt'' ''Germany''),
     (''gro'', place ''Girona/Barcelona'' ''Spain''),
     (''grq'', place ''Groningen'' ''Netherlands''),
     (''ham'', place ''Hamburg'' ''Germany''),
     (''hel'', place ''Helsinki'' ''Finland''),
     (''hem'', place ''Helsinki'' ''Finland''),
     (''lcy'', place ''London'' ''United Kingdom''),
     (''lhr'', place ''London'' ''United Kingdom''),
     (''lis'', place ''Lisbon'' ''Portugal''),
     (''mad'', place ''Madrid'' ''Spain''),
     (''man'', place ''Manchester'' ''United Kingdom''),
     (''mil'', place ''Milan'' ''Italy''),
     (''mrs'', place ''Marseille'' ''France''),
     (''muc'', place ''Munich'' ''Germany''),
     (''mxp'', place ''Milan'' ''Italy''),
     (''ork'', place ''Cork'' ''Ireland''),
     (''osl'', place ''Oslo'' ''Norway''),
     (''otp'', place ''Bucharest'' ''Romania''),
     (''par'', place ''Paris'' ''France''),
     (''prg'', place ''Prague'' ''Czechia''),
     (''ske'', place ''Skien'' ''Norway''),
     (''sof'', place ''Sofia'' ''Bulgaria''),
     (''vie'', place ''Vienna'' ''Austria''),
     (''waw'', place ''Warsaw'' ''Poland''),
     (''zrh'', place ''Zurich'' ''Switzerland''),
     (''akl'', place ''Auckland'' ''New Zealand''),
     (''bkk'', place ''Bangkok'' ''Thailand''),
     (''blr'', place ''Bengaluru'' ''India''),
     (''bom'', place ''Mumbai'' ''India''),
     (''cgk'', place ''Jakarta'' ''Indonesia''),
     (''del'', place ''Delhi'' ''India''),
     (''gmp'', place ''Seoul'' ''South Korea''),
     (''hkg'', place ''Hong Kong'' ''Hong Kong''),
     (''hnd'', place ''Tokyo'' ''Japan''),
     (''hyd'', place ''Hyderabad'' ''India''),
     (''icn'', place ''Seoul'' ''South Korea''),
     (''kix'', place ''Osaka'' ''Japan''),
     (''kul'', place ''Kuala Lumpur'' ''Malaysia''),
     (''maa'', place ''Chennai'' ''India''),
     (''mel'', place ''Melbourne'' ''Australia''),
     (''mnl'', place ''Manila'' ''Philippines''),
     (''nrt'', place ''Tokyo'' ''Japan''),
     (''pek'', place ''Beijing'' ''China''),
     (''per'', place ''Perth'' ''Australia''),
     (''pnq'', place ''Pune'' ''India''),
     (''sha'', place ''Shanghai'' ''China''),
     (''sin'', place ''Singapore'' ''Singapore''),
     (''syd'', place ''Sydney'' ''Australia''),
     (''tsa'', place ''Taipei'' ''Taiwan''),
     (''bog'', place (''Bogot'' @ [CHR 0xE1]) ''Colombia''),
     (''eze'', place ''Buenos Aires'' ''Argentina''),
     (''gig'', place ''Rio de Janeiro'' ''Brazil''),
     (''gru'', place (''S'' @ [CHR 0xE3] @ ''o Paulo'') ''Brazil''),
     (''lim'', place ''Lima'' ''Peru''),
     (''mex'', place ''Mexico City'' ''Mexico''),
     (''mvd'', place ''Montevideo'' ''Uruguay''),
     (''qro'', place (''Quer'' @ [CHR 0xE9] @ ''taro'') ''Mexico''),
     (''rio'', place ''Rio de Janeiro'' ''Brazil''),
     (''scl'', place ''Santiago'' ''Chile''),
     (''cai'', place ''Cairo'' ''Egypt''),
     (''dia'', place ''Doha'' ''Qatar''),
     (''dmm'', place ''Dammam'' ''Saudi Arabia''),
     (''doh'', place ''Doha'' ''Qatar''),
     (''dxb'', place ''Dubai'' ''United Arab Emirates''),
     (''fjr'', place ''Fujairah'' ''United Arab Emirates''),
     (''jnb'', place ''Johannesburg'' ''South Africa''),
     (''los'', place ''Lagos State'' ''Nigeria''),
     (''mba'', place ''Mombasa'' ''Kenya''),
     (''mct'', place ''Muscat'' ''Oman''),
     (''tlv'', place ''Tel Aviv'' ''Israel'')]"

end
