(* ===== verification/Geo.thy ===== *)
theory Geo
  imports GeoData JsNumber
begin

text \<open>
  src/public/static/geo.js (re-exported by src/src/geo.ts): what a 1e100.net host name says
  about the place of a server. The four regular expressions are written out as functions that
  take the text apart from the left; each of them can match in at most one way, apart from the
  optional cluster of the third, which is tried with the cluster first.
\<close>

section \<open>Host names taken apart\<close>

definition is_lower :: "char \<Rightarrow> bool" where
  "is_lower c = (c \<in> set ''abcdefghijklmnopqrstuvwxyz'')"

definition is_alnum :: "char \<Rightarrow> bool" where
  "is_alnum c = (is_lower c \<or> is_digit c)"

text \<open>The end \<open>\.1e100\.net\.?$\<close>, and the marker \<open>(?:f(\d{1,3})|x([0-9a-f]{2}))\<close> before it.\<close>

definition net_end :: "string \<Rightarrow> bool" where
  "net_end s = (s = ''.1e100.net'' \<or> s = ''.1e100.net.'')"

datatype server_index = Dec string | Hex string

definition marker :: "string \<Rightarrow> (server_index \<times> string) option" where
  "marker s =
     (case s of
        [] \<Rightarrow> None
      | c # r \<Rightarrow>
          if c = CHR ''f'' then
            (let ds = takeWhile is_digit r; suffix = dropWhile is_digit r in
             if ds \<noteq> [] \<and> length ds \<le> 3 \<and> net_end suffix then Some (Dec ds, suffix) else None)
          else if c = CHR ''x'' then
            (let hs = take 2 r; suffix = drop 2 r in
             if length hs = 2 \<and> list_all (is_dig 16) hs \<and> net_end suffix then Some (Hex hs, suffix) else None)
          else None)"

definition pattern1 :: "string \<Rightarrow> (string \<times> string \<times> string \<times> server_index) option" where
  "pattern1 h =
     (let airport = take 3 h; a = take 2 (drop 3 h); b = take 2 (drop 6 h) in
      if length h > 12 \<and> list_all is_lower airport \<and> list_all is_digit a \<and> h ! 5 = CHR ''s''
         \<and> list_all is_digit b \<and> take 4 (drop 8 h) = ''-in-''
      then map_option (\<lambda>m. (airport, a, b, fst m)) (marker (drop 12 h)) else None)"

definition pattern2 :: "string \<Rightarrow> (string \<times> server_index) option" where
  "pattern2 h =
     (if length h > 6 \<and> list_all is_lower (take 2 h) \<and> take 4 (drop 2 h) = ''-in-''
      then map_option (\<lambda>m. (take 2 h, fst m)) (marker (drop 6 h)) else None)"

definition pattern3 :: "string \<Rightarrow> (string \<times> string option \<times> server_index) option" where
  "pattern3 h =
     (let letters = takeWhile is_lower h; r = dropWhile is_lower h; airport = take 3 (drop 2 letters);
          with_cluster =
            (case strip_prefix ''-'' r of
               None \<Rightarrow> None
             | Some r' \<Rightarrow>
                 let cluster = takeWhile is_alnum r' in
                 if cluster = [] then None
                 else (case strip_prefix ''-in-'' (dropWhile is_alnum r') of
                         None \<Rightarrow> None
                       | Some m \<Rightarrow> map_option (\<lambda>i. (airport, Some cluster, fst i)) (marker m)))
      in if length letters < 6 \<or> 8 < length letters then None
         else (case with_cluster of
                 Some x \<Rightarrow> Some x
               | None \<Rightarrow>
                   (case strip_prefix ''-in-'' r of
                      None \<Rightarrow> None
                    | Some m \<Rightarrow> map_option (\<lambda>i. (airport, None, fst i)) (marker m))))"

definition pattern4 :: "string \<Rightarrow> string option" where
  "pattern4 h =
     (case strip_prefix ''any-in-'' h of
        None \<Rightarrow> None
      | Some r \<Rightarrow>
          let hs = takeWhile (is_dig 16) r in
          if 2 \<le> length hs \<and> length hs \<le> 6 \<and> net_end (dropWhile (is_dig 16) r) then Some hs else None)"

text \<open>
  \<open>siblingPattern\<close>: \<open>.+\<close> takes as much as it can, does not cross a line end, and leaves the
  marker; the groups are the text up to and including \<open>-in-\<close>, the index and the end.
\<close>

fun split_marker :: "string \<Rightarrow> (string \<times> server_index \<times> string) option" where
  "split_marker [] = None"
| "split_marker (c # cs) =
     (case (if c = CHR 0x0A \<or> c = CHR 0x0D then None else split_marker cs) of
        Some (prefix, i, suffix) \<Rightarrow> Some (c # prefix, i, suffix)
      | None \<Rightarrow>
          (case strip_prefix ''-in-'' (c # cs) of
             None \<Rightarrow> None
           | Some m \<Rightarrow> map_option (\<lambda>(i, suffix). (''-in-'', i, suffix)) (marker m)))"

definition siblingPattern :: "string \<Rightarrow> (string \<times> server_index \<times> string) option" where
  "siblingPattern h =
     (case h of
        [] \<Rightarrow> None
      | c # cs \<Rightarrow>
          if c = CHR 0x0A \<or> c = CHR 0x0D then None
          else map_option (\<lambda>(prefix, i, suffix). (c # prefix, i, suffix)) (split_marker cs))"

section \<open>Decoding\<close>

record location =
  g_hostname :: string
  g_airportCode :: string
  g_cluster :: string
  g_serverIndex :: string
  g_city :: string
  g_country :: string
  g_matched :: bool

definition emptyLocation :: "string \<Rightarrow> location" where
  "emptyLocation hostname =
     \<lparr>g_hostname = hostname, g_airportCode = [], g_cluster = [], g_serverIndex = [], g_city = [],
      g_country = [], g_matched = False\<rparr>"

fun index_text :: "server_index \<Rightarrow> string" where
  "index_text (Dec ds) = ds"
| "index_text (Hex hs) = ''0x'' @ hs"

definition at_place :: "(string \<times> place) list \<Rightarrow> location \<Rightarrow> location" where
  "at_place codes loc =
     (case map_of codes (g_airportCode loc) of
        None \<Rightarrow> loc
      | Some p \<Rightarrow> loc\<lparr>g_city := city p, g_country := country p\<rparr>)"

definition decode :: "string \<Rightarrow> location" where
  "decode hostname =
     (let h = to_lower (trim hostname); loc = emptyLocation hostname in
      case pattern1 h of
        Some (airport, a, b, i) \<Rightarrow>
          at_place airportCodes (loc\<lparr>g_matched := True, g_airportCode := airport,
            g_cluster := a @ ''s'' @ b, g_serverIndex := index_text i\<rparr>)
      | None \<Rightarrow>
      case pattern2 h of
        Some (code, i) \<Rightarrow>
          at_place regionalCodes (loc\<lparr>g_matched := True, g_airportCode := code,
            g_serverIndex := index_text i\<rparr>)
      | None \<Rightarrow>
      case pattern3 h of
        Some (airport, cluster, i) \<Rightarrow>
          at_place airportCodes (loc\<lparr>g_matched := True, g_airportCode := airport,
            g_cluster := (case cluster of None \<Rightarrow> [] | Some c \<Rightarrow> c), g_serverIndex := index_text i\<rparr>)
      | None \<Rightarrow>
      case pattern4 h of
        Some hs \<Rightarrow> loc\<lparr>g_matched := True, g_airportCode := ''any'', g_serverIndex := ''0x'' @ hs,
            g_city := ''Anycast''\<rparr>
      | None \<Rightarrow> loc)"

definition isHostname :: "string \<Rightarrow> bool" where
  "isHostname s =
     (let h = to_lower (trim s);
          h = (if h \<noteq> [] \<and> last h = CHR ''.'' then butlast h else h)
      in starts_with (rev h) (rev ''.1e100.net''))"

definition siblingHostname :: "string \<Rightarrow> string option" where
  "siblingHostname hostname =
     (if \<not> isHostname hostname then None
      else case siblingPattern (to_lower (trim hostname)) of
        None \<Rightarrow> None
      | Some (prefix, Dec ds, suffix) \<Rightarrow>
          let n = num_val 10 ds in
          if 255 < n then None
          else Some (prefix @ ''x'' @ pad_start 2 CHR ''0'' (num_str 16 n) @ suffix)
      | Some (prefix, Hex hs, suffix) \<Rightarrow>
          Some (prefix @ ''f'' @ num_str 10 (num_val 16 hs) @ suffix))"

definition decodeRank :: "location \<Rightarrow> nat" where
  "decodeRank loc =
     (if \<not> g_matched loc then 0
      else (if g_airportCode loc = ''any'' then 1 else if length (g_airportCode loc) = 2 then 2 else 3)
           + (if g_country loc \<noteq> [] then 10 else 0))"

definition best_step :: "location \<times> int \<Rightarrow> string \<Rightarrow> location \<times> int" where
  "best_step best h =
     (let loc = decode h; rank = int (decodeRank loc) in
      if snd best < rank then (loc, rank) else best)"

definition decodeBest :: "string list \<Rightarrow> location" where
  "decodeBest hostnames = fst (foldl best_step (emptyLocation [], -1) hostnames)"

definition countryCodes :: "(string \<times> string) list" where
  "countryCodes =
     [(''Argentina'', ''ar''),
      (''Australia'', ''au''),
      (''Austria'', ''at''),
      (''Belgium'', ''be''),
      (''Brazil'', ''br''),
      (''Bulgaria'', ''bg''),
      (''Canada'', ''ca''),
      (''Chile'', ''cl''),
      (''China'', ''cn''),
      (''Colombia'', ''co''),
      (''Czechia'', ''cz''),
      (''Denmark'', ''dk''),
      (''Egypt'', ''eg''),
      (''Finland'', ''fi''),
      (''France'', ''fr''),
      (''Germany'', ''de''),
      (''Hong Kong'', ''hk''),
      (''Hungary'', ''hu''),
      (''India'', ''in''),
      (''Indonesia'', ''id''),
      (''Ireland'', ''ie''),
      (''Israel'', ''il''),
      (''Italy'', ''it''),
      (''Japan'', ''jp''),
      (''Kenya'', ''ke''),
      (''Malaysia'', ''my''),
      (''Mexico'', ''mx''),
      (''Netherlands'', ''nl''),
      (''New Zealand'', ''nz''),
      (''Nigeria'', ''ng''),
      (''Norway'', ''no''),
      (''Oman'', ''om''),
      (''Peru'', ''pe''),
      (''Philippines'', ''ph''),
      (''Poland'', ''pl''),
      (''Portugal'', ''pt''),
      (''Qatar'', ''qa''),
      (''Romania'', ''ro''),
      (''Saudi Arabia'', ''sa''),
      (''Singapore'', ''sg''),
      (''South Africa'', ''za''),
      (''South Korea'', ''kr''),
      (''Spain'', ''es''),
      (''Sweden'', ''se''),
      (''Switzerland'', ''ch''),
      (''Taiwan'', ''tw''),
      (''Thailand'', ''th''),
      (''United Arab Emirates'', ''ae''),
      (''United Kingdom'', ''gb''),
      (''United States'', ''us''),
      (''Uruguay'', ''uy'')]"

definition countryCode :: "string \<Rightarrow> string" where
  "countryCode name = (case map_of countryCodes name of None \<Rightarrow> [] | Some c \<Rightarrow> c)"

end
