(* ===== verification/Pool.thy ===== *)
theory Pool
  imports StoreRead Html Geo
begin

text \<open>
  src/src/pool.ts: the known-IP pool as the pages and the API show it. Each database row is
  shaped into a display row (decoded country, status word, formatted dates); loadPool reads
  all of them in the wanted order together with the summary counters, loadPoolChanges those
  revised in a range of revisions.
\<close>

section \<open>Display rows\<close>

record ip_row =
  w_ip :: string
  w_revision :: int
  w_ptrList :: "string list"
  w_country :: string
  w_countryCode :: string
  w_status :: string
  w_firstSeen :: string
  w_lastSeen :: string
  w_lastRttMs :: int

definition statusFor :: "ip_status \<Rightarrow> string" where
  "statusFor st =
     (if \<not> s_hasCheck st then ''-'' else if s_lastCheckOk st then ''Reachable'' else ''Unreachable'')"

definition toIPRow :: "ip_status \<Rightarrow> ip_row" where
  "toIPRow st =
     (let named = (length (s_ptrHostname st) > 0);
          country = (if named then g_country (decodeBest (s_ptrHostname st)) else []);
          code = (if named then countryCode (g_country (decodeBest (s_ptrHostname st))) else [])
      in \<lparr>w_ip = s_ip st, w_revision = s_revision st, w_ptrList = s_ptrHostname st,
          w_country = country, w_countryCode = code, w_status = statusFor st,
          w_firstSeen = formatTime (s_firstSeen st), w_lastSeen = formatTime (s_lastSeen st),
          w_lastRttMs = s_lastRttMs st\<rparr>)"

section \<open>Loading\<close>

record pool_data =
  d_ips :: "ip_row list"
  d_scanMode :: string
  d_stats :: stats

record pool_options =
  lo_sortBy :: "string option"
  lo_sortDesc :: "bool option"
  lo_family :: "int option"

text \<open>
  \<open>sort\<close> of JavaScript is stable, and the comparator is a weak order on the countries: the
  rows come by country, ties in the order of the query.
\<close>

definition country_before :: "bool \<Rightarrow> ip_row \<Rightarrow> ip_row \<Rightarrow> bool" where
  "country_before desc a b = (if desc then w_country b < w_country a else w_country a < w_country b)"

definition pool_query :: "pool_options \<Rightarrow> list_options" where
  "pool_query opts =
     (let sortBy = or_else (lo_sortBy opts) ''last_seen'' in
      \<lparr>o_onlyUp = False, o_family = lo_family opts, o_search = [],
       o_sortBy = (if sortBy = ''country'' then None else Some sortBy),
       o_sortDesc = or_else (lo_sortDesc opts) True, o_limit = 0\<rparr>)"

definition loadPool ::
  "(string \<Rightarrow> js_date) \<Rightarrow> (int \<times> int) option \<Rightarrow> pool_options \<Rightarrow> (tables, pool_data) prog" where
  "loadPool legacy hit opts =
     (let sortBy = or_else (lo_sortBy opts) ''last_seen'';
          sortDesc = or_else (lo_sortDesc opts) True
      in andThen (listKnownIPs legacy (pool_query opts)) (\<lambda>known.
         let ips = map toIPRow known;
             ips = (if sortBy = ''country'' then sort_by (country_before sortDesc) ips else ips)
         in andThen (overview legacy hit) (\<lambda>stats.
            ret \<lparr>d_ips = ips, d_scanMode = st_scanMode stats, d_stats = stats\<rparr>)))"

text \<open>
  \<open>Promise.all\<close> starts listKnownIPsChanged first; the queries of both calls reach the database
  in some order between the same two points of the request, which the script of other
  requests leaves open.
\<close>

definition loadPoolChanges ::
  "(string \<Rightarrow> js_date) \<Rightarrow> (int \<times> int) option \<Rightarrow> int \<Rightarrow> int \<Rightarrow> (tables, pool_data) prog" where
  "loadPoolChanges legacy hit afterRevision throughRevision =
     andThen (listKnownIPsChanged legacy afterRevision throughRevision) (\<lambda>known.
     andThen (overview legacy hit) (\<lambda>stats.
     ret \<lparr>d_ips = map toIPRow known, d_scanMode = st_scanMode stats, d_stats = stats\<rparr>))"

section \<open>What loading promises\<close>

text \<open>The display row of a database row.\<close>

definition shown :: "(string \<Rightarrow> js_date) \<Rightarrow> ip_pool_row \<Rightarrow> ip_row" where
  "shown legacy r = toIPRow (rowToIPStatus legacy r)"

lemma shown_sel [simp]: "w_ip (shown legacy r) = q_ip r" "w_revision (shown legacy r) = q_revision r"
  by (simp_all add: shown_def toIPRow_def rowToIPStatus_def Let_def)

lemma family_filter:
  assumes "db_ok t" "p \<in> set (pool t)"
  shows "known_filter \<lparr>o_onlyUp = False, o_family = fam, o_search = [], o_sortBy = s, o_sortDesc = d, o_limit = 0\<rparr> t p
    = ((fam = Some 4 \<longrightarrow> CHR '':'' \<notin> set (p_ip p)) \<and> (fam = Some 6 \<longrightarrow> CHR '':'' \<in> set (p_ip p)))"
proof -
  have "p_is_ipv6 p = ipv6_flag (p_ip p)" using assms by (simp add: db_ok_def pool_ok_def row_ok_def)
  then show ?thesis by (simp add: known_filter_def ipv6_flag_def)
qed

text \<open>What the sort keys of the country order leave alone: the rows themselves.\<close>

lemma set_loadPool_rows:
  "set (if c then sort_by before xs else xs) = set xs" "distinct (map f (if c then sort_by before xs else xs)) = distinct (map f xs)"
  by simp_all

lemma distinct_known_rows:
  assumes "db_ok t"
  shows "distinct (map p_ip (known_rows opts t))"
proof -
  have d: "distinct (map p_ip (filter (known_filter opts t) (pool t)))"
    using assms by (simp add: db_ok_def keys_distinct_def distinct_map_filter)
  then show ?thesis by (auto simp: known_rows_def Let_def order_by_def distinct_take simp flip: take_map)
qed

end
