(* ===== verification/Api.thy ===== *)
theory Api
  imports Pool IpAddr JsNumber
begin

text \<open>
  The JSON API the pages poll: src/functions/api/pool.ts, api/pool/changes.ts,
  api/pool/version.ts and api/history.ts. A handler reads the database several times, and
  other requests may commit between two reads; each handler reads the version again before it
  answers, and answers 503 when the version moved. The edge cache (\<open>caches.default\<close>) is a
  parameter \<open>edge\<close>: what a match under a key returns; what a handler puts there is part of its
  result. A request is its list of query parameters.
\<close>

section \<open>Requests and replies\<close>

type_synonym params = "(string \<times> string) list"

definition params_get :: "string \<Rightarrow> params \<Rightarrow> string option" where
  "params_get k ps = map_of ps k"

text \<open>\<open>searchParams.set\<close>: the first parameter of that name is replaced, further ones are removed.\<close>

fun params_set :: "string \<Rightarrow> string \<Rightarrow> params \<Rightarrow> params" where
  "params_set k v [] = [(k, v)]"
| "params_set k v (p # ps) =
     (if fst p = k then (k, v) # filter (\<lambda>q. fst q \<noteq> k) ps else p # params_set k v ps)"

text \<open>A reply: status, the Cache-Control header if it has one, and the JSON body.\<close>

record 'b reply =
  status :: nat
  cacheControl :: "string option"
  body :: 'b

definition fresh :: "nat \<Rightarrow> 'b \<Rightarrow> 'b reply" where
  "fresh code b = \<lparr>status = code, cacheControl = Some ''no-store'', body = b\<rparr>"

definition refused :: "'b \<Rightarrow> 'b reply" where
  "refused b = \<lparr>status = 400, cacheControl = None, body = b\<rparr>"

text \<open>\<open>Number(searchParams.get("since"))\<close>: null becomes 0; only safe integers from 0 on are taken.\<close>

definition since_number :: "string \<Rightarrow> int option" where
  "since_number s = (case as_safe_integer (js_Number s) of
     Some n \<Rightarrow> if n < 0 then None else Some n | None \<Rightarrow> None)"

section \<open>Rows and bodies\<close>

text \<open>A display row without country and countryCode, which the browser decodes itself.\<close>

record api_row =
  x_ip :: string
  x_revision :: int
  x_ptrList :: "string list"
  x_status :: string
  x_firstSeen :: string
  x_lastSeen :: string
  x_lastRttMs :: int

definition api_row :: "ip_row \<Rightarrow> api_row" where
  "api_row r =
     \<lparr>x_ip = w_ip r, x_revision = w_revision r, x_ptrList = w_ptrList r, x_status = w_status r,
      x_firstSeen = w_firstSeen r, x_lastSeen = w_lastSeen r, x_lastRttMs = w_lastRttMs r\<rparr>"

record pool_body =
  v_version :: int
  v_ips :: "api_row list"
  v_count :: "nat option"
  v_scanMode :: string
  v_totalKnownIPs :: int
  v_totalChecks :: int
  v_lastCheckAt :: string

datatype json =
    Error string
  | Retry
  | Reset int
  | Unchanged int
  | Version int
  | Payload pool_body

definition pool_body :: "int \<Rightarrow> bool \<Rightarrow> pool_data \<Rightarrow> pool_body" where
  "pool_body ver counted d =
     (let ips = map api_row (d_ips d) in
      \<lparr>v_version = ver, v_ips = ips, v_count = (if counted then Some (length ips) else None),
       v_scanMode = d_scanMode d, v_totalKnownIPs = totalKnownIPs (d_stats d),
       v_totalChecks = totalChecks (d_stats d), v_lastCheckAt = formatTime (lastCheckAt (d_stats d))\<rparr>)"

text \<open>What a handler does to the edge cache: nothing, or one entry.\<close>

type_synonym edge = "params \<Rightarrow> pool_body option"
type_synonym put = "(params \<times> pool_body) option"

section \<open>Handlers\<close>

text \<open>\<open>GET /api/pool\<close>; \<open>hit\<close> is the summary cache of \<open>overview\<close>.\<close>

definition pool_key :: "int \<Rightarrow> params \<Rightarrow> params" where
  "pool_key ver ps = params_set ''v'' (int_text ver) (params_set ''schema'' ''2'' ps)"

definition family_param :: "params \<Rightarrow> int option" where
  "family_param ps =
     (if params_get ''family'' ps = Some ''4'' then Some 4
      else if params_get ''family'' ps = Some ''6'' then Some 6 else None)"

definition pool_get ::
  "(string \<Rightarrow> js_date) \<Rightarrow> edge \<Rightarrow> (int \<times> int) option \<Rightarrow> params \<Rightarrow> (tables, json reply \<times> put) prog" where
  "pool_get legacy edge hit ps =
     andThen poolVersion (\<lambda>version.
     case edge (pool_key version ps) of
       Some b \<Rightarrow> ret (fresh 200 (Payload b), None)
     | None \<Rightarrow>
         andThen (loadPool legacy hit \<lparr>lo_sortBy = None, lo_sortDesc = None, lo_family = family_param ps\<rparr>) (\<lambda>d.
         andThen poolVersion (\<lambda>version'.
         if version' \<noteq> version then ret (fresh 503 (Error ''pool changed while loading''), None)
         else let b = pool_body version True d in
           ret (fresh 200 (Payload b), Some (pool_key version ps, b)))))"

text \<open>\<open>GET /api/pool/version\<close>.\<close>

definition version_get :: "(tables, json reply) prog" where
  "version_get = andThen poolVersion (\<lambda>version. ret (fresh 200 (Version version)))"

text \<open>\<open>GET /api/pool/changes\<close>.\<close>

definition changes_key :: "int \<Rightarrow> int \<Rightarrow> params \<Rightarrow> params" where
  "changes_key since ver ps =
     params_set ''v'' (int_text ver) (params_set ''since'' (int_text since) ps)"

definition changes_load ::
  "(string \<Rightarrow> js_date) \<Rightarrow> edge \<Rightarrow> (int \<times> int) option \<Rightarrow> params \<Rightarrow> int \<Rightarrow> int \<Rightarrow> (tables, json reply \<times> put) prog"
where
  "changes_load legacy edge hit ps since ver =
     (case edge (changes_key since ver ps) of
        Some b \<Rightarrow> ret (fresh 200 (Payload b), None)
      | None \<Rightarrow>
          andThen (loadPoolChanges legacy hit since ver) (\<lambda>d.
          andThen poolVersion (\<lambda>version'.
          if version' \<noteq> ver then ret (fresh 503 Retry, None)
          else let b = pool_body ver False d in
            ret (fresh 200 (Payload b), Some (changes_key since ver ps, b)))))"

definition changes_get ::
  "(string \<Rightarrow> js_date) \<Rightarrow> edge \<Rightarrow> (int \<times> int) option \<Rightarrow> params \<Rightarrow> (tables, json reply \<times> put) prog" where
  "changes_get legacy edge hit ps =
     (case since_number (or_else (params_get ''since'' ps) []) of
        None \<Rightarrow> ret (refused (Error ''since must be a non-negative integer''), None)
      | Some since \<Rightarrow>
          andThen poolVersion (\<lambda>version.
          if version < since then ret (fresh 200 (Reset version), None)
          else andThen poolResetVersion (\<lambda>resetVersion.
          if since < resetVersion then ret (fresh 200 (Reset version), None)
          else if since = version then ret (fresh 200 (Unchanged version), None)
          else changes_load legacy edge hit ps since version)))"

section \<open>History\<close>

record check_json =
  u_ok :: bool
  u_rttMs :: int
  u_reason :: string
  u_detail :: string
  u_checkedAt :: "string option"
  u_scanMode :: string

record history_body =
  n_version :: int
  n_reset :: "bool option"
  n_checks :: "check_json list"

datatype history_json = HError string | HRetry | History history_body

definition check_json :: "history_row \<Rightarrow> check_json res" where
  "check_json c =
     (case (case y_checkedAt c of None \<Rightarrow> Inr None | Some d \<Rightarrow>
        (case to_iso_string d of None \<Rightarrow> Inl RangeError | Some s \<Rightarrow> Inr (Some s))) of
        Inl e \<Rightarrow> Inl e
      | Inr checkedAt \<Rightarrow>
          Inr \<lparr>u_ok = y_ok c, u_rttMs = y_rttMs c, u_reason = y_reason c, u_detail = y_detail c,
               u_checkedAt = checkedAt, u_scanMode = y_scanMode c\<rparr>)"

text \<open>The key is built from the address and the version only; \<open>edge\<close> is asked unless a reset is due.\<close>

definition history_key :: "string \<Rightarrow> int \<Rightarrow> params" where
  "history_key ip ver = [(''ip'', ip), (''schema'', ''1''), (''v'', int_text ver)]"

definition history_load ::
  "(string \<Rightarrow> js_date) \<Rightarrow> (params \<Rightarrow> history_body option) \<Rightarrow> string \<Rightarrow> bool \<Rightarrow> int
    \<Rightarrow> (tables, history_json reply \<times> (params \<times> history_body) option) prog"
where
  "history_load legacy edge ip reset ver =
     (case (if reset then None else edge (history_key ip ver)) of
        Some b \<Rightarrow> ret (fresh 200 (History b), None)
      | None \<Rightarrow>
          andThen (ipHistory legacy ip CHECK_HISTORY_RETENTION 0) (\<lambda>rows.
          andThen (ipHistoryVersion ip) (\<lambda>version'.
          if version' \<noteq> ver then ret (fresh 503 HRetry, None)
          else andThen (lift (map_res check_json rows)) (\<lambda>cs.
            let b = \<lparr>n_version = ver, n_reset = Some reset, n_checks = cs\<rparr> in
            ret (fresh 200 (History b), if reset then None else Some (history_key ip ver, b))))))"

definition history_since :: "params \<Rightarrow> int option option" where
  "history_since ps =
     (case params_get ''since'' ps of
        None \<Rightarrow> Some None
      | Some s \<Rightarrow> (case since_number s of None \<Rightarrow> None | Some n \<Rightarrow> Some (Some n)))"

definition history_get ::
  "(string \<Rightarrow> js_date) \<Rightarrow> (params \<Rightarrow> history_body option) \<Rightarrow> params
    \<Rightarrow> (tables, history_json reply \<times> (params \<times> history_body) option) prog"
where
  "history_get legacy edge ps =
     (case normalizeIPAddress (or_else (params_get ''ip'' ps) []) of
        None \<Rightarrow> ret (refused (HError ''invalid ip''), None)
      | Some ip \<Rightarrow>
          (case history_since ps of
             None \<Rightarrow> ret (refused (HError ''since must be a non-negative integer''), None)
           | Some since \<Rightarrow>
               andThen (ipHistoryVersion ip) (\<lambda>version.
               if since = Some version
               then ret (fresh 200 (History \<lparr>n_version = version, n_reset = None, n_checks = []\<rparr>), None)
               else history_load legacy edge ip (case since of None \<Rightarrow> False | Some n \<Rightarrow> version < n) version)))"

end
