(* ===== verification/Resolver.thy ===== *)
theory Resolver
  imports IpAddr JsNumber Html D1
begin

text \<open>
  Name resolution over JSON-form DNS-over-HTTPS: src/src/doh.ts, resolver.ts and asn.ts. The
  HTTP exchange is a parameter \<open>http\<close>: the reply to a URL, or the error fetch rejects with
  (transport failure, or the abort after the time limit, which is therefore not an argument
  here). A record that definitely does not exist is a value, a transient failure an error.
\<close>

section \<open>doh.ts\<close>

record doh_answer =
  da_type :: int
  da_TTL :: int
  da_data :: string

record doh_reply =
  http_ok :: bool
  http_status :: nat
  dns_Status :: int
  dns_Answer :: "doh_answer list option"

type_synonym http = "string \<Rightarrow> doh_reply res"

definition DNSType_A :: int where "DNSType_A = 1"
definition DNSType_PTR :: int where "DNSType_PTR = 12"
definition DNSType_TXT :: int where "DNSType_TXT = 16"
definition DNSType_AAAA :: int where "DNSType_AAAA = 28"

text \<open>\<open>encodeURIComponent\<close> for characters up to U+00FF: the UTF-8 bytes of all but the unreserved ones.\<close>

definition uri_unreserved :: "char \<Rightarrow> bool" where
  "uri_unreserved c =
     (let n = of_char c :: nat in
      (65 \<le> n \<and> n \<le> 90) \<or> (97 \<le> n \<and> n \<le> 122) \<or> (48 \<le> n \<and> n \<le> 57)
      \<or> c \<in> set ''-_.!~*()'' \<or> n = 39)"

definition percent :: "nat \<Rightarrow> string" where
  "percent n = CHR ''%'' # map (\<lambda>d. ''0123456789ABCDEF'' ! d) [n div 16, n mod 16]"

definition encodeURIComponent :: "string \<Rightarrow> string" where
  "encodeURIComponent s = concat (map (\<lambda>c.
     let n = of_char c :: nat in
     if uri_unreserved c then [c]
     else if n < 128 then percent n
     else percent (192 + n div 64) @ percent (128 + n mod 64)) s)"

definition queryDoH :: "http \<Rightarrow> string \<Rightarrow> int \<Rightarrow> string \<Rightarrow> doh_answer list option res" where
  "queryDoH http name type dohUrl =
     (if dohUrl = [] then Inl (JsError ''doh: no endpoint configured'')
      else case http (dohUrl @ ''?name='' @ encodeURIComponent name @ ''&type='' @ int_text type) of
        Inl e \<Rightarrow> Inl e
      | Inr resp \<Rightarrow>
          if \<not> http_ok resp
          then Inl (JsError (''doh '' @ dohUrl @ '': unexpected status '' @ num_str 10 (http_status resp)))
          else if dns_Status resp = 3 then Inr None
          else if dns_Status resp \<noteq> 0
          then Inl (JsError (''doh '' @ dohUrl @ '': status '' @ int_text (dns_Status resp)))
          else Inr (Some (case dns_Answer resp of None \<Rightarrow> [] | Some as \<Rightarrow> as)))"

section \<open>resolver.ts\<close>

text \<open>\<open>s.replace(/\.$/, "")\<close>.\<close>

definition strip_dot :: "string \<Rightarrow> string" where
  "strip_dot s = (if s \<noteq> [] \<and> last s = CHR ''.'' then butlast s else s)"

definition dedupeSorted :: "string list \<Rightarrow> string list" where
  "dedupeSorted names = sort (js_set (filter (\<lambda>n. n \<noteq> []) (map strip_dot names)))"

definition reverseNibblesDotted :: "string \<Rightarrow> string" where
  "reverseNibblesDotted fullHex = join ''.'' (map (\<lambda>c. [c]) (rev fullHex))"

definition invalid_ip :: "string \<Rightarrow> js_error" where
  "invalid_ip ip = JsError (''invalid IP: '' @ ip)"

definition reverseName :: "string \<Rightarrow> string res" where
  "reverseName ip =
     (if CHR ''.'' \<in> set ip \<and> CHR '':'' \<notin> set ip
      then let parts = split_char CHR ''.'' ip in
        if length parts \<noteq> 4 then Inl (invalid_ip ip)
        else Inr (join ''.'' (rev parts) @ ''.in-addr.arpa'')
      else case expandIPv6 ip of
        None \<Rightarrow> Inl (invalid_ip ip)
      | Some full \<Rightarrow> Inr (reverseNibblesDotted full @ ''.ip6.arpa''))"

text \<open>The running minimum of the lookups: 0 stands for nothing observed yet.\<close>

definition observe_ttl :: "int \<Rightarrow> int \<Rightarrow> int" where
  "observe_ttl minSeconds ttl = (if minSeconds = 0 \<or> ttl < minSeconds then ttl else minSeconds)"

record lookup =
  lk_values :: "string list"
  lk_ttlSeconds :: int
  lk_ok :: bool

definition no_lookup :: lookup where
  "no_lookup = \<lparr>lk_values = [], lk_ttlSeconds = 0, lk_ok = False\<rparr>"

definition lookupPTR :: "http \<Rightarrow> string \<Rightarrow> string \<Rightarrow> lookup res" where
  "lookupPTR http ip dohUrl =
     (case reverseName ip of
        Inl e \<Rightarrow> Inl e
      | Inr name \<Rightarrow>
     (case queryDoH http name DNSType_PTR dohUrl of
        Inl e \<Rightarrow> Inl e
      | Inr None \<Rightarrow> Inr no_lookup
      | Inr (Some answers) \<Rightarrow>
          let used = filter (\<lambda>a. da_type a = DNSType_PTR \<and> strip_dot (da_data a) \<noteq> []) answers;
              hostnames = map (\<lambda>a. strip_dot (da_data a)) used
          in Inr (if hostnames = [] then no_lookup
             else \<lparr>lk_values = dedupeSorted hostnames, lk_ttlSeconds = foldl observe_ttl 0 (map da_TTL used), lk_ok = True\<rparr>)))"

text \<open>
  The two queries of lookupHost run at the same time; if both fail, either error may be the one
  that is thrown.
\<close>

record host_lookup =
  hl_ipv4 :: "string list"
  hl_ipv6 :: "string list"
  hl_ttlSeconds :: int
  hl_ok :: bool

definition lookupHost :: "http \<Rightarrow> string \<Rightarrow> string \<Rightarrow> host_lookup res" where
  "lookupHost http host dohUrl =
     (case queryDoH http host DNSType_A dohUrl of
        Inl e \<Rightarrow> Inl e
      | Inr a \<Rightarrow>
     (case queryDoH http host DNSType_AAAA dohUrl of
        Inl e \<Rightarrow> Inl e
      | Inr aaaa \<Rightarrow>
          let aUsed = filter (\<lambda>r. da_type r = DNSType_A) (case a of None \<Rightarrow> [] | Some rs \<Rightarrow> rs);
              aaaaUsed = filter (\<lambda>r. da_type r = DNSType_AAAA) (case aaaa of None \<Rightarrow> [] | Some rs \<Rightarrow> rs);
              v4 = dedupeSorted (map da_data aUsed);
              v6 = dedupeSorted (concat (map (\<lambda>r. case normalizeIPAddress (da_data r) of
                     None \<Rightarrow> [] | Some ip \<Rightarrow> if CHR '':'' \<in> set ip then [ip] else []) aaaaUsed))
          in Inr \<lparr>hl_ipv4 = v4, hl_ipv6 = v6,
                  hl_ttlSeconds = foldl observe_ttl 0 (map da_TTL aUsed @ map da_TTL aaaaUsed),
                  hl_ok = (length v4 + length v6 > 0)\<rparr>))"

text \<open>
  \<open>replace(/^"|"$/g, "")\<close> removes a quote at either end; the text of the match at the start is
  gone before the end is looked at.
\<close>

definition quote :: char where "quote = CHR 0x22"

definition trim_quotes :: "string \<Rightarrow> string" where
  "trim_quotes s =
     (let s = (if s \<noteq> [] \<and> hd s = quote then tl s else s)
      in if s \<noteq> [] \<and> last s = quote then butlast s else s)"

definition unwrapTXT :: "string \<Rightarrow> string" where
  "unwrapTXT data = trim_quotes (concat (split_on [quote, CHR '' '', quote] data))"

definition lookupTXT :: "http \<Rightarrow> string \<Rightarrow> string \<Rightarrow> lookup res" where
  "lookupTXT http name dohUrl =
     (case queryDoH http name DNSType_TXT dohUrl of
        Inl e \<Rightarrow> Inl e
      | Inr None \<Rightarrow> Inr no_lookup
      | Inr (Some answers) \<Rightarrow>
          let used = filter (\<lambda>a. da_type a = DNSType_TXT) answers in
          Inr (if used = [] then no_lookup
            else \<lparr>lk_values = map (\<lambda>a. unwrapTXT (da_data a)) used,
                  lk_ttlSeconds = foldl observe_ttl 0 (map da_TTL used), lk_ok = True\<rparr>))"

section \<open>asn.ts\<close>

record asn_info =
  ai_asn :: int
  ai_asName :: string
  ai_prefix :: string
  ai_country :: string

record asn_lookup =
  al_info :: asn_info
  al_ttlSeconds :: int
  al_ok :: bool

definition empty_asn :: asn_lookup where
  "empty_asn = \<lparr>al_info = \<lparr>ai_asn = 0, ai_asName = [], ai_prefix = [], ai_country = []\<rparr>,
     al_ttlSeconds = 0, al_ok = False\<rparr>"

text \<open>
  The shape test of this file does not bound the four numbers. AS numbers are 32-bit, so
  parseInt is exact on them and prints them back plainly.
\<close>

definition isIPv4_shape :: "string \<Rightarrow> bool" where
  "isIPv4_shape ip =
     (let ps = split_char CHR ''.'' ip in
      length ps = 4 \<and> list_all (\<lambda>p. 1 \<le> length p \<and> length p \<le> 3 \<and> list_all is_digit p) ps)"

definition asn_query :: "string \<Rightarrow> string option" where
  "asn_query ip =
     (if isIPv4_shape ip then Some (join ''.'' (rev (split_char CHR ''.'' ip)) @ ''.origin.asn.cymru.com'')
      else map_option (\<lambda>full. reverseNibblesDotted full @ ''.origin6.asn.cymru.com'') (expandIPv6 ip))"

text \<open>The first word of a trimmed field: \<open>split(/\s+/)[0]\<close>.\<close>

definition first_word :: "string \<Rightarrow> string" where
  "first_word s = takeWhile (\<lambda>c. \<not> is_space c) s"

definition lookupASN :: "http \<Rightarrow> string \<Rightarrow> string \<Rightarrow> asn_lookup res" where
  "lookupASN http ip dohUrl =
     (case asn_query ip of
        None \<Rightarrow> Inr empty_asn
      | Some q \<Rightarrow>
     (case lookupTXT http q dohUrl of
        Inl e \<Rightarrow> Inl e
      | Inr r \<Rightarrow>
          if \<not> lk_ok r \<or> lk_values r = [] then Inr empty_asn
          else let fields = split_char CHR ''|'' (hd (split_char CHR 0x0A (hd (lk_values r)))) in
          if length fields < 3 then Inr empty_asn
          else (case parse_int10 (first_word (trim (fields ! 0))) of
             None \<Rightarrow> Inr empty_asn
           | Some asn \<Rightarrow>
          (case lookupTXT http (''AS'' @ int_text asn @ ''.asn.cymru.com'') dohUrl of
             Inl e \<Rightarrow> Inl e
           | Inr name \<Rightarrow>
               let named = (lk_ok name \<and> lk_values name \<noteq> []);
                   nf = split_char CHR ''|'' (hd (lk_values name));
                   asName = (if named \<and> 5 \<le> length nf then trim (nf ! 4) else []);
                   ttl = (if named \<and> lk_ttlSeconds name < lk_ttlSeconds r then lk_ttlSeconds name else lk_ttlSeconds r)
               in Inr \<lparr>al_info = \<lparr>ai_asn = asn, ai_asName = asName, ai_prefix = trim (fields ! 1),
                         ai_country = trim (fields ! 2)\<rparr>, al_ttlSeconds = ttl, al_ok = True\<rparr>))))"

end
