(* ===== verification/StoreCache.thy ===== *)
theory StoreCache
  imports StoreRead
begin

text \<open>
  The caches of src/src/store.ts (reverse DNS, forward DNS, announced prefixes) with their time to
  live, the choice of addresses due for a reverse lookup, and the rate limiter. \<open>now\<close> is the
  value of Date.now() at the point where the code reads the clock.
\<close>

section \<open>Entries\<close>

record ptr_entry =
  pe_ip :: string
  pe_ptrHostnames :: "string list"
  pe_lookupOk :: bool
  pe_ttlSeconds :: int
  pe_checkedAt :: js_date

record host_entry =
  he_hostname :: string
  he_ipv4 :: "string list"
  he_ipv6 :: "string list"
  he_lookupOk :: bool
  he_ttlSeconds :: int
  he_checkedAt :: js_date

record asn_entry =
  ae_ip :: string
  ae_asn :: int
  ae_asName :: string
  ae_prefix :: string
  ae_country :: string
  ae_lookupOk :: bool
  ae_ttlSeconds :: int
  ae_checkedAt :: js_date

text \<open>
  \<open>Date.now() - checkedAt.getTime() > ttl_seconds * 1000\<close>: a comparison with NaN is false,
  and \<open>getTime\<close> of the null that an empty text gives throws.
\<close>

definition expired :: "int \<Rightarrow> js_date \<Rightarrow> int \<Rightarrow> bool" where
  "expired now checkedAt ttlSeconds =
     (case checkedAt of Invalid_Date \<Rightarrow> False | Time c \<Rightarrow> ttlSeconds * 1000 < now - c)"

definition cached_at ::
    "(string \<Rightarrow> js_date) \<Rightarrow> int \<Rightarrow> string \<Rightarrow> int \<Rightarrow> (js_date \<Rightarrow> 'e) \<Rightarrow> 'e option res" where
  "cached_at legacy now checked_at ttl_seconds entry =
     (case fromSQLiteDateTime legacy (Some checked_at) of
        None \<Rightarrow> Inl TypeError
      | Some checkedAt \<Rightarrow> Inr (if expired now checkedAt ttl_seconds then None else Some (entry checkedAt)))"

section \<open>Reverse lookups\<close>

definition getPTR :: "(string \<Rightarrow> js_date) \<Rightarrow> int \<Rightarrow> string \<Rightarrow> (tables, ptr_entry option) prog" where
  "getPTR legacy now ip =
     andThen (query (\<lambda>t. find_row t_ip ip (ptrs t))) (\<lambda>row.
       case row of
         None \<Rightarrow> ret None
       | Some r \<Rightarrow> lift (cached_at legacy now (t_checked_at r) (t_ttl_seconds r) (\<lambda>checkedAt.
           \<lparr>pe_ip = t_ip r, pe_ptrHostnames = splitStrings (or_else (t_ptr_hostname r) []),
            pe_lookupOk = (t_lookup_ok r \<noteq> 0), pe_ttlSeconds = t_ttl_seconds r,
            pe_checkedAt = checkedAt\<rparr>)))"

definition ptr_stmts :: "ptr_entry \<Rightarrow> stmt list res" where
  "ptr_stmts e =
     (case toSQLiteDateTime (pe_checkedAt e) of
        Inl err \<Rightarrow> Inl err
      | Inr checkedAt \<Rightarrow>
          Inr [PtrUpsert \<lparr>t_ip = pe_ip e, t_ptr_hostname = Some (joinStrings (pe_ptrHostnames e)),
                 t_lookup_ok = (if pe_lookupOk e then 1 else 0), t_ttl_seconds = pe_ttlSeconds e,
                 t_checked_at = checkedAt\<rparr>,
               PtrTouch checkedAt (pe_ip e)])"

definition savePTR :: "ptr_entry \<Rightarrow> (tables, unit) prog" where
  "savePTR e = andThen (lift (ptr_stmts e)) (\<lambda>ss. batch (BumpRevision # ss))"

definition PTR_BATCH_CHUNK :: nat where
  "PTR_BATCH_CHUNK = 400"

definition savePTRBatch :: "ptr_entry list \<Rightarrow> (tables, unit) prog" where
  "savePTRBatch entries =
     (if entries = [] then ret ()
      else each (\<lambda>chunk. andThen (lift (map_res ptr_stmts chunk)) (\<lambda>statements.
                   batch (BumpRevision # concat statements)))
             (chunks PTR_BATCH_CHUNK entries))"

text \<open>SQLite's \<open>datetime('now', '-30 days')\<close> at time \<open>now\<close>: \<open>YYYY-MM-DD HH:MM:SS\<close>.\<close>

definition thirty_days_ago :: "int \<Rightarrow> string" where
  "thirty_days_ago now =
     (let iso = to_iso (now - 30 * ms_per_day) in take 10 iso @ '' '' @ take 8 (drop 11 iso))"

definition unchecked_ips :: "nat \<Rightarrow> tables \<Rightarrow> string list" where
  "unchecked_ips limit t =
     map p_ip (take limit (order_by [(\<lambda>p. sql_text (p_ptr_checked_at p), False)]
       (filter (\<lambda>p. p_ptr_checked_at p = None) (pool t))))"

definition stale_ips :: "string \<Rightarrow> nat \<Rightarrow> tables \<Rightarrow> string list" where
  "stale_ips cutoff limit t =
     map p_ip (take limit (order_by [(\<lambda>p. sql_text (p_ptr_checked_at p), False)]
       (filter (\<lambda>p. case p_ptr_checked_at p of None \<Rightarrow> False | Some s \<Rightarrow> s < cutoff) (pool t))))"

definition pendingIPsForPTRRefresh :: "int \<Rightarrow> nat \<Rightarrow> (tables, string list) prog" where
  "pendingIPsForPTRRefresh now limit =
     andThen (query (unchecked_ips limit)) (\<lambda>unchecked.
       if limit \<le> length unchecked then ret unchecked
       else andThen (query (stale_ips (thirty_days_ago now) (limit - length unchecked))) (\<lambda>stale.
              ret (unchecked @ stale)))"

section \<open>Forward lookups\<close>

definition getHost :: "(string \<Rightarrow> js_date) \<Rightarrow> int \<Rightarrow> string \<Rightarrow> (tables, host_entry option) prog" where
  "getHost legacy now hostname =
     andThen (query (\<lambda>t. find_row h_hostname hostname (hosts t))) (\<lambda>row.
       case row of
         None \<Rightarrow> ret None
       | Some r \<Rightarrow> lift (cached_at legacy now (h_checked_at r) (h_ttl_seconds r) (\<lambda>checkedAt.
           \<lparr>he_hostname = h_hostname r, he_ipv4 = splitStrings (or_else (h_ipv4 r) []),
            he_ipv6 = splitStrings (or_else (h_ipv6 r) []), he_lookupOk = (h_lookup_ok r \<noteq> 0),
            he_ttlSeconds = h_ttl_seconds r, he_checkedAt = checkedAt\<rparr>)))"

definition saveHost :: "host_entry \<Rightarrow> (tables, unit) prog" where
  "saveHost e =
     andThen (lift (toSQLiteDateTime (he_checkedAt e))) (\<lambda>checkedAt.
       batch [HostUpsert \<lparr>h_hostname = he_hostname e, h_ipv4 = Some (joinStrings (he_ipv4 e)),
         h_ipv6 = Some (joinStrings (he_ipv6 e)), h_lookup_ok = (if he_lookupOk e then 1 else 0),
         h_ttl_seconds = he_ttlSeconds e, h_checked_at = checkedAt\<rparr>])"

section \<open>Announced prefixes\<close>

definition covers :: "string \<Rightarrow> string \<Rightarrow> asn_rec \<Rightarrow> bool" where
  "covers ip point r =
     (a_is_ipv6 r = (if str_includes ip '':'' then 1 else 0) \<and> a_range_start r \<le> point
      \<and> point \<le> a_range_end r)"

definition getASN :: "(string \<Rightarrow> js_date) \<Rightarrow> int \<Rightarrow> string \<Rightarrow> (tables, asn_entry option) prog" where
  "getASN legacy now ip =
     (case ipToHex ip of
        None \<Rightarrow> ret None
      | Some point \<Rightarrow>
          andThen (query (\<lambda>t. take 1 (order_by [(\<lambda>r. SInt (a_prefix_len r), True)]
              (filter (covers ip point) (asns t))))) (\<lambda>rows.
            case rows of
              [] \<Rightarrow> ret None
            | r # _ \<Rightarrow> lift (cached_at legacy now (a_checked_at r) (a_ttl_seconds r) (\<lambda>checkedAt.
                \<lparr>ae_ip = ip, ae_asn = or_else (a_asn r) 0, ae_asName = or_else (a_as_name r) [],
                 ae_prefix = a_prefix r, ae_country = or_else (a_country r) [],
                 ae_lookupOk = (a_lookup_ok r \<noteq> 0), ae_ttlSeconds = a_ttl_seconds r,
                 ae_checkedAt = checkedAt\<rparr>))))"

text \<open>\<open>x || null\<close> for a string and for a number.\<close>

definition nonempty :: "string \<Rightarrow> string option" where
  "nonempty s = (if s = [] then None else Some s)"

definition nonzero :: "int \<Rightarrow> int option" where
  "nonzero n = (if n = 0 then None else Some n)"

text \<open>An unparsable prefix is logged and skipped.\<close>

definition saveASN :: "asn_entry \<Rightarrow> (tables, unit) prog" where
  "saveASN e =
     (case prefixToRange (ae_prefix e) of
        None \<Rightarrow> ret ()
      | Some rng \<Rightarrow>
          andThen (lift (toSQLiteDateTime (ae_checkedAt e))) (\<lambda>checkedAt.
            batch [AsnUpsert \<lparr>a_prefix = ae_prefix e, a_is_ipv6 = (if isIPv6 rng then 1 else 0),
              a_range_start = r_start rng, a_range_end = r_end rng,
              a_prefix_len = prefixLen rng, a_asn = nonzero (ae_asn e),
              a_as_name = nonempty (ae_asName e), a_country = nonempty (ae_country e),
              a_lookup_ok = (if ae_lookupOk e then 1 else 0), a_ttl_seconds = ae_ttlSeconds e,
              a_checked_at = checkedAt\<rparr>]))"

section \<open>Rate limiting\<close>

definition rate_key :: "rate_rec \<Rightarrow> string \<times> string \<times> string" where
  "rate_key r = (l_kind r, l_client_ip r, l_window r)"

definition rate_count :: "string \<Rightarrow> string \<Rightarrow> string \<Rightarrow> tables \<Rightarrow> int" where
  "rate_count kind client w t =
     (case find_row rate_key (kind, client, w) (rates t) of None \<Rightarrow> 0 | Some r \<Rightarrow> l_count r)"

definition rate_window :: "int \<Rightarrow> int \<Rightarrow> string res" where
  "rate_window windowMs now =
     (case toSQLiteDateTime (date_of_ms (now div windowMs * windowMs)) of
        Inl e \<Rightarrow> Inl e | Inr s \<Rightarrow> Inr (take 16 s))"

definition checkRateLimit ::
    "int \<Rightarrow> string \<Rightarrow> string \<Rightarrow> int \<Rightarrow> int \<Rightarrow> (tables, bool) prog" where
  "checkRateLimit now kind clientIP limit windowMs =
     andThen (lift (rate_window windowMs now)) (\<lambda>w.
     andThen (batch [RateDelete kind clientIP w]) (\<lambda>_.
     andThen (query (rate_count kind clientIP w)) (\<lambda>count.
       if limit \<le> count then ret False
       else andThen (batch [RateCount kind clientIP w]) (\<lambda>_. ret True))))"

section \<open>Every operation moves along the steps\<close>

lemma ptr_stmts_pair: "ptr_stmts e = Inr ss \<Longrightarrow> \<exists>r. ss = ptr_pair r"
  by (auto simp: ptr_stmts_def ptr_pair_def split: sum.splits)

lemma map_ptr_stmts:
  "map_res ptr_stmts es = Inr sss \<Longrightarrow> \<exists>rs. concat sss = concat (map ptr_pair rs)"
proof (induction es arbitrary: sss)
  case (Cons e es)
  then obtain ss sss' where s: "ptr_stmts e = Inr ss" "map_res ptr_stmts es = Inr sss'" "sss = ss # sss'"
    by (auto split: sum.splits)
  from ptr_stmts_pair [OF s(1)] obtain r where "ss = ptr_pair r" by blast
  moreover from Cons.IH [OF s(2)] obtain rs where "concat sss' = concat (map ptr_pair rs)" by blast
  ultimately show ?case using s(3) by (intro exI [of _ "r # rs"]) simp
qed (auto intro: exI [of _ "[]"])

lemma stays_ptr_batch:
  "(\<And>ss. r = Inr ss \<Longrightarrow> \<exists>rs. f ss = concat (map ptr_pair rs)) \<Longrightarrow>
    db.stays (andThen (lift r) (\<lambda>ss. batch (BumpRevision # f ss)))"
  by (rule stays_lift_batch) (metis db_step.ptr_batch)

lemma stays_savePTR: "db.stays (savePTR e)"
  unfolding savePTR_def
proof (rule stays_ptr_batch)
  fix ss assume "ptr_stmts e = Inr ss"
  then obtain r where "ss = ptr_pair r" using ptr_stmts_pair by blast
  then show "\<exists>rs. ss = concat (map ptr_pair rs)" by (intro exI [of _ "[r]"]) simp
qed

lemma stays_savePTRBatch: "db.stays (savePTRBatch es)"
  unfolding savePTRBatch_def by (auto intro!: db.stays_each stays_ptr_batch dest: map_ptr_stmts)

lemma stays_saveHost: "db.stays (saveHost e)"
  unfolding saveHost_def by (intro db.stays_bind db.stays_lift stays_batch db_step.host_save)

lemma stays_saveASN: "db.stays (saveASN e)"
  unfolding saveASN_def
  by (cases "prefixToRange (ae_prefix e)") (auto intro!: db.stays_bind db.stays_lift stays_batch db_step.asn_save)

lemma stays_checkRateLimit: "db.stays (checkRateLimit now kind clientIP limit windowMs)"
  unfolding checkRateLimit_def
  by (intro db.stays_bind db.stays_lift stays_batch db_step.rate_delete db.stays_query)
    (auto intro!: stays_batch db_step.rate_count)

lemma stays_getPTR: "db.stays (getPTR legacy now ip)"
  unfolding getPTR_def by (intro db.stays_bind db.stays_query) (auto split: option.split)

lemma stays_getHost: "db.stays (getHost legacy now h)"
  unfolding getHost_def by (intro db.stays_bind db.stays_query) (auto split: option.split)

lemma stays_getASN: "db.stays (getASN legacy now ip)"
proof (cases "ipToHex ip")
  case (Some point)
  then show ?thesis
    unfolding getASN_def Some option.case by (intro db.stays_bind db.stays_query) (auto split: list.split)
qed (auto simp: getASN_def)

end
