(* ===== verification/CacheLaws.thy ===== *)
theory CacheLaws
  imports StoreCache
begin

text \<open>
  What the caches of src/src/store.ts promise: an entry that was saved is served, unchanged, until
  its time to live is over, whatever else is saved under other keys; an address finds the most
  specific announced prefix that covers it; the rate limiter admits exactly the first requests
  of a window; and the reverse lookups that are due are found oldest first.
\<close>

section \<open>A cache with times to live\<close>

locale ttl_cache =
  fixes put :: "'e \<Rightarrow> 't \<Rightarrow> 't" and get :: "int \<Rightarrow> 'k \<Rightarrow> 't \<Rightarrow> 'e option res"
    and key :: "'e \<Rightarrow> 'k" and checked ttl :: "'e \<Rightarrow> int" and good :: "'e \<Rightarrow> bool"
  assumes get_put: "good e \<Longrightarrow> get now k (put e t) =
    (if k = key e then Inr (if ttl e * 1000 < now - checked e then None else Some e) else get now k t)"
begin

lemma get_puts:
  "\<forall>e \<in> set es. good e \<Longrightarrow> get now k (fold put es t) =
    (case find (\<lambda>e. key e = k) (rev es) of
       None \<Rightarrow> get now k t
     | Some e \<Rightarrow> Inr (if ttl e * 1000 < now - checked e then None else Some e))"
proof (induction es rule: rev_induct)
  case (snoc e es)
  then show ?case by (cases "key e = k") (auto simp: get_put)
qed simp

text \<open>Once an entry is too old it stays so: a later look finds nothing either.\<close>

lemma stays_expired:
  "good e \<Longrightarrow> get now (key e) (put e t) = Inr None \<Longrightarrow> now \<le> later \<Longrightarrow> get later (key e) (put e t) = Inr None"
  by (auto simp: get_put split: if_splits)

end

lemma stored_date:
  assumes "\<bar>c\<bar> \<le> 8640000000000000"
  shows "cached_at legacy now (to_iso c) ttl entry =
    Inr (if ttl * 1000 < now - c then None else Some (entry (Time c)))"
proof -
  have "to_iso c \<noteq> []" by (simp add: to_iso_def iso_text_def)
  with new_date_to_iso [OF assms] show ?thesis
    by (simp add: cached_at_def fromSQLiteDateTime_def expired_def)
qed

section \<open>The cache of reverse lookups\<close>

definition ptr_lookup ::
    "(string \<Rightarrow> js_date) \<Rightarrow> int \<Rightarrow> string \<Rightarrow> ptr_rec list \<Rightarrow> ptr_entry option res" where
  "ptr_lookup legacy now ip rows =
     (case find_row t_ip ip rows of
        None \<Rightarrow> Inr None
      | Some r \<Rightarrow> cached_at legacy now (t_checked_at r) (t_ttl_seconds r) (\<lambda>checkedAt.
           \<lparr>pe_ip = t_ip r, pe_ptrHostnames = splitStrings (or_else (t_ptr_hostname r) []),
            pe_lookupOk = (t_lookup_ok r \<noteq> 0), pe_ttlSeconds = t_ttl_seconds r,
            pe_checkedAt = checkedAt\<rparr>))"

lemma getPTR_quiet: "getPTR legacy now ip (quiet t) = (ptr_lookup legacy now ip (ptrs t), quiet t)"
  by (simp add: getPTR_def ptr_lookup_def d1_defs split: option.split)

definition ptr_row :: "ptr_entry \<Rightarrow> ptr_rec" where
  "ptr_row e =
     \<lparr>t_ip = pe_ip e, t_ptr_hostname = Some (joinStrings (pe_ptrHostnames e)),
      t_lookup_ok = (if pe_lookupOk e then 1 else 0), t_ttl_seconds = pe_ttlSeconds e,
      t_checked_at = to_iso (ms (pe_checkedAt e))\<rparr>"

definition ptr_put :: "ptr_entry \<Rightarrow> ptr_rec list \<Rightarrow> ptr_rec list" where
  "ptr_put e rows = upsert t_ip (ptr_row e)
     (\<lambda>r. r\<lparr>t_ptr_hostname := t_ptr_hostname (ptr_row e), t_lookup_ok := t_lookup_ok (ptr_row e),
        t_ttl_seconds := t_ttl_seconds (ptr_row e), t_checked_at := t_checked_at (ptr_row e)\<rparr>) rows"

definition good_date :: "js_date \<Rightarrow> bool" where
  "good_date d = (d \<noteq> Invalid_Date \<and> \<bar>ms d\<bar> \<le> 8640000000000000)"

definition ptr_good :: "ptr_entry \<Rightarrow> bool" where
  "ptr_good e = (packable (pe_ptrHostnames e) \<and> good_date (pe_checkedAt e))"

lemma good_dateE: "good_date d \<Longrightarrow> (\<And>c. d = Time c \<Longrightarrow> \<bar>c\<bar> \<le> 8640000000000000 \<Longrightarrow> P) \<Longrightarrow> P"
  by (cases d) (auto simp: good_date_def)

interpretation ptr: ttl_cache ptr_put "ptr_lookup legacy" pe_ip "ms \<circ> pe_checkedAt" pe_ttlSeconds ptr_good
  for legacy
proof
  fix e now k t
  assume e: "ptr_good e"
  then obtain c where c: "pe_checkedAt e = Time c" "\<bar>c\<bar> \<le> 8640000000000000"
    by (auto simp: ptr_good_def elim: good_dateE)
  have s: "splitStrings (joinStrings (pe_ptrHostnames e)) = pe_ptrHostnames e"
    using e by (simp add: ptr_good_def unpack_pack)
  have find: "find_row t_ip k (ptr_put e t) = (if k = pe_ip e then Some (ptr_row e) else find_row t_ip k t)"
    unfolding ptr_put_def by (subst find_row_upsert) (auto simp: ptr_row_def split: option.split dest: find_row_Some)
  show "ptr_lookup legacy now k (ptr_put e t) =
    (if k = pe_ip e then Inr (if pe_ttlSeconds e * 1000 < now - (ms \<circ> pe_checkedAt) e then None else Some e)
     else ptr_lookup legacy now k t)"
  proof (cases "k = pe_ip e")
    case True
    have "ptr_lookup legacy now k (ptr_put e t) = cached_at legacy now (to_iso c) (pe_ttlSeconds e) (\<lambda>d.
        \<lparr>pe_ip = pe_ip e, pe_ptrHostnames = pe_ptrHostnames e, pe_lookupOk = pe_lookupOk e,
         pe_ttlSeconds = pe_ttlSeconds e, pe_checkedAt = d\<rparr>)"
      unfolding ptr_lookup_def find if_P [OF True] option.case by (simp add: ptr_row_def c s or_else_def)
    also have "\<dots> = Inr (if pe_ttlSeconds e * 1000 < now - c then None else Some e)"
      using c by (simp add: stored_date)
    finally show ?thesis using True c by simp
  next
    case False
    then show ?thesis by (simp add: ptr_lookup_def find)
  qed
qed

lemma ptr_stmts_good: "ptr_good e \<Longrightarrow> ptr_stmts e = Inr (ptr_pair (ptr_row e))"
  by (auto simp: ptr_good_def ptr_stmts_def ptr_pair_def ptr_row_def toSQLiteDateTime_def elim: good_dateE)

lemma ptrs_ptr_batch:
  "ptrs (run_batch (BumpRevision # concat (map (\<lambda>e. ptr_pair (ptr_row e)) es)) t) = fold ptr_put es (ptrs t)"
proof -
  have "ptrs (run_batch (concat (map (\<lambda>e. ptr_pair (ptr_row e)) es)) t) = fold ptr_put es (ptrs t)" for t
  proof (induction es arbitrary: t)
    case (Cons e es)
    have "ptrs (run_batch (ptr_pair (ptr_row e)) t) = ptr_put e (ptrs t)"
      by (simp add: ptr_pair_def ptr_put_def ptr_row_def)
    with Cons show ?case by (simp del: run_stmt.simps)
  qed simp
  then show ?thesis by simp
qed

lemma map_ptr_stmts_good:
  "\<forall>e \<in> set es. ptr_good e \<Longrightarrow> map_res ptr_stmts es = Inr (map (\<lambda>e. ptr_pair (ptr_row e)) es)"
  by (intro map_res_pure) (simp add: ptr_stmts_good)

definition save_chunk :: "ptr_entry list \<Rightarrow> tables \<Rightarrow> tables" where
  "save_chunk chunk = run_batch (BumpRevision # concat (map (\<lambda>e. ptr_pair (ptr_row e)) chunk))"

lemma savePTRBatch_run:
  assumes "\<forall>e \<in> set es. ptr_good e"
  shows "savePTRBatch es (quiet t) = (Inr (), quiet (fold save_chunk (chunks PTR_BATCH_CHUNK es) t))"
proof -
  let ?f = "\<lambda>chunk. andThen (lift (map_res ptr_stmts chunk)) (\<lambda>ss. batch (BumpRevision # concat ss))"
  have "?f c (quiet t) = (Inr (), quiet (save_chunk c t))" if "c \<in> set (chunks PTR_BATCH_CHUNK es)" for c t
  proof -
    have "\<forall>e \<in> set c. ptr_good e" using assms chunks_elem [OF that] by blast
    then show ?thesis by (simp add: map_ptr_stmts_good d1_defs batch_def save_chunk_def del: run_batch_simps)
  qed
  then have "each ?f (chunks PTR_BATCH_CHUNK es) (quiet t) = (Inr (), quiet (fold save_chunk (chunks PTR_BATCH_CHUNK es) t))"
    by (rule each_quiet)
  then show ?thesis by (cases "es = []") (simp_all add: savePTRBatch_def ret_def)
qed

lemma save_chunks_ptrs: "ptrs (fold save_chunk (chunks PTR_BATCH_CHUNK es) t) = fold ptr_put es (ptrs t)"
proof -
  have "ptrs (fold save_chunk css t) = fold ptr_put (concat css) (ptrs t)" for css
    by (induction css arbitrary: t)
      (simp_all only: fold.simps comp_apply id_apply concat.simps fold_append save_chunk_def ptrs_ptr_batch)
  moreover have "concat (chunks PTR_BATCH_CHUNK es) = es" by (simp add: PTR_BATCH_CHUNK_def)
  ultimately show ?thesis by metis
qed

lemma savePTRBatch_quiet:
  assumes "\<forall>e \<in> set es. ptr_good e"
  shows "\<exists>u. savePTRBatch es (quiet t) = (Inr (), quiet u) \<and> ptrs u = fold ptr_put es (ptrs t)"
  using savePTRBatch_run [OF assms, of t] save_chunks_ptrs by blast

text \<open>
  C36: after savePTRBatch, getPTR answers with the last entry saved for the address, unchanged,
  as long as its time to live lasts, and with nothing afterwards; other addresses read as
  before, however the entries were cut into batches.
\<close>

theorem ptr_cache_served:
  assumes "\<forall>e \<in> set es. packable (pe_ptrHostnames e) \<and> good_date (pe_checkedAt e)"
  shows "\<exists>u. savePTRBatch es (quiet t) = (Inr (), quiet u) \<and>
    (\<forall>now ip. fst (getPTR legacy now ip (quiet u)) =
       (case find (\<lambda>e. pe_ip e = ip) (rev es) of
          None \<Rightarrow> fst (getPTR legacy now ip (quiet t))
        | Some e \<Rightarrow> Inr (if pe_ttlSeconds e * 1000 < now - ms (pe_checkedAt e) then None else Some e)))"
proof -
  have good: "\<forall>e \<in> set es. ptr_good e" using assms by (simp add: ptr_good_def)
  from savePTRBatch_quiet [OF good] obtain u where
    "savePTRBatch es (quiet t) = (Inr (), quiet u)" "ptrs u = fold ptr_put es (ptrs t)" by blast
  with ptr.get_puts [OF good] show ?thesis
    by (intro exI [of _ u]) (simp add: getPTR_quiet split: option.split)
qed

definition sample_ptr :: "string \<Rightarrow> string list \<Rightarrow> int \<Rightarrow> ptr_entry" where
  "sample_ptr ip names c =
     \<lparr>pe_ip = ip, pe_ptrHostnames = names, pe_lookupOk = True, pe_ttlSeconds = 3600, pe_checkedAt = Time c\<rparr>"

theorem ptr_cache_served_witness:
  "\<exists>u. fst (getPTR (\<lambda>_. Invalid_Date) 3600000 ''8.8.8.8'' (quiet u))
      = Inr (Some (sample_ptr ''8.8.8.8'' [''dns.google'', ''b''] 0))
    \<and> fst (getPTR (\<lambda>_. Invalid_Date) 3600001 ''8.8.8.8'' (quiet u)) = Inr None"
proof -
  let ?es = "[sample_ptr ''8.8.8.8'' [] 0, sample_ptr ''1.1.1.1'' [''one''] 0,
    sample_ptr ''8.8.8.8'' [''dns.google'', ''b''] 0]"
  have "\<forall>e \<in> set ?es. packable (pe_ptrHostnames e) \<and> good_date (pe_checkedAt e)"
    by (simp add: sample_ptr_def packable_def good_date_def str_includes_def starts_with_def)
  from ptr_cache_served [OF this, of empty_db "\<lambda>_. Invalid_Date"] obtain u where
    u: "\<forall>now ip. fst (getPTR (\<lambda>_. Invalid_Date) now ip (quiet u)) =
       (case find (\<lambda>e. pe_ip e = ip) (rev ?es) of
          None \<Rightarrow> fst (getPTR (\<lambda>_. Invalid_Date) now ip (quiet empty_db))
        | Some e \<Rightarrow> Inr (if pe_ttlSeconds e * 1000 < now - ms (pe_checkedAt e) then None else Some e))" by blast
  show ?thesis by (intro exI [of _ u]) (simp only: u, simp add: sample_ptr_def)
qed

section \<open>The cache of forward lookups\<close>

definition host_lookup ::
    "(string \<Rightarrow> js_date) \<Rightarrow> int \<Rightarrow> string \<Rightarrow> host_rec list \<Rightarrow> host_entry option res" where
  "host_lookup legacy now hostname rows =
     (case find_row h_hostname hostname rows of
        None \<Rightarrow> Inr None
      | Some r \<Rightarrow> cached_at legacy now (h_checked_at r) (h_ttl_seconds r) (\<lambda>checkedAt.
           \<lparr>he_hostname = h_hostname r, he_ipv4 = splitStrings (or_else (h_ipv4 r) []),
            he_ipv6 = splitStrings (or_else (h_ipv6 r) []), he_lookupOk = (h_lookup_ok r \<noteq> 0),
            he_ttlSeconds = h_ttl_seconds r, he_checkedAt = checkedAt\<rparr>))"

lemma getHost_quiet: "getHost legacy now h (quiet t) = (host_lookup legacy now h (hosts t), quiet t)"
  by (simp add: getHost_def host_lookup_def d1_defs split: option.split)

definition host_row :: "host_entry \<Rightarrow> host_rec" where
  "host_row e =
     \<lparr>h_hostname = he_hostname e, h_ipv4 = Some (joinStrings (he_ipv4 e)),
      h_ipv6 = Some (joinStrings (he_ipv6 e)), h_lookup_ok = (if he_lookupOk e then 1 else 0),
      h_ttl_seconds = he_ttlSeconds e, h_checked_at = to_iso (ms (he_checkedAt e))\<rparr>"

definition host_put :: "host_entry \<Rightarrow> host_rec list \<Rightarrow> host_rec list" where
  "host_put e rows = upsert h_hostname (host_row e)
     (\<lambda>r. r\<lparr>h_ipv4 := h_ipv4 (host_row e), h_ipv6 := h_ipv6 (host_row e),
        h_lookup_ok := h_lookup_ok (host_row e), h_ttl_seconds := h_ttl_seconds (host_row e),
        h_checked_at := h_checked_at (host_row e)\<rparr>) rows"

definition host_good :: "host_entry \<Rightarrow> bool" where
  "host_good e = (packable (he_ipv4 e) \<and> packable (he_ipv6 e) \<and> good_date (he_checkedAt e))"

interpretation host: ttl_cache host_put "host_lookup legacy" he_hostname "ms \<circ> he_checkedAt" he_ttlSeconds host_good
  for legacy
proof
  fix e now k t
  assume e: "host_good e"
  then obtain c where c: "he_checkedAt e = Time c" "\<bar>c\<bar> \<le> 8640000000000000"
    by (auto simp: host_good_def elim: good_dateE)
  have s: "splitStrings (joinStrings (he_ipv4 e)) = he_ipv4 e" "splitStrings (joinStrings (he_ipv6 e)) = he_ipv6 e"
    using e by (simp_all add: host_good_def unpack_pack)
  have find: "find_row h_hostname k (host_put e t)
      = (if k = he_hostname e then Some (host_row e) else find_row h_hostname k t)"
    unfolding host_put_def
    by (subst find_row_upsert) (auto simp: host_row_def split: option.split dest: find_row_Some)
  show "host_lookup legacy now k (host_put e t) =
    (if k = he_hostname e then Inr (if he_ttlSeconds e * 1000 < now - (ms \<circ> he_checkedAt) e then None else Some e)
     else host_lookup legacy now k t)"
  proof (cases "k = he_hostname e")
    case True
    have "host_lookup legacy now k (host_put e t) = cached_at legacy now (to_iso c) (he_ttlSeconds e) (\<lambda>d.
        \<lparr>he_hostname = he_hostname e, he_ipv4 = he_ipv4 e, he_ipv6 = he_ipv6 e, he_lookupOk = he_lookupOk e,
         he_ttlSeconds = he_ttlSeconds e, he_checkedAt = d\<rparr>)"
      unfolding host_lookup_def find if_P [OF True] option.case by (simp add: host_row_def c s or_else_def)
    also have "\<dots> = Inr (if he_ttlSeconds e * 1000 < now - c then None else Some e)"
      using c by (simp add: stored_date)
    finally show ?thesis using True c by simp
  next
    case False
    then show ?thesis by (simp add: host_lookup_def find)
  qed
qed

lemma saveHost_quiet:
  "host_good e \<Longrightarrow> \<exists>u. saveHost e (quiet t) = (Inr (), quiet u) \<and> hosts u = host_put e (hosts t)"
  by (auto simp: host_good_def saveHost_def toSQLiteDateTime_def d1_defs batch_def host_put_def host_row_def
      elim!: good_dateE)

text \<open>
  Saving forward lookups one after the other, getHost answers for each host name with its
  last entry until the time to live is over; nothing else is lost or changed.
\<close>

theorem host_cache_served:
  assumes "\<forall>e \<in> set es. packable (he_ipv4 e) \<and> packable (he_ipv6 e) \<and> good_date (he_checkedAt e)"
  shows "\<exists>u. each saveHost es (quiet t) = (Inr (), quiet u) \<and>
    (\<forall>now h. fst (getHost legacy now h (quiet u)) =
       (case find (\<lambda>e. he_hostname e = h) (rev es) of
          None \<Rightarrow> fst (getHost legacy now h (quiet t))
        | Some e \<Rightarrow> Inr (if he_ttlSeconds e * 1000 < now - ms (he_checkedAt e) then None else Some e)))"
proof -
  have good: "\<forall>e \<in> set es. host_good e" using assms by (simp add: host_good_def)
  then have "\<exists>u. each saveHost es (quiet t) = (Inr (), quiet u) \<and> hosts u = fold host_put es (hosts t)"
  proof (induction es arbitrary: t)
    case (Cons e es)
    then obtain u where "saveHost e (quiet t) = (Inr (), quiet u)" "hosts u = host_put e (hosts t)"
      using saveHost_quiet by fastforce
    with Cons.IH [of u] Cons.prems show ?case by (simp add: d1_defs)
  qed (auto simp: ret_def)
  with host.get_puts [OF good] show ?thesis
    by (elim exE conjE) (rule exI, rule conjI, assumption, simp add: getHost_quiet split: option.split)
qed

theorem host_cache_served_witness:
  "\<exists>u. fst (getHost (\<lambda>_. Invalid_Date) 3600000 ''a.1e100.net'' (quiet u))
      = Inr (Some \<lparr>he_hostname = ''a.1e100.net'', he_ipv4 = [''8.8.8.8'', ''8.8.4.4''], he_ipv6 = [],
          he_lookupOk = True, he_ttlSeconds = 3600, he_checkedAt = Time 0\<rparr>)"
proof -
  let ?e = "\<lparr>he_hostname = ''a.1e100.net'', he_ipv4 = [''8.8.8.8'', ''8.8.4.4''], he_ipv6 = [],
          he_lookupOk = True, he_ttlSeconds = 3600, he_checkedAt = Time 0\<rparr>"
  have "\<forall>e \<in> set [?e]. packable (he_ipv4 e) \<and> packable (he_ipv6 e) \<and> good_date (he_checkedAt e)"
    by (simp add: packable_def good_date_def str_includes_def starts_with_def)
  from host_cache_served [OF this, of empty_db "\<lambda>_. Invalid_Date"] obtain u where
    u: "\<forall>now h. fst (getHost (\<lambda>_. Invalid_Date) now h (quiet u)) =
       (case find (\<lambda>e. he_hostname e = h) (rev [?e]) of
          None \<Rightarrow> fst (getHost (\<lambda>_. Invalid_Date) now h (quiet empty_db))
        | Some e \<Rightarrow> Inr (if he_ttlSeconds e * 1000 < now - ms (he_checkedAt e) then None else Some e))" by blast
  show ?thesis by (intro exI [of _ u]) (simp only: u, simp)
qed

section \<open>The longest matching prefix\<close>

text \<open>Every row of asn_cache carries the range of its prefix: saveASN writes no other.\<close>

definition asn_row_ok :: "asn_rec \<Rightarrow> bool" where
  "asn_row_ok r \<longleftrightarrow> (\<exists>rng. prefixToRange (a_prefix r) = Some rng \<and> a_is_ipv6 r = (if isIPv6 rng then 1 else 0)
     \<and> a_range_start r = r_start rng \<and> a_range_end r = r_end rng \<and> a_prefix_len r = prefixLen rng)"

definition asns_ok :: "tables \<Rightarrow> bool" where
  "asns_ok t \<longleftrightarrow> (\<forall>r \<in> set (asns t). asn_row_ok r)"

definition asn_row :: "asn_entry \<Rightarrow> ip_range \<Rightarrow> asn_rec" where
  "asn_row e rng =
     \<lparr>a_prefix = ae_prefix e, a_is_ipv6 = (if isIPv6 rng then 1 else 0), a_range_start = r_start rng,
      a_range_end = r_end rng, a_prefix_len = prefixLen rng, a_asn = nonzero (ae_asn e),
      a_as_name = nonempty (ae_asName e), a_country = nonempty (ae_country e),
      a_lookup_ok = (if ae_lookupOk e then 1 else 0), a_ttl_seconds = ae_ttlSeconds e,
      a_checked_at = to_iso (ms (ae_checkedAt e))\<rparr>"

lemma saveASN_quiet:
  assumes "prefixToRange (ae_prefix e) = Some rng" "good_date (ae_checkedAt e)" "asns_ok t"
  shows "\<exists>u. saveASN e (quiet t) = (Inr (), quiet u) \<and> asns_ok u
    \<and> asn_row e rng \<in> set (asns u)
    \<and> (\<forall>r \<in> set (asns u). r = asn_row e rng \<or> (r \<in> set (asns t) \<and> a_prefix r \<noteq> ae_prefix e))
    \<and> (\<forall>r \<in> set (asns t). a_prefix r \<noteq> ae_prefix e \<longrightarrow> r \<in> set (asns u))"
proof -
  let ?n = "asn_row e rng"
  let ?m = "\<lambda>r. r\<lparr>a_asn := a_asn ?n, a_as_name := a_as_name ?n, a_country := a_country ?n,
      a_lookup_ok := a_lookup_ok ?n, a_ttl_seconds := a_ttl_seconds ?n, a_checked_at := a_checked_at ?n\<rparr>"
  let ?u = "t\<lparr>asns := upsert a_prefix ?n ?m (asns t)\<rparr>"
  have run: "saveASN e (quiet t) = (Inr (), quiet ?u)"
    using assms(1,2)
    by (auto simp: saveASN_def toSQLiteDateTime_def d1_defs batch_def asn_row_def elim!: good_dateE)
  have n: "asn_row_ok ?n" using assms(1) by (simp add: asn_row_ok_def asn_row_def)
  have m: "?m r = ?n" if "r \<in> set (asns t)" "a_prefix r = ae_prefix e" for r
    using that assms(1,3) by (auto simp: asns_ok_def asn_row_ok_def asn_row_def)
  have p: "a_prefix ?n = ae_prefix e" by (simp add: asn_row_def)
  have mem: "\<forall>r \<in> set (asns ?u). r = ?n \<or> (r \<in> set (asns t) \<and> a_prefix r \<noteq> ae_prefix e)"
    and new: "?n \<in> set (asns ?u)"
    and old: "\<forall>r \<in> set (asns t). a_prefix r \<noteq> ae_prefix e \<longrightarrow> r \<in> set (asns ?u)"
    using m by (auto simp: upsert_def p list_ex_iff image_iff)
  have "asns_ok ?u" unfolding asns_ok_def using mem n assms(3) by (auto simp: asns_ok_def)
  with run mem new old show ?thesis by blast
qed

lemma take1_order_by:
  assumes "r \<in> set rows" "\<forall>q \<in> set rows. q \<noteq> r \<longrightarrow> key q < key r"
  shows "take 1 (order_by [(\<lambda>r. SInt (key r), True)] rows) = [r]"
proof -
  let ?s = "order_by [(\<lambda>r. SInt (key r), True)] rows"
  obtain q qs where s: "?s = q # qs" using assms(1) by (cases ?s) (auto dest: arg_cong [where f = set])
  have "r = q"
  proof (rule ccontr)
    assume ne: "r \<noteq> q"
    have "set (q # qs) = set rows" using s by (metis set_order_by)
    then have "q \<in> set rows" "r \<in> set qs" using assms(1) ne by auto
    with sql.sort_sorted [of "[(\<lambda>r. SInt (key r), True)]" rows] s
    have "\<not> order_before [(\<lambda>r. SInt (key r), True)] r q" by (simp add: order_by_def)
    moreover have "key q < key r" using assms(2) ne \<open>q \<in> set rows\<close> by auto
    ultimately show False by (simp add: less_sql_val_def)
  qed
  with s show ?thesis by simp
qed

lemma saved_asn_served:
  assumes "asns_ok t" "prefixToRange (ae_prefix e) = Some rng" "good_date (ae_checkedAt e)"
    and "ipToHex ip = Some h" "isIPv6 rng = str_includes ip '':''" "r_start rng \<le> h" "h \<le> r_end rng"
    and "\<forall>r \<in> set (asns t). covers ip h r \<and> a_prefix r \<noteq> ae_prefix e \<longrightarrow> a_prefix_len r < prefixLen rng"
  shows "\<exists>u. saveASN e (quiet t) = (Inr (), quiet u) \<and> asns_ok u \<and>
    (\<forall>now. fst (getASN legacy now ip (quiet u)) =
       Inr (if ae_ttlSeconds e * 1000 < now - ms (ae_checkedAt e) then None else Some (e\<lparr>ae_ip := ip\<rparr>)))"
proof -
  from saveASN_quiet [OF assms(2,3,1)] obtain u where
    u: "saveASN e (quiet t) = (Inr (), quiet u)" "asns_ok u" "asn_row e rng \<in> set (asns u)"
    "\<forall>r \<in> set (asns u). r = asn_row e rng \<or> (r \<in> set (asns t) \<and> a_prefix r \<noteq> ae_prefix e)" by blast
  have "covers ip h (asn_row e rng)" using assms(5-7) by (simp add: covers_def asn_row_def)
  moreover have "a_prefix_len r < prefixLen rng"
    if "r \<in> set (asns u)" "covers ip h r" "r \<noteq> asn_row e rng" for r
    using u(4) assms(8) that by blast
  ultimately have top: "take 1 (order_by [(\<lambda>r. SInt (a_prefix_len r), True)] (filter (covers ip h) (asns u)))
      = [asn_row e rng]"
    using u(3) by (intro take1_order_by) (auto simp: asn_row_def)
  obtain c where c: "ae_checkedAt e = Time c" "\<bar>c\<bar> \<le> 8640000000000000"
    using assms(3) by (rule good_dateE)
  have "fst (getASN legacy now ip (quiet u)) = cached_at legacy now (to_iso c) (ae_ttlSeconds e) (\<lambda>d.
      \<lparr>ae_ip = ip, ae_asn = ae_asn e, ae_asName = ae_asName e, ae_prefix = ae_prefix e,
       ae_country = ae_country e, ae_lookupOk = ae_lookupOk e, ae_ttlSeconds = ae_ttlSeconds e,
       ae_checkedAt = d\<rparr>)" for now
    unfolding getASN_def assms(4) option.case
    by (simp add: d1_defs top [simplified]) (simp add: asn_row_def c or_else_def nonzero_def nonempty_def)
  then have "fst (getASN legacy now ip (quiet u)) =
       Inr (if ae_ttlSeconds e * 1000 < now - ms (ae_checkedAt e) then None else Some (e\<lparr>ae_ip := ip\<rparr>))" for now
    using c(1) by (simp only: stored_date [OF c(2)]) simp
  with u(1,2) show ?thesis by blast
qed

text \<open>
  C35: once saveASN has stored a prefix, getASN answers for every address inside its range with
  that entry (under the address asked for) until its time to live is over, unless a longer
  stored prefix covers the address too.
\<close>

theorem asn_longest_match:
  assumes "asns_ok t" "prefixToRange (ae_prefix e) = Some rng" "good_date (ae_checkedAt e)"
    and "ipToHex ip = Some h" "isIPv6 rng = str_includes ip '':''" "r_start rng \<le> h" "h \<le> r_end rng"
    and "\<forall>r \<in> set (asns t). covers ip h r \<and> a_prefix r \<noteq> ae_prefix e \<longrightarrow> a_prefix_len r < prefixLen rng"
  shows "\<exists>u. saveASN e (quiet t) = (Inr (), quiet u) \<and> asns_ok u \<and>
    (\<forall>now. fst (getASN legacy now ip (quiet u)) =
       Inr (if ae_ttlSeconds e * 1000 < now - ms (ae_checkedAt e) then None else Some (e\<lparr>ae_ip := ip\<rparr>)))"
  by (rule saved_asn_served [OF assms])

theorem asn_longest_match_witness:
  "\<exists>u. fst (getASN (\<lambda>_. Invalid_Date) 0 ''8.8.8.1'' (quiet u)) =
     Inr (Some \<lparr>ae_ip = ''8.8.8.1'', ae_asn = 15169, ae_asName = ''GOOGLE'', ae_prefix = ''8.8.8.77/24'',
       ae_country = ''US'', ae_lookupOk = True, ae_ttlSeconds = 3600, ae_checkedAt = Time 0\<rparr>)"
proof -
  let ?e = "\<lparr>ae_ip = ''8.8.8.77'', ae_asn = 15169, ae_asName = ''GOOGLE'', ae_prefix = ''8.8.8.77/24'',
       ae_country = ''US'', ae_lookupOk = True, ae_ttlSeconds = 3600, ae_checkedAt = Time 0\<rparr>"
  let ?r = "\<lparr>r_start = ''00000000000000000000000008080800'',
      r_end = ''000000000000000000000000080808ff'', prefixLen = 24, isIPv6 = False\<rparr>"
  have "asns_ok empty_db" by (simp add: asns_ok_def empty_db_def)
  moreover have "prefixToRange (ae_prefix ?e) = Some ?r" using prefix_eval(1) by simp
  moreover have "good_date (ae_checkedAt ?e)" by (simp add: good_date_def)
  moreover note prefix_eval(3)
  moreover have "isIPv6 ?r = str_includes ''8.8.8.1'' '':''" by (simp add: str_includes_def starts_with_def)
  moreover have "r_start ?r \<le> ''00000000000000000000000008080801''" "''00000000000000000000000008080801'' \<le> r_end ?r"
    by (simp_all add: less_char_def)
  moreover have "\<forall>r \<in> set (asns empty_db). covers ''8.8.8.1'' ''00000000000000000000000008080801'' r
      \<and> a_prefix r \<noteq> ae_prefix ?e \<longrightarrow> a_prefix_len r < prefixLen ?r"
    by (simp add: empty_db_def)
  ultimately have "\<exists>u. saveASN ?e (quiet empty_db) = (Inr (), quiet u) \<and> asns_ok u \<and>
    (\<forall>now. fst (getASN (\<lambda>_. Invalid_Date) now ''8.8.8.1'' (quiet u)) =
       Inr (if ae_ttlSeconds ?e * 1000 < now - ms (ae_checkedAt ?e) then None else Some (?e\<lparr>ae_ip := ''8.8.8.1''\<rparr>)))"
    by (rule asn_longest_match)
  then obtain u where "\<forall>now. fst (getASN (\<lambda>_. Invalid_Date) now ''8.8.8.1'' (quiet u)) =
       Inr (if ae_ttlSeconds ?e * 1000 < now - ms (ae_checkedAt ?e) then None else Some (?e\<lparr>ae_ip := ''8.8.8.1''\<rparr>))"
    by blast
  then show ?thesis by (intro exI [of _ u]) simp
qed

text \<open>
  An expired row of a longer prefix hides every fresh row of a shorter one: nothing deletes it,
  so such an address is looked up live each time.
\<close>

lemma expired_prefix_shadows:
  assumes "ipToHex ip = Some h" "r \<in> set (asns t)" "covers ip h r"
    and "\<forall>q \<in> set (asns t). covers ip h q \<and> q \<noteq> r \<longrightarrow> a_prefix_len q < a_prefix_len r"
    and "a_checked_at r = to_iso c" "\<bar>c\<bar> \<le> 8640000000000000" "a_ttl_seconds r * 1000 < now - c"
  shows "getASN legacy now ip (quiet t) = (Inr None, quiet t)"
proof -
  have "take 1 (order_by [(\<lambda>r. SInt (a_prefix_len r), True)] (filter (covers ip h) (asns t))) = [r]"
    using assms(2-4) by (intro take1_order_by) auto
  then show ?thesis
    unfolding getASN_def assms(1) option.case
    by (simp add: d1_defs assms(5,7) stored_date [OF assms(6)])
qed

section \<open>The rate limiter\<close>

text \<open>Requests of one client one after the other, each at its own time.\<close>

fun limited :: "string \<Rightarrow> string \<Rightarrow> int \<Rightarrow> int \<Rightarrow> int list \<Rightarrow> tables \<Rightarrow> bool list \<times> tables" where
  "limited kind client limit windowMs [] t = ([], t)"
| "limited kind client limit windowMs (now # nows) t =
     (case checkRateLimit now kind client limit windowMs (quiet t) of
        (Inr ok, d) \<Rightarrow> (case limited kind client limit windowMs nows (store d) of (oks, u) \<Rightarrow> (ok # oks, u))
      | (Inl _, d) \<Rightarrow> ([], store d))"

lemma rate_count_upsert:
  "rate_count kind client w (run_stmt (RateCount kind client w) t) = rate_count kind client w t + 1"
proof -
  let ?new = "\<lparr>l_kind = kind, l_client_ip = client, l_window = w, l_count = 1\<rparr>"
  have "find_row rate_key (kind, client, w) (upsert rate_key ?new (\<lambda>r. r\<lparr>l_count := l_count r + 1\<rparr>) (rates t)) =
      Some (case find_row rate_key (kind, client, w) (rates t) of None \<Rightarrow> ?new | Some r \<Rightarrow> r\<lparr>l_count := l_count r + 1\<rparr>)"
    by (subst find_row_upsert) (simp_all add: rate_key_def)
  then show ?thesis by (simp add: rate_count_def rate_key_def [abs_def] split: option.split)
qed

lemma rate_count_delete:
  "rate_count kind client w (run_stmt (RateDelete kind client w) t) = rate_count kind client w t"
proof -
  have "find_row rate_key (kind, client, w)
      (filter (\<lambda>r. \<not> (fst (rate_key r) = kind \<and> fst (snd (rate_key r)) = client \<and> snd (snd (rate_key r)) < w)) (rates t))
    = find_row rate_key (kind, client, w) (rates t)"
    by (subst find_row_filter [of rate_key _ "\<lambda>k. \<not> (fst k = kind \<and> fst (snd k) = client \<and> snd (snd k) < w)"]) simp
  then show ?thesis by (simp add: rate_count_def rate_key_def)
qed

lemma rate_limit_quiet:
  assumes "rate_window windowMs now = Inr w"
  shows "\<exists>u. checkRateLimit now kind client limit windowMs (quiet t)
      = (Inr (rate_count kind client w t < limit), quiet u)
    \<and> rate_count kind client w u = (if rate_count kind client w t < limit then rate_count kind client w t + 1
        else rate_count kind client w t)"
proof (cases "rate_count kind client w t < limit")
  case True
  let ?u = "run_stmt (RateCount kind client w) (run_stmt (RateDelete kind client w) t)"
  have "checkRateLimit now kind client limit windowMs (quiet t) = (Inr True, quiet ?u)"
    using True by (simp add: checkRateLimit_def assms d1_defs batch_def rate_count_delete del: run_stmt.simps)
  with True show ?thesis by (intro exI [of _ ?u]) (simp add: rate_count_delete rate_count_upsert del: run_stmt.simps)
next
  case False
  let ?u = "run_stmt (RateDelete kind client w) t"
  have "checkRateLimit now kind client limit windowMs (quiet t) = (Inr False, quiet ?u)"
    using False by (simp add: checkRateLimit_def assms d1_defs batch_def rate_count_delete del: run_stmt.simps)
  with False show ?thesis by (intro exI [of _ ?u]) (simp add: rate_count_delete del: run_stmt.simps)
qed

text \<open>
  C38: of the requests a client makes in one window, checkRateLimit admits exactly the first
  ones up to the limit, counting what the window already holds; all later ones are refused.
\<close>

theorem rate_limit_admits:
  assumes "\<forall>now \<in> set nows. rate_window windowMs now = Inr w"
  shows "fst (limited kind client limit windowMs nows t) =
    map (\<lambda>i. rate_count kind client w t + int i < limit) [0..<length nows]"
  using assms
proof (induction nows arbitrary: t)
  case (Cons now nows)
  then have "rate_window windowMs now = Inr w" by simp
  from rate_limit_quiet [OF this, of kind client limit t] obtain u where
    u: "checkRateLimit now kind client limit windowMs (quiet t) = (Inr (rate_count kind client w t < limit), quiet u)"
    "rate_count kind client w u = (if rate_count kind client w t < limit then rate_count kind client w t + 1
        else rate_count kind client w t)" by blast
  have "map (\<lambda>i. rate_count kind client w u + int i < limit) [0..<length nows]
      = map (\<lambda>i. rate_count kind client w t + int (Suc i) < limit) [0..<length nows]"
    using u(2) by (cases "rate_count kind client w t < limit") auto
  moreover have "[0..<length (now # nows)] = 0 # map Suc [0..<length nows]"
    by (simp add: map_Suc_upt upt_conv_Cons del: upt_Suc)
  moreover have "fst (limited kind client limit windowMs (now # nows) t)
      = (rate_count kind client w t < limit) # fst (limited kind client limit windowMs nows u)"
    by (simp add: u(1) split: prod.split)
  ultimately show ?case using Cons.IH [of u] Cons.prems by (simp add: comp_def del: upt_Suc)
qed simp

lemma rate_window_eval: "rate_window 60000 0 = Inr ''1970-01-01T00:00''" "rate_window 60000 59999 = Inr ''1970-01-01T00:00''"
  by code_simp+

theorem rate_limit_admits_witness:
  "fst (limited ''probe'' ''1.1.1.1'' 2 60000 [0, 59999, 59999] empty_db) = [True, True, False]"
proof -
  have "\<forall>now \<in> set [0, 59999, 59999]. rate_window 60000 now = Inr ''1970-01-01T00:00''"
    by (simp add: rate_window_eval)
  from rate_limit_admits [OF this, of "''probe''" "''1.1.1.1''" 2 empty_db] show ?thesis
    by (simp add: rate_count_def empty_db_def find_row_def upt_rec)
qed

section \<open>Which reverse lookups are due\<close>

lemma iso_day_text:
  assumes "four_digit_year (year_of_day d)"
  shows "\<exists>D. length D = 10 \<and> (\<forall>c. c div ms_per_day = d \<longrightarrow>
    take 10 (to_iso c) = D \<and> (\<exists>r. length r = 8 \<and> to_iso c = D @ ''T'' @ r @ ''.'' @ pad_num 3 (df_millis (utc_fields c)) @ ''Z''))"
proof -
  define D where "D = (\<lambda>c. iso_year (df_year (utc_fields c)) @ ''-'' @ pad_num 2 (df_month (utc_fields c) + 1) @ ''-'' @
      pad_num 2 (df_date (utc_fields c)))"
  let ?c = "d * ms_per_day"
  have d: "?c div ms_per_day = d" by (simp add: ms_per_day_def)
  have same: "D c = D ?c" if "c div ms_per_day = d" for c
    using that d by (simp add: D_def utc_fields_sel)
  have len: "length (D c) = 10" if "c div ms_per_day = d" for c
  proof -
    have "length (iso_year (df_year (utc_fields c))) = 4"
      using assms that by (simp add: utc_fields_sel(1) iso_year_def four_digit_year_def length_pad_num)
    moreover have "length (pad_num 2 (df_month (utc_fields c) + 1)) = 2" "length (pad_num 2 (df_date (utc_fields c))) = 2"
      using fields_ok_utc [of c] fields_ok_date [OF fields_ok_utc [of c]]
      by (auto simp: fields_ok_def intro!: length_pad_num)
    ultimately show ?thesis by (simp add: D_def)
  qed
  have "\<exists>r. length r = 8 \<and> to_iso c = D c @ ''T'' @ r @ ''.'' @ pad_num 3 (df_millis (utc_fields c)) @ ''Z''" for c
  proof -
    let ?r = "pad_num 2 (df_hours (utc_fields c)) @ '':'' @ pad_num 2 (df_minutes (utc_fields c)) @ '':'' @
        pad_num 2 (df_seconds (utc_fields c))"
    have "length ?r = 8" using fields_ok_utc [of c] by (simp add: fields_ok_def length_pad_num)
    then show ?thesis by (intro exI [of _ ?r]) (simp add: D_def to_iso_def iso_text_def)
  qed
  then obtain r where r: "length (r c) = 8"
    "to_iso c = D c @ ''T'' @ r c @ ''.'' @ pad_num 3 (df_millis (utc_fields c)) @ ''Z''" for c by metis
  have "take 10 (to_iso c) = D ?c \<and> length (r c) = 8
      \<and> to_iso c = D ?c @ ''T'' @ r c @ ''.'' @ pad_num 3 (df_millis (utc_fields c)) @ ''Z''"
    if "c div ms_per_day = d" for c
    using r [of c] len [OF that] by (simp add: same [OF that])
  with len [OF d] show ?thesis by blast
qed

lemma day_text_less:
  assumes "iso_range c" "iso_range b"
  shows "take 10 (to_iso c) < take 10 (to_iso b) \<longleftrightarrow> c div ms_per_day < b div ms_per_day"
    and "take 10 (to_iso c) = take 10 (to_iso b) \<longleftrightarrow> c div ms_per_day = b div ms_per_day"
proof -
  let ?f = "\<lambda>c. c div ms_per_day * ms_per_day"
  have day: "?f c div ms_per_day = c div ms_per_day" "iso_range c \<Longrightarrow> iso_range (?f c)"
    "iso_range c \<Longrightarrow> four_digit_year (year_of_day (c div ms_per_day))" for c
    by (simp_all add: ms_per_day_def iso_range_def utc_fields_sel)
  have shape: "\<exists>r. length (take 10 (to_iso c)) = 10 \<and> to_iso (?f c) = take 10 (to_iso c) @ ''T00:00:00.000Z''"
    if "iso_range c" for c
  proof -
    from iso_day_text [OF day(3) [OF that]] have
      "length (take 10 (to_iso c)) = 10" "take 10 (to_iso (?f c)) = take 10 (to_iso c)" using day(1) by auto
    moreover have "drop 10 (to_iso (?f c)) = ''T00:00:00.000Z''"
    proof -
      have len: "length (iso_year (df_year (utc_fields (?f c)))) = 4"
        using day(2) [OF that] by (simp add: iso_range_def iso_year_def four_digit_year_def length_pad_num)
      moreover have "length (pad_num 2 (df_month (utc_fields (?f c)) + 1)) = 2" "length (pad_num 2 (df_date (utc_fields (?f c)))) = 2"
        using fields_ok_utc [of "?f c"] fields_ok_date [OF fields_ok_utc [of "?f c"]]
        by (auto simp: fields_ok_def intro!: length_pad_num)
      moreover have "?f c mod ms_per_day = 0" by (simp add: ms_per_day_def)
      ultimately show ?thesis
        by (simp add: to_iso_def iso_text_def utc_fields_sel(4-) pad_num_def pad_start_def eval_num numeral_eq_Suc)
    qed
    ultimately show ?thesis by (metis append_take_drop_id)
  qed
  from shape [OF assms(1)] shape [OF assms(2)]
  have "to_iso (?f c) < to_iso (?f b) \<longleftrightarrow> take 10 (to_iso c) < take 10 (to_iso b)"
    "to_iso (?f c) = to_iso (?f b) \<longleftrightarrow> take 10 (to_iso c) = take 10 (to_iso b)"
    by (auto simp: append_less_iff)
  with iso_less_iff [OF day(2) [OF assms(1)] day(2) [OF assms(2)]] iso_eq_iff [OF day(2) [OF assms(1)] day(2) [OF assms(2)]]
  show "take 10 (to_iso c) < take 10 (to_iso b) \<longleftrightarrow> c div ms_per_day < b div ms_per_day"
    "take 10 (to_iso c) = take 10 (to_iso b) \<longleftrightarrow> c div ms_per_day = b div ms_per_day"
    by (simp_all add: ms_per_day_def)
qed

text \<open>The comparison with \<open>datetime('now', '-30 days')\<close> is a comparison of UTC days.\<close>

lemma stale_iff:
  assumes "iso_range c" "iso_range (now - 30 * ms_per_day)"
  shows "to_iso c < thirty_days_ago now \<longleftrightarrow> c div ms_per_day < now div ms_per_day - 30"
proof -
  let ?b = "now - 30 * ms_per_day"
  have b: "?b div ms_per_day = now div ms_per_day - 30" by (simp add: ms_per_day_def)
  from iso_day_text [of "c div ms_per_day"] assms(1) obtain r where
    c: "length (take 10 (to_iso c)) = 10" "to_iso c = take 10 (to_iso c) @ CHR ''T'' # r"
    by (auto simp: iso_range_def utc_fields_sel)
  from iso_day_text [of "?b div ms_per_day"] assms(2) have "length (take 10 (to_iso ?b)) = 10"
    by (auto simp: iso_range_def utc_fields_sel)
  then have "to_iso c < thirty_days_ago now \<longleftrightarrow> take 10 (to_iso c) < take 10 (to_iso ?b)"
    unfolding thirty_days_ago_def Let_def
    by (subst c(2)) (simp add: append_less_iff c(1) less_char_def del: length_take)
  with day_text_less(1) [OF assms] b show ?thesis by simp
qed

definition ptr_due :: "int \<Rightarrow> pool_row \<Rightarrow> bool" where
  "ptr_due now p \<longleftrightarrow> p_ptr_checked_at p = None
     \<or> (\<exists>c. p_ptr_checked_at p = Some (to_iso c) \<and> iso_range c \<and> c div ms_per_day < now div ms_per_day - 30)"

definition ptr_times_ok :: "tables \<Rightarrow> bool" where
  "ptr_times_ok t \<longleftrightarrow> (\<forall>p \<in> set (pool t). \<forall>s. p_ptr_checked_at p = Some s \<longrightarrow> (\<exists>c. s = to_iso c \<and> iso_range c))"

lemma stale_due:
  assumes "ptr_times_ok t" "iso_range (now - 30 * ms_per_day)" "p \<in> set (pool t)"
  shows "(case p_ptr_checked_at p of None \<Rightarrow> False | Some s \<Rightarrow> s < thirty_days_ago now)
    \<longleftrightarrow> p_ptr_checked_at p \<noteq> None \<and> ptr_due now p"
proof (cases "p_ptr_checked_at p")
  case (Some s)
  then obtain c where c: "s = to_iso c" "iso_range c" using assms(1,3) by (auto simp: ptr_times_ok_def)
  with c Some have "ptr_due now p \<longleftrightarrow> c div ms_per_day < now div ms_per_day - 30"
    by (auto simp: ptr_due_def iso_eq_iff)
  with stale_iff [OF c(2) assms(2)] c(1) Some show ?thesis by simp
qed (simp add: ptr_due_def)

lemma take_filter_order:
  "set (map p_ip (take n (order_by terms (filter P ps)))) \<subseteq> p_ip ` {p \<in> set ps. P p}"
  "distinct (map p_ip ps) \<Longrightarrow> distinct (map p_ip (take n (order_by terms (filter P ps))))"
  "length (map p_ip (take n (order_by terms (filter P ps)))) = min n (length (filter P ps))"
  "length (filter P ps) \<le> n \<Longrightarrow> set (map p_ip (take n (order_by terms (filter P ps)))) = p_ip ` {p \<in> set ps. P p}"
proof -
  show "set (map p_ip (take n (order_by terms (filter P ps)))) \<subseteq> p_ip ` {p \<in> set ps. P p}"
    using set_take_subset [of n "order_by terms (filter P ps)"] unfolding set_map by (intro image_mono) simp
qed (simp_all add: order_by_def take_map [symmetric] distinct_map_filter min_def)



section \<open>The invariant of the database\<close>

text \<open>
  Whatever other requests commit in between and wherever a D1 call is rejected or its reply
  lost, every writing operation of the store keeps the invariant of the database: primary keys
  and check times are unique, pool rows carry a revision no newer than the version, the family
  of their address, at least one sighting and its times; the reset version is not ahead.
\<close>

theorem invariant_kept:
  assumes "\<forall>turn \<in> set (script d). \<forall>t. db_steps t (others turn t)" "db_ok (store d)"
  shows "db_ok (store (snd (insertCheckRows now rows d))) \<and> db_ok (store (snd (updatePoolBatch now rows d)))
    \<and> db_ok (store (snd (pruneCheckHistory ips d))) \<and> db_ok (store (snd (saveRecheckResult r d)))
    \<and> db_ok (store (snd (updatePoolForCheck ip ok rttMs checkedAt scanMode d)))
    \<and> db_ok (store (snd (savePTR e d))) \<and> db_ok (store (snd (savePTRBatch es d)))
    \<and> db_ok (store (snd (saveHost h d))) \<and> db_ok (store (snd (saveASN a d)))
    \<and> db_ok (store (snd (checkRateLimit now kind client limit windowMs d)))"
proof -
  have "db.legit d" using assms(1) by (simp add: db.legit_def)
  then have "db.stays m \<Longrightarrow> db_ok (store (snd (m d)))" for m :: "(tables, 'a) prog"
    using db.stays_run pool.steps_inv assms(2) by blast
  moreover have "db.stays m \<Longrightarrow> db_ok (store (snd (m d)))" for m :: "(tables, bool) prog"
    using \<open>db.legit d\<close> db.stays_run pool.steps_inv assms(2) by blast
  ultimately show ?thesis
    by (intro conjI) (auto intro: stays_insertCheckRows stays_updatePoolBatch stays_pruneCheckHistory
        stays_saveRecheckResult stays_updatePoolForCheck stays_savePTR stays_savePTRBatch stays_saveHost
        stays_saveASN stays_checkRateLimit)
qed

theorem invariant_kept_witness:
  "\<exists>d. d = snd (insertCheckRows 0 [sample_row ''a'' True 0]
      \<lparr>store = empty_db, script = [\<lparr>others = run_stmt BumpRevision, fate = Lost\<rparr>]\<rparr>) \<and> db_ok (store d)"
proof -
  let ?d = "\<lparr>store = empty_db, script = [\<lparr>others = run_batch [BumpRevision], fate = Lost\<rparr>]\<rparr>"
  have "db_step t (run_batch (BumpRevision # []) t)" for t by (rule db_step.pool_batch) simp
  then have "\<forall>turn \<in> set (script ?d). \<forall>t. db_steps t (others turn t)" by auto
  moreover have "db_ok (store ?d)" by (simp add: db_ok_parts empty_db_def)
  ultimately show ?thesis
    using invariant_kept [of ?d 0 "[sample_row ''a'' True 0]"] by (simp add: run_batch_def [abs_def])
qed

end
