(* ===== verification/DnsCache.thy ===== *)
theory DnsCache
  imports Resolver CacheLaws Geo
begin

text \<open>
  src/src/dnsCache.ts: look an address up in its cache, live on a miss, and store the live
  answer. \<open>http\<close> is the DNS-over-HTTPS exchange of Resolver, \<open>now\<close> the clock when the cache is
  read and \<open>later\<close> the clock when an entry is written. A failed write is logged and ignored,
  so it changes no answer.
\<close>

section \<open>The code\<close>

definition MIN_CACHE_TTL :: int where "MIN_CACHE_TTL = 60 * 60"

definition clampTTL :: "int \<Rightarrow> int" where
  "clampTTL ttlSeconds = max ttlSeconds MIN_CACHE_TTL"

text \<open>The loop of conflictingLocations, with the city and country seen first.\<close>

fun conflict_loop :: "string \<Rightarrow> string \<Rightarrow> string list \<Rightarrow> bool" where
  "conflict_loop town land [] = False"
| "conflict_loop town land (h # hs) =
     (let loc = decode h in
      if \<not> g_matched loc \<or> g_city loc = [] then conflict_loop town land hs
      else if town = [] then conflict_loop (g_city loc) (g_country loc) hs
      else if g_city loc \<noteq> town \<or> g_country loc \<noteq> land then True
      else conflict_loop town land hs)"

definition conflictingLocations :: "string list \<Rightarrow> bool" where
  "conflictingLocations hostnames = conflict_loop [] [] hostnames"

text \<open>Disagreeing locations are only logged.\<close>

definition resolveAndCachePTR :: "http \<Rightarrow> string \<Rightarrow> int \<Rightarrow> string \<Rightarrow> (tables, string list \<times> bool) prog" where
  "resolveAndCachePTR http dohUrl later ip =
     andThen (lift (lookupPTR http ip dohUrl)) (\<lambda>r.
     andThen (catching (savePTR \<lparr>pe_ip = ip, pe_ptrHostnames = lk_values r, pe_lookupOk = lk_ok r,
         pe_ttlSeconds = clampTTL (lk_ttlSeconds r), pe_checkedAt = date_of_ms later\<rparr>) (\<lambda>_. ret ())) (\<lambda>_.
     ret (lk_values r, lk_ok r)))"

definition resolveAndCacheHost ::
  "http \<Rightarrow> string \<Rightarrow> int \<Rightarrow> string \<Rightarrow> (tables, string list \<times> string list) prog" where
  "resolveAndCacheHost http dohUrl later hostname =
     andThen (lift (lookupHost http hostname dohUrl)) (\<lambda>r.
     if \<not> hl_ok r \<or> hl_ipv4 r = [] \<and> hl_ipv6 r = [] then ret (hl_ipv4 r, hl_ipv6 r)
     else andThen (catching (saveHost \<lparr>he_hostname = hostname, he_ipv4 = hl_ipv4 r, he_ipv6 = hl_ipv6 r,
              he_lookupOk = hl_ok r, he_ttlSeconds = clampTTL (hl_ttlSeconds r),
              he_checkedAt = date_of_ms later\<rparr>) (\<lambda>_. ret ())) (\<lambda>_.
          ret (hl_ipv4 r, hl_ipv6 r)))"

text \<open>\<open>toUpperCase\<close> where it matters for ASCII letters.\<close>

definition to_upper_char :: "char \<Rightarrow> char" where
  "to_upper_char c =
     (let n = of_char c :: nat in if 97 \<le> n \<and> n \<le> 122 then char_of (n - 32) else c)"

definition google_name :: "string \<Rightarrow> bool" where
  "google_name asName = str_includes (map to_upper_char asName) ''GOOGLE''"

definition isGoogleASN :: "asn_info \<Rightarrow> bool" where
  "isGoogleASN info = google_name (ai_asName info)"

definition asn_entry_of :: "string \<Rightarrow> int \<Rightarrow> asn_lookup \<Rightarrow> asn_entry" where
  "asn_entry_of ip later r =
     \<lparr>ae_ip = ip, ae_asn = ai_asn (al_info r), ae_asName = ai_asName (al_info r),
      ae_prefix = ai_prefix (al_info r), ae_country = ai_country (al_info r), ae_lookupOk = al_ok r,
      ae_ttlSeconds = clampTTL (al_ttlSeconds r), ae_checkedAt = date_of_ms later\<rparr>"

definition lookupGoogleASN ::
  "(string \<Rightarrow> js_date) \<Rightarrow> http \<Rightarrow> string \<Rightarrow> int \<Rightarrow> int \<Rightarrow> string \<Rightarrow> (tables, asn_info \<times> bool) prog" where
  "lookupGoogleASN legacy http dohUrl now later ip =
     andThen (getASN legacy now ip) (\<lambda>cached.
     case cached of
       Some e \<Rightarrow> ret (\<lparr>ai_asn = ae_asn e, ai_asName = ae_asName e, ai_prefix = ae_prefix e,
                     ai_country = ae_country e\<rparr>, ae_lookupOk e)
     | None \<Rightarrow>
         andThen (lift (lookupASN http ip dohUrl)) (\<lambda>r.
         if \<not> al_ok r \<or> \<not> isGoogleASN (al_info r) then ret (al_info r, al_ok r)
         else andThen (catching (saveASN (asn_entry_of ip later r)) (\<lambda>_. ret ())) (\<lambda>_.
              ret (al_info r, al_ok r))))"

section \<open>Every operation moves along the steps\<close>

lemma stays_resolveAndCachePTR: "db.stays (resolveAndCachePTR http dohUrl later ip)"
  unfolding resolveAndCachePTR_def
  by (intro db.stays_bind db.stays_lift db.stays_catching stays_savePTR db.stays_ret)

lemma stays_resolveAndCacheHost: "db.stays (resolveAndCacheHost http dohUrl later h)"
  unfolding resolveAndCacheHost_def
  by (auto intro!: db.stays_bind db.stays_lift db.stays_catching stays_saveHost db.stays_ret)

lemma stays_lookupGoogleASN: "db.stays (lookupGoogleASN legacy http dohUrl now later ip)"
  unfolding lookupGoogleASN_def
  by (auto intro!: db.stays_bind db.stays_lift db.stays_catching stays_getASN stays_saveASN db.stays_ret
      split: option.split)

section \<open>Locations that disagree\<close>

lemma conflict_loop_iff:
  "town \<noteq> [] \<Longrightarrow> conflict_loop town land hs \<longleftrightarrow>
    (\<exists>h \<in> set hs. g_matched (decode h) \<and> g_city (decode h) \<noteq> []
       \<and> (g_city (decode h), g_country (decode h)) \<noteq> (town, land))"
  by (induction hs) (auto simp: Let_def)

text \<open>The loop remembers only the first located name; that is enough to see any disagreement.\<close>

lemma conflicting_iff:
  "conflictingLocations hs \<longleftrightarrow>
    (\<exists>h \<in> set hs. \<exists>h' \<in> set hs. g_matched (decode h) \<and> g_city (decode h) \<noteq> []
       \<and> g_matched (decode h') \<and> g_city (decode h') \<noteq> []
       \<and> (g_city (decode h), g_country (decode h)) \<noteq> (g_city (decode h'), g_country (decode h')))"
  unfolding conflictingLocations_def
proof (induction hs)
  case (Cons h hs)
  show ?case
  proof (cases "g_matched (decode h) \<and> g_city (decode h) \<noteq> []")
    case True
    then have "conflict_loop [] [] (h # hs) = conflict_loop (g_city (decode h)) (g_country (decode h)) hs"
      by (simp add: Let_def)
    with True show ?thesis by (auto simp: conflict_loop_iff)
  next
    case False
    then have "conflict_loop [] [] (h # hs) = conflict_loop [] [] hs" by (auto simp: Let_def)
    with False Cons show ?thesis by auto
  qed
qed simp

section \<open>Only Google's networks are cached\<close>

definition google_row :: "asn_rec \<Rightarrow> bool" where
  "google_row r = google_name (or_else (a_as_name r) [])"

definition google_rows :: "tables \<Rightarrow> bool" where
  "google_rows t = list_all google_row (asns t)"

definition google_kept :: "tables \<Rightarrow> tables \<Rightarrow> bool" where
  "google_kept t u = (google_rows t \<longrightarrow> google_rows u)"

interpretation google: guarantee google_kept
  by unfold_locales (auto simp: google_kept_def)

lemma google_name_nonempty: "google_name n \<Longrightarrow> or_else (nonempty n) [] = n"
  by (auto simp: nonempty_def or_else_def)

lemma google_asn_upsert: "google_row e \<Longrightarrow> google_kept t (run_stmt (AsnUpsert e) t)"
  by (auto simp: google_kept_def google_rows_def google_row_def upsert_def list_all_iff)

lemma google_saveASN:
  assumes "google_name (ae_asName e)"
  shows "google.stays (saveASN e)"
proof (cases "prefixToRange (ae_prefix e)")
  case (Some rng)
  have kept: "google_kept t (run_batch [AsnUpsert r] t)" if "a_as_name r = nonempty (ae_asName e)" for r t
    using that assms by (simp only: run_batch_simps) (intro google_asn_upsert, simp add: google_row_def google_name_nonempty)
  show ?thesis
    unfolding saveASN_def Some option.case batch_def
    by (intro google.stays_bind google.stays_lift google.stays_exec kept) simp
qed (simp add: saveASN_def google.stays_ret)

lemma google_getASN: "google.stays (getASN legacy now ip)"
proof (cases "ipToHex ip")
  case (Some point)
  then show ?thesis
    unfolding getASN_def Some option.case by (intro google.stays_bind google.stays_query) (auto split: list.split)
qed (auto simp: getASN_def)

lemma google_lookup: "google.stays (lookupGoogleASN legacy http dohUrl now later ip)"
  unfolding lookupGoogleASN_def
  by (auto intro!: google.stays_bind google.stays_lift google.stays_catching google_getASN google_saveASN
      google.stays_ret simp: isGoogleASN_def asn_entry_of_def split: option.split)

lemma query_result: "query q d = (Inr x, d') \<Longrightarrow> \<exists>t. x = q t \<and> (script d = [] \<and> t = store d \<or>
    (\<exists>turn \<in> set (script d). t = others turn (store d)))"
  by (auto simp: query_def call_def split: list.splits outcome.splits)

lemma cached_google:
  assumes "google.legit d" "google_rows (store d)" "getASN legacy now ip d = (Inr (Some e), d')"
  shows "google_name (ae_asName e)"
proof (cases "ipToHex ip")
  case None
  with assms(3) show ?thesis by (simp add: getASN_def d1_defs)
next
  case (Some point)
  let ?q = "\<lambda>t. take 1 (order_by [(\<lambda>r. SInt (a_prefix_len r), True)] (filter (covers ip point) (asns t)))"
  obtain rows d1 where q: "query ?q d = (Inr rows, d1)"
    using assms(3) unfolding getASN_def Some option.case andThen_def by (auto split: prod.splits sum.splits)
  then have next_step: "(case rows of [] \<Rightarrow> ret None
      | r # _ \<Rightarrow> lift (cached_at legacy now (a_checked_at r) (a_ttl_seconds r) (\<lambda>checkedAt.
                \<lparr>ae_ip = ip, ae_asn = or_else (a_asn r) 0, ae_asName = or_else (a_as_name r) [],
                 ae_prefix = a_prefix r, ae_country = or_else (a_country r) [],
                 ae_lookupOk = (a_lookup_ok r \<noteq> 0), ae_ttlSeconds = a_ttl_seconds r,
                 ae_checkedAt = checkedAt\<rparr>))) d1 = (Inr (Some e), d')"
    using assms(3) unfolding getASN_def Some option.case by (simp add: andThen_def)
  then obtain r rs where rows: "rows = r # rs" by (cases rows) (auto simp: ret_def)
  with next_step have name: "ae_asName e = or_else (a_as_name r) []"
    by (auto simp: lift_def cached_at_def split: option.splits if_splits)
  from query_result [OF q] obtain t where t: "rows = ?q t" "script d = [] \<and> t = store d \<or>
      (\<exists>turn \<in> set (script d). t = others turn (store d))" by blast
  from t(2) assms(1,2) have "google_rows t" by (auto simp: google.legit_def google_kept_def)
  moreover have "r \<in> set (?q t)" using rows by (simp only: t(1) [symmetric]) simp
  then have "r \<in> set (asns t)" by (auto dest: in_set_takeD)
  ultimately show ?thesis by (simp add: name google_rows_def google_row_def list_all_iff)
qed

text \<open>
  C23: whatever other requests and faults do in between, a lookup keeps the promise that only
  networks whose name contains Google are in the cache, and so an answer from the cache always
  passes the check of isGoogleASN.
\<close>

theorem google_cache_only:
  assumes "\<forall>turn \<in> set (script d). \<forall>t. google_rows t \<longrightarrow> google_rows (others turn t)" "google_rows (store d)"
  shows "google_rows (store (snd (lookupGoogleASN legacy http dohUrl now later ip d)))
    \<and> (\<forall>e d'. getASN legacy now ip d = (Inr (Some e), d') \<longrightarrow>
         (\<exists>info ok. lookupGoogleASN legacy http dohUrl now later ip d = (Inr (info, ok), d') \<and> isGoogleASN info))"
proof -
  have legit: "google.legit d" using assms(1) by (simp add: google.legit_def google_kept_def)
  from google.stays_run [OF google_lookup legit] assms(2)
  have "google_rows (store (snd (lookupGoogleASN legacy http dohUrl now later ip d)))"
    unfolding google_kept_def by blast
  moreover have "\<exists>info ok. lookupGoogleASN legacy http dohUrl now later ip d = (Inr (info, ok), d') \<and> isGoogleASN info"
    if "getASN legacy now ip d = (Inr (Some e), d')" for e d'
    using cached_google [OF legit assms(2) that] that
    by (simp add: lookupGoogleASN_def andThen_def ret_def isGoogleASN_def)
  ultimately show ?thesis by blast
qed

theorem google_cache_only_witness:
  "google_rows (store (snd (lookupGoogleASN (\<lambda>_. Invalid_Date) (\<lambda>_. Inl TypeError) ''d'' 0 0 ''8.8.8.8''
     \<lparr>store = empty_db, script = [\<lparr>others = run_batch [BumpRevision], fate = Lost\<rparr>]\<rparr>)))"
proof -
  let ?d = "\<lparr>store = empty_db, script = [\<lparr>others = run_batch [BumpRevision], fate = Lost\<rparr>]\<rparr>"
  have "\<forall>turn \<in> set (script ?d). \<forall>t. google_rows t \<longrightarrow> google_rows (others turn t)"
    by (simp add: google_rows_def)
  moreover have "google_rows (store ?d)" by (simp add: google_rows_def empty_db_def)
  ultimately show ?thesis by (rule google_cache_only [THEN conjunct1])
qed

section \<open>A live answer is remembered\<close>

lemma good_date_of_ms: "\<bar>later\<bar> \<le> 8640000000000000 \<Longrightarrow> good_date (date_of_ms later) \<and> ms (date_of_ms later) = later"
  by (simp add: date_of_ms_def good_date_def)

text \<open>
  A Google network found by a live lookup is answered from the cache for every address of
  its range, without asking the resolver again, for the time to live of the records but at
  least an hour, unless a longer prefix is already stored for the address.
\<close>

theorem google_answer_remembered:
  assumes "getASN legacy now ip (quiet t) = (Inr None, quiet t)" "lookupASN http ip dohUrl = Inr r"
    and "al_ok r" "isGoogleASN (al_info r)" "prefixToRange (ai_prefix (al_info r)) = Some rng"
    and "asns_ok t" "\<bar>later\<bar> \<le> 8640000000000000"
    and "ipToHex ip' = Some h" "isIPv6 rng = str_includes ip' '':''" "r_start rng \<le> h" "h \<le> r_end rng"
    and "\<forall>q \<in> set (asns t). covers ip' h q \<and> a_prefix q \<noteq> ai_prefix (al_info r) \<longrightarrow> a_prefix_len q < prefixLen rng"
  shows "\<exists>u. lookupGoogleASN legacy http dohUrl now later ip (quiet t) = (Inr (al_info r, True), quiet u)
    \<and> (\<forall>http' now' later'. now' - later \<le> 1000 * max (al_ttlSeconds r) 3600 \<longrightarrow>
         lookupGoogleASN legacy http' dohUrl now' later' ip' (quiet u) = (Inr (al_info r, True), quiet u))"
proof -
  let ?e = "asn_entry_of ip later r"
  have e: "ae_prefix ?e = ai_prefix (al_info r)" "good_date (ae_checkedAt ?e)" "ms (ae_checkedAt ?e) = later"
    using good_date_of_ms [OF assms(7)] by (simp_all add: asn_entry_of_def)
  obtain u where u: "saveASN ?e (quiet t) = (Inr (), quiet u)"
    "\<forall>now. fst (getASN legacy now ip' (quiet u)) =
       Inr (if ae_ttlSeconds ?e * 1000 < now - ms (ae_checkedAt ?e) then None else Some (?e\<lparr>ae_ip := ip'\<rparr>))"
    using saved_asn_served [OF assms(6) _ e(2) assms(8-11), unfolded e(1), OF assms(5,12)] by blast
  have first: "lookupGoogleASN legacy http dohUrl now later ip (quiet t) = (Inr (al_info r, True), quiet u)"
    by (simp add: lookupGoogleASN_def andThen_def catching_def lift_def ret_def assms(1-4) u(1))
  have again: "lookupGoogleASN legacy http' dohUrl now' later' ip' (quiet u) = (Inr (al_info r, True), quiet u)"
    if "now' - later \<le> 1000 * max (al_ttlSeconds r) 3600" for http' now' later'
  proof -
    have "\<not> ae_ttlSeconds ?e * 1000 < now' - later"
      using that by (simp add: asn_entry_of_def clampTTL_def MIN_CACHE_TTL_def)
    with u(2) have "fst (getASN legacy now' ip' (quiet u)) = Inr (Some (?e\<lparr>ae_ip := ip'\<rparr>))" by (simp add: e(3))
    moreover have "snd (getASN legacy now' ip' (quiet u)) = quiet u"
      by (simp add: getASN_def assms(8) d1_defs split: list.split)
    ultimately have "getASN legacy now' ip' (quiet u) = (Inr (Some (?e\<lparr>ae_ip := ip'\<rparr>)), quiet u)"
      by (simp add: prod_eq_iff)
    then show ?thesis by (simp add: lookupGoogleASN_def andThen_def ret_def asn_entry_of_def assms(3))
  qed
  from first again show ?thesis by blast
qed

definition sample_cymru :: http where
  "sample_cymru url = Inr \<lparr>http_ok = True, http_status = 200, dns_Status = 0, dns_Answer = Some
     [\<lparr>da_type = 16, da_TTL = 60, da_data =
        (if str_includes url ''origin'' then ''15169 | 8.8.8.77/24 | US | arin | 2023-12-28''
         else ''15169 | US | arin | 2000-03-30 | GOOGLE, US'')\<rparr>]\<rparr>"

definition sample_answer :: asn_lookup where
  "sample_answer = \<lparr>al_info = \<lparr>ai_asn = 15169, ai_asName = ''GOOGLE, US'', ai_prefix = ''8.8.8.77/24'',
     ai_country = ''US''\<rparr>, al_ttlSeconds = 60, al_ok = True\<rparr>"

lemma sample_steps:
  "asn_query ''8.8.8.8'' = Some ''8.8.8.8.origin.asn.cymru.com''"
  "lookupTXT sample_cymru ''8.8.8.8.origin.asn.cymru.com'' ''d''
    = Inr \<lparr>lk_values = [''15169 | 8.8.8.77/24 | US | arin | 2023-12-28''], lk_ttlSeconds = 60, lk_ok = True\<rparr>"
  "lookupTXT sample_cymru ''AS15169.asn.cymru.com'' ''d''
    = Inr \<lparr>lk_values = [''15169 | US | arin | 2000-03-30 | GOOGLE, US''], lk_ttlSeconds = 60, lk_ok = True\<rparr>"
  "split_char CHR ''|'' (hd (split_char CHR 0x0A ''15169 | 8.8.8.77/24 | US | arin | 2023-12-28''))
    = [''15169 '', '' 8.8.8.77/24 '', '' US '', '' arin '', '' 2023-12-28'']"
  "split_char CHR ''|'' ''15169 | US | arin | 2000-03-30 | GOOGLE, US''
    = [''15169 '', '' US '', '' arin '', '' 2000-03-30 '', '' GOOGLE, US'']"
  "parse_int10 (first_word (trim ''15169 '')) = Some 15169"
  "trim '' 8.8.8.77/24 '' = ''8.8.8.77/24''" "trim '' US '' = ''US''" "trim '' GOOGLE, US'' = ''GOOGLE, US''"
  by code_simp+

lemma sample_lookup: "lookupASN sample_cymru ''8.8.8.8'' ''d'' = Inr sample_answer"
proof -
  have "int_text 15169 = ''15169''" by (simp add: int_text_def eval_num)
  then show ?thesis by (simp add: lookupASN_def sample_steps sample_answer_def)
qed

theorem google_answer_remembered_witness:
  "\<exists>u. lookupGoogleASN (\<lambda>_. Invalid_Date) sample_cymru ''d'' 0 0 ''8.8.8.8'' (quiet empty_db)
      = (Inr (al_info sample_answer, True), quiet u)
    \<and> lookupGoogleASN (\<lambda>_. Invalid_Date) (\<lambda>_. Inl TypeError) ''d'' 3600000 0 ''8.8.8.1'' (quiet u)
      = (Inr (al_info sample_answer, True), quiet u)"
proof -
  let ?r = "\<lparr>r_start = ''00000000000000000000000008080800'',
      r_end = ''000000000000000000000000080808ff'', prefixLen = 24, isIPv6 = False\<rparr>"
  have miss: "getASN (\<lambda>_. Invalid_Date) 0 ''8.8.8.8'' (quiet empty_db) = (Inr None, quiet empty_db)"
    by (simp add: getASN_def empty_db_def d1_defs order_by_def split: option.split)
  have google: "isGoogleASN (al_info sample_answer)" by code_simp
  have ok: "al_ok sample_answer" by (simp add: sample_answer_def)
  have rng: "prefixToRange (ai_prefix (al_info sample_answer)) = Some ?r"
    using prefix_eval(1) by (simp add: sample_answer_def)
  have db: "asns_ok empty_db" by (simp add: asns_ok_def empty_db_def)
  have time: "\<bar>0::int\<bar> \<le> 8640000000000000" by simp
  have v4: "isIPv6 ?r = str_includes ''8.8.8.1'' '':''" by (simp add: str_includes_def starts_with_def)
  have lo: "r_start ?r \<le> ''00000000000000000000000008080801''" and hi: "''00000000000000000000000008080801'' \<le> r_end ?r"
    by (simp_all add: less_char_def)
  have longest: "\<forall>q \<in> set (asns empty_db). covers ''8.8.8.1'' ''00000000000000000000000008080801'' q
      \<and> a_prefix q \<noteq> ai_prefix (al_info sample_answer) \<longrightarrow> a_prefix_len q < prefixLen ?r"
    by (simp add: empty_db_def)
  obtain u where u:
    "lookupGoogleASN (\<lambda>_. Invalid_Date) sample_cymru ''d'' 0 0 ''8.8.8.8'' (quiet empty_db)
      = (Inr (al_info sample_answer, True), quiet u)"
    "\<forall>http' now' later'. now' - 0 \<le> 1000 * max (al_ttlSeconds sample_answer) 3600 \<longrightarrow>
       lookupGoogleASN (\<lambda>_. Invalid_Date) http' ''d'' now' later' ''8.8.8.1'' (quiet u)
         = (Inr (al_info sample_answer, True), quiet u)"
    using google_answer_remembered [OF miss sample_lookup ok google rng db time prefix_eval(3) v4 lo hi longest]
    by (elim exE conjE)
  from u(2) have "lookupGoogleASN (\<lambda>_. Invalid_Date) (\<lambda>_. Inl TypeError) ''d'' 3600000 0 ''8.8.8.1'' (quiet u)
      = (Inr (al_info sample_answer, True), quiet u)" by (simp add: sample_answer_def)
  with u(1) show ?thesis by (intro exI conjI)
qed

end
