(* ===== verification/Handlers.thy ===== *)
theory Handlers
  imports Api DnsCache "HOL-Library.Word"
begin

text \<open>
  The endpoints that write: src/functions/ingest.ts, check.ts and recheck/result.ts, with the
  bearer token check of src/src/auth.ts, the country header of src/src/request.ts and the response
  headers of src/functions/_middleware.ts. A request is the headers the code reads, its query
  parameters and its parsed body; fields the code does not test have the types its interfaces
  declare. Work handed to \<open>waitUntil\<close> is part of a handler's result, as a list of jobs. The
  probe server is a parameter \<open>probe\<close>, the wording of an error a parameter \<open>message\<close>.
\<close>

unbundle bit_operations_syntax

section \<open>auth.ts and request.ts\<close>

text \<open>\<open>TextEncoder.encode\<close> for characters up to U+00FF.\<close>

definition utf8_char :: "char \<Rightarrow> 8 word list" where
  "utf8_char c =
     (let n = of_char c :: nat in
      if n < 128 then [of_nat n] else [of_nat (192 + n div 64), of_nat (128 + n mod 64)])"

definition utf8 :: "string \<Rightarrow> 8 word list" where
  "utf8 s = concat (map utf8_char s)"

definition timingSafeEqual :: "string \<Rightarrow> string \<Rightarrow> bool" where
  "timingSafeEqual a b =
     (let aBytes = utf8 a; bBytes = utf8 b in
      if length aBytes \<noteq> length bBytes then False
      else foldl (\<lambda>diff (x, y). diff OR (x XOR y)) 0 (zip aBytes bBytes) = 0)"

record request =
  Authorization :: "string option"
  CF_IPCountry :: "string option"
  CF_Connecting_IP :: "string option"
  searchParams :: params

definition checkBearerAuth :: "string \<Rightarrow> request \<Rightarrow> bool" where
  "checkBearerAuth token request =
     (let auth = or_else (Authorization request) [] in
      if \<not> starts_with auth ''Bearer '' then False
      else timingSafeEqual (drop (length ''Bearer '') auth) token)"

definition clientCountry :: "request \<Rightarrow> string" where
  "clientCountry request = or_else (CF_IPCountry request) []"

section \<open>_middleware.ts\<close>

definition CONTENT_SECURITY_POLICY :: string where
  "CONTENT_SECURITY_POLICY =
     ''default-src 'none'; '' @
     ''img-src 'self'; style-src 'self'; script-src 'self'; connect-src 'self' https://cloudflare-dns.com; '' @
     ''form-action 'self'; base-uri 'none'; frame-ancestors 'none'' @ [CHR 0x27]"

text \<open>The headers of a response, under their names in lower case.\<close>

definition onRequest :: "string \<Rightarrow> (string \<times> string) list \<Rightarrow> (string \<times> string) list" where
  "onRequest pathname headers =
     (let headers =
        (if starts_with pathname ''/static/flags/''
         then al_put ''cache-control'' ''public, max-age=31536000, immutable'' headers
         else if starts_with pathname ''/static/''
         then al_put ''cache-control'' ''public, max-age=0, must-revalidate'' headers
         else headers)
      in al_put ''referrer-policy'' ''same-origin''
         (al_put ''x-frame-options'' ''DENY''
         (al_put ''x-content-type-options'' ''nosniff''
         (al_put ''content-security-policy'' CONTENT_SECURITY_POLICY headers))))"

section \<open>Bodies and background work\<close>

text \<open>\<open>await request.json()\<close>: a parse error, the value null, or an object.\<close>

datatype 'b json_body = Bad_json string | Null_json | Json 'b

datatype job = Prune_job "string list" | Publish_job | Refresh_job

definition plain :: "nat \<Rightarrow> 'b \<Rightarrow> 'b reply" where
  "plain code b = \<lparr>status = code, cacheControl = None, body = b\<rparr>"

section \<open>ingest.ts\<close>

text \<open>\<open>wc_IP\<close> is None when the field is not a string, or the element is null.\<close>

record wire_check =
  wc_IP :: "string option"
  wc_OK :: bool
  wc_RTTMs :: int
  wc_Reason :: string
  wc_Detail :: string
  wc_CheckedAt :: string
  wc_ScanMode :: string

datatype prune_field = Absent | Malformed | PruneIPs "string list"

text \<open>\<open>ib_checks\<close> is None when the field is not an array.\<close>

record ingest_body =
  ib_checks :: "wire_check list option"
  ib_maintenance :: "bool option"
  ib_pruneIPs :: prune_field

datatype ingest_reply = Text string | Accepted nat bool | Known_ips "string list"

definition wire_ip :: "wire_check \<Rightarrow> string option" where
  "wire_ip c = (case wc_IP c of None \<Rightarrow> None | Some s \<Rightarrow> normalizeIPAddress s)"

definition wire_row :: "(string \<Rightarrow> js_date) \<Rightarrow> wire_check \<Rightarrow> check_row" where
  "wire_row legacy c =
     \<lparr>cr_ip = or_else (wire_ip c) [], cr_ok = wc_OK c,
      cr_rttMs = (if wc_OK c then nonzero (wc_RTTMs c) else None),
      cr_reason = nonempty (wc_Reason c), cr_detail = nonempty (wc_Detail c),
      cr_checkedAt = new_date legacy (wc_CheckedAt c), cr_scanMode = wc_ScanMode c\<rparr>"

definition ingest_get :: "string \<Rightarrow> request \<Rightarrow> (tables, ingest_reply reply) prog" where
  "ingest_get token request =
     (if \<not> checkBearerAuth token request then ret (plain 401 (Text ''unauthorized''))
      else andThen allKnownGoodIPs (\<lambda>ips. ret (plain 200 (Known_ips ips))))"

text \<open>What happens once a body is accepted.\<close>

definition ingest_rows ::
  "int \<Rightarrow> check_row list \<Rightarrow> prune_field \<Rightarrow> bool option \<Rightarrow> (tables, ingest_reply reply \<times> job list) prog" where
  "ingest_rows now rows pruneIPs maintenance =
     andThen (insertCheckRows now rows) (\<lambda>_.
     andThen (updatePoolBatch now rows) (\<lambda>_.
     let touchedIPs = js_set (map cr_ip rows);
         legacyJobs = (if pruneIPs = Absent then [Prune_job touchedIPs] else [])
     in if maintenance = Some False then ret (plain 200 (Accepted (length rows) True), legacyJobs)
        else andThen
          (case pruneIPs of
             PruneIPs ips \<Rightarrow>
               catching
                 (andThen (pruneCheckHistory (js_set (map (\<lambda>ip. or_else (normalizeIPAddress ip) []) ips))) (\<lambda>_. ret True))
                 (\<lambda>_. ret False)
           | _ \<Rightarrow> ret True) (\<lambda>pruneOk.
          ret (plain 200 (Accepted (length rows) pruneOk), legacyJobs @ [Publish_job, Refresh_job]))))"

definition handleIngest ::
  "(string \<Rightarrow> js_date) \<Rightarrow> int \<Rightarrow> ingest_body json_body \<Rightarrow> (tables, ingest_reply reply \<times> job list) prog" where
  "handleIngest legacy now b =
     (let refuse = (\<lambda>msg. ret (plain 400 (Text msg), [])) in
      case b of
        Bad_json err \<Rightarrow> refuse (''invalid JSON body: '' @ err)
      | Null_json \<Rightarrow> throw TypeError
      | Json b \<Rightarrow>
          (case ib_checks b of
             None \<Rightarrow> refuse (''body must include 'checks'' @ [CHR 0x27])
           | Some cs \<Rightarrow>
               if ib_pruneIPs b = Malformed then refuse ''pruneIPs must be an array of strings''
               else if list_ex (\<lambda>c. wire_ip c = None) cs then refuse ''checks contain an invalid IP''
               else if (case ib_pruneIPs b of PruneIPs ips \<Rightarrow> list_ex (\<lambda>ip. normalizeIPAddress ip = None) ips | _ \<Rightarrow> False)
               then refuse ''pruneIPs contain an invalid IP''
               else ingest_rows now (coalesceCheckRows (map (wire_row legacy) cs)) (ib_pruneIPs b) (ib_maintenance b)))"

definition ingest_post ::
  "string \<Rightarrow> (js_error \<Rightarrow> string) \<Rightarrow> (string \<Rightarrow> js_date) \<Rightarrow> int \<Rightarrow> request \<Rightarrow> ingest_body json_body
    \<Rightarrow> (tables, ingest_reply reply \<times> job list) prog" where
  "ingest_post token message legacy now request b =
     (if \<not> checkBearerAuth token request then ret (plain 401 (Text ''unauthorized''), [])
      else catching (handleIngest legacy now b)
             (\<lambda>err. ret (plain 500 (Text (''ingest failed: '' @ message err)), [])))"

text \<open>The background prune of the old protocol.\<close>

definition prune_job :: "string list \<Rightarrow> (tables, unit) prog" where
  "prune_job ips = catching (pruneCheckHistory ips) (\<lambda>_. ret ())"

section \<open>recheck/result.ts\<close>

text \<open>\<open>rb_ok\<close> is None when the field is not a boolean; an absent text is empty.\<close>

record result_body =
  rb_ip :: string
  rb_ok :: "bool option"
  rb_rttMs :: "int option"
  rb_reason :: "string option"
  rb_detail :: "string option"
  rb_scanMode :: string
  rb_checkedAt :: string

datatype result_reply = Refusal string | Empty_object

text \<open>The three writes of a probe that was carried out, in this file and in check.ts.\<close>

definition record_result :: "check_row \<Rightarrow> (tables, unit) prog" where
  "record_result r =
     andThen (saveRecheckResult r) (\<lambda>_.
     andThen (updatePoolForCheck (cr_ip r) (cr_ok r) (cr_rttMs r) (cr_checkedAt r) (cr_scanMode r)) (\<lambda>_.
     pruneCheckHistory [cr_ip r]))"

definition result_post ::
  "string \<Rightarrow> (string \<Rightarrow> js_date) \<Rightarrow> request \<Rightarrow> result_body json_body \<Rightarrow> (tables, result_reply reply \<times> job list) prog"
where
  "result_post token legacy request b =
     (if \<not> checkBearerAuth token request then ret (plain 401 (Refusal ''unauthorized''), [])
      else case b of
        Bad_json _ \<Rightarrow> ret (plain 400 (Refusal ''invalid JSON body''), [])
      | Null_json \<Rightarrow> throw TypeError
      | Json b \<Rightarrow>
          if rb_ip b = [] \<or> rb_ok b = None \<or> rb_checkedAt b = []
          then ret (plain 400 (Refusal ''missing required fields''), [])
          else case normalizeIPAddress (rb_ip b) of
            None \<Rightarrow> ret (plain 400 (Refusal ''invalid ip''), [])
          | Some ip \<Rightarrow>
              let checkedAt = new_date legacy (rb_checkedAt b) in
              if checkedAt = Invalid_Date then ret (plain 400 (Refusal ''invalid checkedAt''), [])
              else andThen (record_result \<lparr>cr_ip = ip, cr_ok = or_else (rb_ok b) False, cr_rttMs = rb_rttMs b,
                     cr_reason = rb_reason b, cr_detail = rb_detail b, cr_checkedAt = checkedAt,
                     cr_scanMode = rb_scanMode b\<rparr>) (\<lambda>_.
                   ret (plain 200 Empty_object, [Publish_job])))"

section \<open>check.ts\<close>

definition RATE_LIMIT_PER_MINUTE :: int where "RATE_LIMIT_PER_MINUTE = 10"
definition DEFAULT_SCAN_MODE :: string where "DEFAULT_SCAN_MODE = ''SNI''"

record probe_response =
  pb_ok :: bool
  pb_rttMs :: "int option"
  pb_reason :: "string option"
  pb_detail :: "string option"
  pb_mixed :: bool

text \<open>A fetch that fails or times out, a reply with an error status, or an answer.\<close>

datatype probe_result = Unreachable | Probe_status nat | Probe_answer probe_response

datatype check_reply = Failure string | Probed probe_response

text \<open>What is done with the outcome of the probe.\<close>

definition check_outcome :: "string \<Rightarrow> int \<Rightarrow> probe_result \<Rightarrow> (tables, check_reply reply \<times> job list) prog" where
  "check_outcome ip checkedAt outcome =
     (case outcome of
        Unreachable \<Rightarrow> ret (plain 504 (Failure ''could not reach the probe server''), [])
      | Probe_status _ \<Rightarrow> ret (plain 502 (Failure ''probe server error''), [])
      | Probe_answer result \<Rightarrow>
          if pb_mixed result then ret (plain 200 (Probed result), [])
          else andThen (record_result \<lparr>cr_ip = ip, cr_ok = pb_ok result, cr_rttMs = pb_rttMs result,
                 cr_reason = pb_reason result, cr_detail = pb_detail result,
                 cr_checkedAt = date_of_ms checkedAt, cr_scanMode = DEFAULT_SCAN_MODE\<rparr>) (\<lambda>_.
               ret (plain 200 (Probed result), [Publish_job])))"

definition check_post ::
  "(string \<Rightarrow> js_date) \<Rightarrow> http \<Rightarrow> string \<Rightarrow> (string \<Rightarrow> probe_result) \<Rightarrow> int \<Rightarrow> int \<Rightarrow> int \<Rightarrow> request
    \<Rightarrow> (tables, check_reply reply \<times> job list) prog" where
  "check_post legacy http dohUrl probe now later checkedAt request =
     (let refuse = (\<lambda>code msg. ret (plain code (Failure msg), [])) in
      if clientCountry request \<noteq> ''CN'' then refuse 403 ''forbidden''
      else case normalizeIPAddress (or_else (params_get ''ip'' (searchParams request)) []) of
        None \<Rightarrow> refuse 400 ''invalid ip''
      | Some ip \<Rightarrow>
          let cip = or_else (CF_Connecting_IP request) [] in
          if cip = [] then refuse 400 ''could not determine client ip''
          else andThen (checkRateLimit now ''probe'' cip RATE_LIMIT_PER_MINUTE 60000) (\<lambda>allowed.
            if \<not> allowed then refuse 429 ''rate limit exceeded, try again later''
            else andThen
              (catching (andThen (lookupGoogleASN legacy http dohUrl now later ip) (\<lambda>asn. ret (Some asn)))
                 (\<lambda>_. ret None)) (\<lambda>asn.
              case asn of
                None \<Rightarrow> refuse 503 ''could not verify this IP's ASN right now''
              | Some (info, ok) \<Rightarrow>
                  if \<not> ok \<or> \<not> isGoogleASN info then refuse 400 ''this IP does not belong to a Google ASN''
                  else check_outcome ip checkedAt (probe ip))))"

end
