(* ===== verification/DnsWire.thy ===== *)
theory DnsWire
  imports Resolver "HOL-Library.Word"
begin

text \<open>
  src/src/dnsWire.ts: PTR queries and answers as RFC 1035 messages, with the RFC 7766 length
  prefix for TCP. A \<open>Uint8Array\<close> is a list of bytes; a number stored in one keeps its lowest
  eight bits. Reading past the end of a DataView throws a RangeError, reading a missing element
  gives undefined, and subarray clamps.
\<close>

section \<open>Bytes\<close>

type_synonym byte = "8 word"

definition byte :: "nat \<Rightarrow> byte" where
  "byte n = of_nat n"

definition char_byte :: "char \<Rightarrow> byte" where
  "char_byte c = of_nat (of_char c)"

definition byte_char :: "byte \<Rightarrow> char" where
  "byte_char b = char_of (unat b)"

text \<open>\<open>setUint16\<close> writes the lowest 16 bits, most significant byte first.\<close>

definition uint16 :: "nat \<Rightarrow> byte list" where
  "uint16 n = [byte (n div 256), byte n]"

definition getUint16 :: "byte list \<Rightarrow> nat \<Rightarrow> nat res" where
  "getUint16 buf o' =
     (if length buf < o' + 2 then Inl RangeError else Inr (unat (buf ! o') * 256 + unat (buf ! (o' + 1))))"

definition getUint32 :: "byte list \<Rightarrow> nat \<Rightarrow> nat res" where
  "getUint32 buf o' =
     (if length buf < o' + 4 then Inl RangeError
      else Inr (((unat (buf ! o') * 256 + unat (buf ! (o' + 1))) * 256 + unat (buf ! (o' + 2))) * 256 + unat (buf ! (o' + 3))))"

section \<open>Queries\<close>

definition label_bytes :: "string \<Rightarrow> byte list" where
  "label_bytes p = (if p = [] then [] else byte (length p) # map char_byte p)"

definition encodeQName :: "string \<Rightarrow> byte list" where
  "encodeQName name = concat (map label_bytes (split_char CHR ''.'' name)) @ [0]"

definition buildPTRQuery :: "nat \<Rightarrow> string \<Rightarrow> byte list res" where
  "buildPTRQuery qid ip =
     (case reverseName ip of
        Inl e \<Rightarrow> Inl e
      | Inr rname \<Rightarrow>
          let msg = uint16 qid @ uint16 0x0100 @ uint16 1 @ [0, 0, 0, 0, 0, 0]
                @ encodeQName rname @ uint16 12 @ uint16 1
          in Inr (uint16 (length msg) @ msg))"

section \<open>Names\<close>

text \<open>\<open>(len & 0xc0) === 0xc0\<close>.\<close>

definition is_pointer :: "byte \<Rightarrow> bool" where
  "is_pointer b = (192 \<le> unat b)"

function skipName :: "byte list \<Rightarrow> nat \<Rightarrow> nat" where
  "skipName buf o' =
     (if o' < length buf then
        let len = buf ! o' in
        if len = 0 then o' + 1
        else if is_pointer len then o' + 2
        else skipName buf (o' + 1 + unat len)
      else o')"
  by pat_completeness auto
termination
  by (relation "measure (\<lambda>(buf, o'). length buf - o')") auto

declare skipName.simps [simp del]

text \<open>
  The loop of decodeName, with the labels read so far. Every jump raises \<open>jumps\<close>, which may not
  pass 21; between jumps the offset grows.
\<close>

definition pointer_target :: "byte list \<Rightarrow> nat \<Rightarrow> nat" where
  "pointer_target buf o' =
     (unat (buf ! o') mod 64) * 256 + (if o' + 1 < length buf then unat (buf ! (o' + 1)) else 0)"

function decode_labels ::
  "byte list \<Rightarrow> nat \<Rightarrow> nat option \<Rightarrow> nat \<Rightarrow> string list \<Rightarrow> (string list \<times> nat) res"
where
  "decode_labels buf o' next jumps labels =
     (if o' < length buf then
        let len = buf ! o' in
        if len = 0 then Inr (labels, case next of None \<Rightarrow> o' + 1 | Some n \<Rightarrow> n)
        else if is_pointer len then
          if 20 < jumps then Inl (JsError ''dns: compression pointer loop'')
          else decode_labels buf (pointer_target buf o')
            (case next of None \<Rightarrow> Some (o' + 2) | Some n \<Rightarrow> Some n) (jumps + 1) labels
        else decode_labels buf (o' + 1 + unat len) next jumps
          (labels @ [map byte_char (take (unat len) (drop (o' + 1) buf))])
      else Inr (labels, case next of None \<Rightarrow> o' | Some n \<Rightarrow> n))"
  by pat_completeness auto
termination
  by (relation "measures [\<lambda>(buf, o', next, jumps, labels). 21 - jumps, \<lambda>(buf, o', next, jumps, labels). length buf - o']") auto

declare decode_labels.simps [simp del]

definition decodeName :: "byte list \<Rightarrow> nat \<Rightarrow> (string \<times> nat) res" where
  "decodeName buf offset =
     (case decode_labels buf offset None 0 [] of
        Inl e \<Rightarrow> Inl e
      | Inr (labels, next) \<Rightarrow> Inr (join ''.'' labels, next))"

section \<open>Answers\<close>

record dns_answer =
  an_type :: nat
  an_ttl :: nat
  an_data :: string

record dns_response =
  rs_id :: nat
  rs_rcode :: nat
  rs_answers :: "dns_answer list"

fun skip_questions :: "byte list \<Rightarrow> nat \<Rightarrow> nat \<Rightarrow> nat" where
  "skip_questions buf 0 o' = o'"
| "skip_questions buf (Suc n) o' = skip_questions buf n (skipName buf o' + 4)"

text \<open>One record of the answer section: the answer if it is a PTR record, and the next offset.\<close>

definition parse_record :: "byte list \<Rightarrow> nat \<Rightarrow> (dns_answer list \<times> nat) res" where
  "parse_record buf o0 =
     (let o' = skipName buf o0 in
      case getUint16 buf o' of Inl e \<Rightarrow> Inl e | Inr type \<Rightarrow>
      (case getUint32 buf (o' + 4) of Inl e \<Rightarrow> Inl e | Inr ttl \<Rightarrow>
      (case getUint16 buf (o' + 8) of Inl e \<Rightarrow> Inl e | Inr rdlength \<Rightarrow>
         let rdataOffset = o' + 10 in
         if type = 12
         then (case decodeName buf rdataOffset of
                 Inl e \<Rightarrow> Inl e
               | Inr (name, _) \<Rightarrow> Inr ([\<lparr>an_type = type, an_ttl = ttl, an_data = name\<rparr>], rdataOffset + rdlength))
         else Inr ([], rdataOffset + rdlength))))"

fun parse_records :: "byte list \<Rightarrow> nat \<Rightarrow> nat \<Rightarrow> dns_answer list res" where
  "parse_records buf 0 o' = Inr []"
| "parse_records buf (Suc n) o' =
     (case parse_record buf o' of
        Inl e \<Rightarrow> Inl e
      | Inr (as, next) \<Rightarrow>
          (case parse_records buf n next of Inl e \<Rightarrow> Inl e | Inr rest \<Rightarrow> Inr (as @ rest)))"

definition parseMessage :: "byte list \<Rightarrow> dns_response res" where
  "parseMessage buf =
     (if length buf < 12 then Inl (JsError ''dns: message too short'')
      else case getUint16 buf 0 of Inl e \<Rightarrow> Inl e | Inr mid \<Rightarrow>
      (case getUint16 buf 4 of Inl e \<Rightarrow> Inl e | Inr qdcount \<Rightarrow>
      (case getUint16 buf 6 of Inl e \<Rightarrow> Inl e | Inr ancount \<Rightarrow>
      (case parse_records buf ancount (skip_questions buf qdcount 12) of
         Inl e \<Rightarrow> Inl e
       | Inr answers \<Rightarrow> Inr \<lparr>rs_id = mid, rs_rcode = unat (buf ! 3) mod 16, rs_answers = answers\<rparr>))))"

section \<open>Reading a name back\<close>

text \<open>A label that fits: not empty, shorter than the pointer marks, without a dot.\<close>

definition good_label :: "string \<Rightarrow> bool" where
  "good_label p \<longleftrightarrow> p \<noteq> [] \<and> length p < 192 \<and> CHR ''.'' \<notin> set p"

lemma unat_byte: "n < 256 \<Longrightarrow> unat (byte n) = n"
  by (simp add: byte_def unat_of_nat)

lemma byte_char_byte [simp]: "byte_char (char_byte c) = c"
proof -
  have "(of_char c :: nat) < 256" by simp
  then have "unat (char_byte c) = of_char c" unfolding char_byte_def by (simp add: unat_of_nat)
  then show ?thesis by (simp add: byte_char_def)
qed

lemma label_bytes_good: "good_label p \<Longrightarrow> label_bytes p = byte (length p) # map char_byte p"
  by (simp add: label_bytes_def good_label_def)

lemma decode_label:
  assumes "good_label p"
  shows "decode_labels (pre @ label_bytes p @ rest) (length pre) next jumps labels
    = decode_labels (pre @ label_bytes p @ rest) (length pre + length (label_bytes p)) next jumps (labels @ [p])"
proof -
  have n: "unat (byte (length p)) = length p" using assms by (intro unat_byte) (simp add: good_label_def)
  then have "byte (length p) \<noteq> 0" using assms unfolding good_label_def by (metis length_0_conv unat_0)
  moreover have "\<not> is_pointer (byte (length p))" using n assms by (simp add: is_pointer_def good_label_def)
  moreover have "map byte_char (map char_byte p) = p" by (simp add: comp_def)
  ultimately show ?thesis
    by (subst decode_labels.simps) (simp add: label_bytes_good [OF assms] n nth_append del: map_map)
qed

lemma decode_encoded:
  assumes "\<forall>p \<in> set ps. good_label p"
  shows "decode_labels (pre @ concat (map label_bytes ps) @ 0 # post) (length pre) next jumps labels
    = Inr (labels @ ps, case next of None \<Rightarrow> length pre + length (concat (map label_bytes ps)) + 1 | Some n \<Rightarrow> n)"
  using assms
proof (induction ps arbitrary: pre labels)
  case Nil
  show ?case by (subst decode_labels.simps) (simp add: nth_append split: option.split)
next
  case (Cons p ps)
  have "decode_labels (pre @ concat (map label_bytes (p # ps)) @ 0 # post) (length pre) next jumps labels
    = decode_labels ((pre @ label_bytes p) @ concat (map label_bytes ps) @ 0 # post) (length (pre @ label_bytes p))
        next jumps (labels @ [p])"
    using decode_label [of p pre "concat (map label_bytes ps) @ 0 # post" "next" jumps labels] Cons.prems by simp
  also have "\<dots> = Inr ((labels @ [p]) @ ps, case next of None \<Rightarrow> length (pre @ label_bytes p) + length (concat (map label_bytes ps)) + 1 | Some n \<Rightarrow> n)"
    using Cons.prems by (intro Cons.IH) simp
  finally show ?case by (simp add: add.assoc split: option.split)
qed

text \<open>Decoding a name leaves off where skipping it does.\<close>

lemma skip_encoded:
  assumes "\<forall>p \<in> set ps. good_label p"
  shows "skipName (pre @ concat (map label_bytes ps) @ 0 # post) (length pre)
    = length pre + length (concat (map label_bytes ps)) + 1"
  using assms
proof (induction ps arbitrary: pre)
  case Nil
  show ?case by (subst skipName.simps) (simp add: nth_append)
next
  case (Cons p ps)
  then have p: "good_label p" by simp
  have n: "unat (byte (length p)) = length p" using p by (intro unat_byte) (simp add: good_label_def)
  then have "byte (length p) \<noteq> 0" using p unfolding good_label_def by (metis length_0_conv unat_0)
  moreover have "\<not> is_pointer (byte (length p))" using n p by (simp add: is_pointer_def good_label_def)
  ultimately have "skipName (pre @ concat (map label_bytes (p # ps)) @ 0 # post) (length pre)
    = skipName ((pre @ label_bytes p) @ concat (map label_bytes ps) @ 0 # post) (length (pre @ label_bytes p))"
    by (subst skipName.simps) (simp add: label_bytes_good [OF p] n nth_append)
  also have "\<dots> = length (pre @ label_bytes p) + length (concat (map label_bytes ps)) + 1"
    using Cons.prems by (intro Cons.IH) simp
  finally show ?case by simp
qed

text \<open>Two-byte numbers read back modulo \<open>2 ^ 16\<close>.\<close>

lemma length_uint16 [simp]: "length (uint16 n) = 2"
  by (simp add: uint16_def)

lemma get_uint16: "getUint16 (pre @ uint16 n @ post) (length pre) = Inr (n mod 65536)"
proof -
  have "unat (byte (n div 256)) * 256 + unat (byte n) = n mod 65536"
    using mod_mult2_eq [of n 256 256] by (simp add: byte_def unat_of_nat)
  then show ?thesis by (simp add: getUint16_def uint16_def nth_append)
qed

lemma get_uint16_at: "o' = length pre \<Longrightarrow> getUint16 (pre @ uint16 n @ post) o' = Inr (n mod 65536)"
  by (simp add: get_uint16)

end
