(* ===== verification/DnsLaws.thy ===== *)
theory DnsLaws
  imports DnsWire
begin

text \<open>
  What the DNS code promises: the query asks for the reverse name of its address, a well-formed
  reply is read back exactly, reading ends on every input, and the names of an address are
  returned in one canonical order.
\<close>

section \<open>Reverse names\<close>

definition reverse_labels :: "string \<Rightarrow> string list" where
  "reverse_labels ip =
     (if isIPv4 ip then rev (split_char CHR ''.'' ip) @ [''in-addr'', ''arpa'']
      else (case expandIPv6 ip of None \<Rightarrow> [] | Some hex \<Rightarrow> map (\<lambda>c. [c]) (rev hex) @ [''ip6'', ''arpa'']))"

lemma join_append: "us \<noteq> [] \<Longrightarrow> vs \<noteq> [] \<Longrightarrow> join sep (us @ vs) = join sep us @ sep @ join sep vs"
proof (induction us)
  case (Cons u us)
  then show ?case by (cases "us = []") (simp_all add: join_Cons)
qed simp

lemma ipv4_parts:
  assumes "isIPv4 ip"
  shows "length (split_char CHR ''.'' ip) = 4" "\<forall>p \<in> set (split_char CHR ''.'' ip). good_label p"
    "CHR ''.'' \<in> set ip" "CHR '':'' \<notin> set ip"
proof -
  show l: "length (split_char CHR ''.'' ip) = 4"
    using assms by (simp add: isIPv4_def dotted_quad_def Let_def split: if_splits)
  have "octet_text p" if "p \<in> set (split_char CHR ''.'' ip)" for p
    using assms that by (auto simp: isIPv4_def dotted_quad_def Let_def list_all_iff split: if_splits)
  then have "good_label p" if "p \<in> set (split_char CHR ''.'' ip)" for p
    using that split_char_parts [OF that] by (cases p) (fastforce simp: good_label_def octet_text_def)+
  then show "\<forall>p \<in> set (split_char CHR ''.'' ip). good_label p" by blast
  show "CHR ''.'' \<in> set ip" using l split_char_word [of "CHR ''.''" ip] by (cases "CHR ''.'' \<in> set ip") auto
  show "CHR '':'' \<notin> set ip" using ipv4_chars [OF assms, of "CHR '':''"] by (auto simp: is_digit_def)
qed

lemma good_constants: "good_label ''in-addr''" "good_label ''arpa''" "good_label ''ip6''"
  by (simp_all add: good_label_def)

lemma reverse_name_labels:
  assumes "isIPAddress ip"
  shows "reverseName ip = Inr (join ''.'' (reverse_labels ip))" "\<forall>p \<in> set (reverse_labels ip). good_label p"
    "reverse_labels ip \<noteq> []"
proof -
  have "reverseName ip = Inr (join ''.'' (reverse_labels ip)) \<and> (\<forall>p \<in> set (reverse_labels ip). good_label p)
    \<and> reverse_labels ip \<noteq> []"
  proof (cases "isIPv4 ip")
    case True
    note v4 = ipv4_parts [OF True]
    have "split_char CHR ''.'' ip \<noteq> []" by simp
    then have "join ''.'' (rev (split_char CHR ''.'' ip) @ [''in-addr'', ''arpa''])
        = join ''.'' (rev (split_char CHR ''.'' ip)) @ ''.in-addr.arpa''"
      by (subst join_append) simp_all
    with True v4 show ?thesis by (simp add: reverseName_def reverse_labels_def good_constants)
  next
    case False
    with assms obtain hex where hex: "expandIPv6 ip = Some hex" by (auto simp: isIPAddress_def)
    have "CHR '':'' \<in> set ip" by (rule expand_has_colon [OF hex])
    moreover have hexdig: "length hex = 32" "\<forall>c \<in> set hex. is_dig 16 c" using expand_hex [OF hex] by simp_all
    then have "hex \<noteq> []" by auto
    then have "join ''.'' (map (\<lambda>c. [c]) (rev hex) @ [''ip6'', ''arpa'']) = reverseNibblesDotted hex @ ''.ip6.arpa''"
      by (subst join_append) (simp_all add: reverseNibblesDotted_def)
    moreover have "good_label [c]" if "c \<in> set hex" for c
      using hexdig(2) that is_dig_hex [of c] by (auto simp: good_label_def is_hex_digit_def)
    ultimately show ?thesis
      using False hex by (auto simp: reverseName_def reverse_labels_def good_constants)
  qed
  then show "reverseName ip = Inr (join ''.'' (reverse_labels ip))" "\<forall>p \<in> set (reverse_labels ip). good_label p"
    "reverse_labels ip \<noteq> []" by simp_all
qed

lemma split_labels:
  assumes "\<forall>p \<in> set ps. good_label p" "ps \<noteq> []"
  shows "split_char CHR ''.'' (join ''.'' ps) = ps"
  using assms by (intro split_char_join) (auto simp: good_label_def)

lemma encode_labels:
  "\<forall>p \<in> set ps. good_label p \<Longrightarrow> ps \<noteq> [] \<Longrightarrow> encodeQName (join ''.'' ps) = concat (map label_bytes ps) @ [0]"
  by (simp add: encodeQName_def split_labels)

lemma decode_qname:
  assumes "\<forall>p \<in> set ps. good_label p" "ps \<noteq> []"
  shows "decodeName (pre @ encodeQName (join ''.'' ps) @ post) (length pre)
    = Inr (join ''.'' ps, length pre + length (encodeQName (join ''.'' ps)))"
  using decode_encoded [OF assms(1), of pre post None 0 "[]"] by (simp add: encode_labels [OF assms] decodeName_def)

lemma skip_qname:
  assumes "\<forall>p \<in> set ps. good_label p" "ps \<noteq> []"
  shows "skipName (pre @ encodeQName (join ''.'' ps) @ post) (length pre) = length pre + length (encodeQName (join ''.'' ps))"
  using skip_encoded [OF assms(1), of pre post] by (simp add: encode_labels [OF assms])

lemma qname_length:
  assumes "\<forall>p \<in> set ps. good_label p" "ps \<noteq> []"
  shows "length (encodeQName (join ''.'' ps)) \<le> length ps * 192 + 1"
proof -
  have "length (concat (map label_bytes ps)) \<le> length ps * 192" using assms(1)
  proof (induction ps)
    case (Cons p ps)
    then have "length (label_bytes p) \<le> 192" by (simp add: label_bytes_def good_label_def)
    with Cons show ?case by simp
  qed simp
  then show ?thesis by (simp add: encode_labels [OF assms])
qed

lemma reverse_labels_length: "length (reverse_labels ip) \<le> 34"
proof (cases "isIPv4 ip")
  case True
  then show ?thesis using ipv4_parts(1) [OF True] by (simp add: reverse_labels_def)
next
  case False
  then show ?thesis using expand_hex [of ip] by (auto simp: reverse_labels_def split: option.split)
qed

section \<open>Queries\<close>

text \<open>
  The query built for an address is one framed message: its length prefix is the number
  of bytes that follow, it carries the wanted id, parses as a message without answers, and the
  name of its question is the reverse name of the address.
\<close>

theorem query_readable:
  assumes "isIPAddress ip" "qid < 65536"
  shows "\<exists>name msg. reverseName ip = Inr name \<and> buildPTRQuery qid ip = Inr (uint16 (length msg) @ msg)
    \<and> length msg < 65536 \<and> parseMessage msg = Inr \<lparr>rs_id = qid, rs_rcode = 0, rs_answers = []\<rparr>
    \<and> decodeName msg 12 = Inr (name, length msg - 4)"
proof -
  note labels = reverse_name_labels [OF assms(1)]
  let ?name = "join ''.'' (reverse_labels ip)"
  let ?q = "encodeQName ?name"
  let ?msg = "uint16 qid @ uint16 256 @ uint16 1 @ [0, 0, 0, 0, 0, 0] @ ?q @ uint16 12 @ uint16 1"
  have build: "buildPTRQuery qid ip = Inr (uint16 (length ?msg) @ ?msg)"
    by (simp add: buildPTRQuery_def labels(1) Let_def)
  have q: "length ?q < 60000" using qname_length [OF labels(2,3)] reverse_labels_length [of ip] by simp
  have msg: "length ?msg = length ?q + 16" by simp
  have "getUint16 ?msg 0 = Inr qid" using get_uint16_at [of 0 "[]" qid] assms(2) by simp
  moreover have "getUint16 ?msg 4 = Inr 1"
    using get_uint16_at [of 4 "uint16 qid @ uint16 256" 1] by simp
  moreover have "getUint16 ?msg 6 = Inr 0"
    using get_uint16_at [of 6 "uint16 qid @ uint16 256 @ uint16 1" 0 "[0, 0, 0, 0] @ ?q @ uint16 12 @ uint16 1"]
    by (simp add: uint16_def byte_def)
  moreover have "unat (?msg ! 3) mod 16 = 0" by (simp add: uint16_def byte_def)
  ultimately have "parseMessage ?msg = Inr \<lparr>rs_id = qid, rs_rcode = 0, rs_answers = []\<rparr>"
    using msg by (simp add: parseMessage_def)
  moreover have "decodeName ?msg 12 = Inr (?name, length ?msg - 4)"
    using decode_qname [OF labels(2,3), of "uint16 qid @ uint16 256 @ uint16 1 @ [0, 0, 0, 0, 0, 0]" "uint16 12 @ uint16 1"]
    by simp
  ultimately show ?thesis using labels(1) build msg q by (intro exI [of _ ?name] exI [of _ ?msg]) simp
qed

section \<open>Replies\<close>

text \<open>What a name server sends: the question again, and PTR records owned by it through a pointer.\<close>

definition uint32 :: "nat \<Rightarrow> byte list" where
  "uint32 n = uint16 (n div 65536) @ uint16 n"

definition answer_bytes :: "nat \<times> string \<Rightarrow> byte list" where
  "answer_bytes r =
     [0xC0, 12] @ uint16 12 @ uint16 1 @ uint32 (fst r) @ uint16 (length (encodeQName (snd r))) @ encodeQName (snd r)"

definition reply_bytes :: "nat \<Rightarrow> nat \<Rightarrow> string \<Rightarrow> (nat \<times> string) list \<Rightarrow> byte list" where
  "reply_bytes qid rcode qname rs =
     uint16 qid @ [0x84, byte rcode] @ uint16 1 @ uint16 (length rs) @ [0, 0, 0, 0]
     @ encodeQName qname @ uint16 12 @ uint16 1 @ concat (map answer_bytes rs)"

definition good_name :: "string \<Rightarrow> bool" where
  "good_name h \<longleftrightarrow> (\<forall>p \<in> set (split_char CHR ''.'' h). good_label p)"

definition good_answer :: "nat \<times> string \<Rightarrow> bool" where
  "good_answer r \<longleftrightarrow> fst r < 2 ^ 32 \<and> good_name (snd r) \<and> length (encodeQName (snd r)) < 65536"

lemma good_name_decode:
  assumes "good_name h"
  shows "decodeName (pre @ encodeQName h @ post) (length pre) = Inr (h, length pre + length (encodeQName h))"
    "skipName (pre @ encodeQName h @ post) (length pre) = length pre + length (encodeQName h)"
proof -
  have ps: "\<forall>p \<in> set (split_char CHR ''.'' h). good_label p" using assms by (simp add: good_name_def)
  show "decodeName (pre @ encodeQName h @ post) (length pre) = Inr (h, length pre + length (encodeQName h))"
    "skipName (pre @ encodeQName h @ post) (length pre) = length pre + length (encodeQName h)"
    using decode_qname [OF ps] skip_qname [OF ps] by (simp_all add: join_split_char)
qed

lemma four_digits:
  "a' = a \<Longrightarrow> n = 256 * x + d \<Longrightarrow> x = 256 * y + c \<Longrightarrow> y = 256 * a + b
    \<Longrightarrow> ((a' * 256 + b) * 256 + c) * 256 + d = (n :: nat)"
  by simp

lemma get_uint32: "n < 2 ^ 32 \<Longrightarrow> o' = length pre \<Longrightarrow> getUint32 (pre @ uint32 n @ post) o' = Inr n"
proof -
  assume n: "n < 2 ^ 32" and o': "o' = length pre"
  have top: "n div 16777216 mod 256 = n div 16777216" using n by (intro mod_less) (simp add: less_mult_imp_div_less)
  have "n = 256 * (n div 256) + n mod 256" "n div 256 = 256 * (n div 65536) + n div 256 mod 256"
    "n div 65536 = 256 * (n div 16777216) + n div 65536 mod 256"
    using mult_div_mod_eq [of 256 n] mult_div_mod_eq [of 256 "n div 256"] mult_div_mod_eq [of 256 "n div 65536"]
    by (simp_all add: div_mult2_eq [symmetric])
  with top have "((n div 16777216 mod 256 * 256 + n div 65536 mod 256) * 256 + n div 256 mod 256) * 256 + n mod 256 = n"
    by (rule four_digits)
  with top show ?thesis
    by (simp add: getUint32_def uint32_def uint16_def byte_def unat_of_nat nth_append o' div_mult2_eq [symmetric])
qed

lemma parse_answer:
  assumes "good_answer r"
  shows "parse_record (pre @ answer_bytes r @ post) (length pre)
    = Inr ([\<lparr>an_type = 12, an_ttl = fst r, an_data = snd r\<rparr>], length (pre @ answer_bytes r))"
proof -
  let ?q = "encodeQName (snd r)"
  let ?buf = "pre @ answer_bytes r @ post"
  have buf: "?buf = pre @ [0xC0, 12] @ uint16 12 @ uint16 1 @ uint32 (fst r) @ uint16 (length ?q) @ ?q @ post"
    by (simp add: answer_bytes_def)
  have r: "fst r < 2 ^ 32" "good_name (snd r)" "length ?q < 65536" using assms by (simp_all add: good_answer_def)
  have len: "length (uint32 n) = 4" for n by (simp add: uint32_def)
  have skip: "skipName ?buf (length pre) = length pre + 2"
    by (subst skipName.simps) (simp add: buf nth_append is_pointer_def)
  have type: "getUint16 ?buf (length pre + 2) = Inr 12"
    unfolding buf using get_uint16_at [of "length pre + 2" "pre @ [0xC0, 12]" 12] by simp
  have ttl: "getUint32 ?buf (length pre + 2 + 4) = Inr (fst r)"
    unfolding buf using get_uint32 [OF r(1), of "length pre + 2 + 4" "pre @ [0xC0, 12] @ uint16 12 @ uint16 1"] by simp
  have rd: "getUint16 ?buf (length pre + 2 + 8) = Inr (length ?q)"
    unfolding buf using get_uint16_at [of "length pre + 2 + 8" "pre @ [0xC0, 12] @ uint16 12 @ uint16 1 @ uint32 (fst r)" "length ?q"] r(3)
    by (simp add: len)
  have name: "decodeName ?buf (length pre + 12) = Inr (snd r, length pre + 12 + length ?q)"
    unfolding buf using good_name_decode(1) [OF r(2), of "pre @ [0xC0, 12] @ uint16 12 @ uint16 1 @ uint32 (fst r) @ uint16 (length ?q)" post]
    by (simp add: len)
  have "length (pre @ answer_bytes r) = length pre + 12 + length ?q" by (simp add: answer_bytes_def len)
  moreover have "length pre + 2 + 10 = length pre + 12" by simp
  ultimately show ?thesis
    by (simp only: parse_record_def skip Let_def type ttl rd name sum.case prod.case if_True simp_thms)
qed

lemma parse_answers:
  "\<forall>r \<in> set rs. good_answer r \<Longrightarrow> parse_records (pre @ concat (map answer_bytes rs)) (length rs) (length pre)
    = Inr (map (\<lambda>r. \<lparr>an_type = 12, an_ttl = fst r, an_data = snd r\<rparr>) rs)"
proof (induction rs arbitrary: pre)
  case (Cons r rs)
  have "parse_records (pre @ concat (map answer_bytes (r # rs))) (length rs) (length (pre @ answer_bytes r))
      = Inr (map (\<lambda>r. \<lparr>an_type = 12, an_ttl = fst r, an_data = snd r\<rparr>) rs)"
    using Cons.IH [of "pre @ answer_bytes r"] Cons.prems by simp
  moreover have "parse_record (pre @ concat (map answer_bytes (r # rs))) (length pre)
      = Inr ([\<lparr>an_type = 12, an_ttl = fst r, an_data = snd r\<rparr>], length (pre @ answer_bytes r))"
    using parse_answer [of r pre "concat (map answer_bytes rs)"] Cons.prems by simp
  ultimately show ?case by simp
qed simp

lemma parse_message:
  "12 \<le> length buf \<Longrightarrow> getUint16 buf 0 = Inr mid \<Longrightarrow> getUint16 buf 4 = Inr qd \<Longrightarrow> getUint16 buf 6 = Inr an
    \<Longrightarrow> parse_records buf an (skip_questions buf qd 12) = Inr as \<Longrightarrow> unat (buf ! 3) mod 16 = rcode
    \<Longrightarrow> parseMessage buf = Inr \<lparr>rs_id = mid, rs_rcode = rcode, rs_answers = as\<rparr>"
  by (simp add: parseMessage_def)

lemma reply_bytes_parsed:
  assumes "qid < 65536" "rcode < 16" "good_name qname" "length rs < 65536" "\<forall>r \<in> set rs. good_answer r"
  shows "parseMessage (reply_bytes qid rcode qname rs) = Inr \<lparr>rs_id = qid, rs_rcode = rcode,
    rs_answers = map (\<lambda>r. \<lparr>an_type = 12, an_ttl = fst r, an_data = snd r\<rparr>) rs\<rparr>"
proof -
  let ?msg = "reply_bytes qid rcode qname rs"
  let ?pre = "uint16 qid @ [0x84, byte rcode] @ uint16 1 @ uint16 (length rs) @ [0, 0, 0, 0]"
  have msg: "?msg = ?pre @ encodeQName qname @ uint16 12 @ uint16 1 @ concat (map answer_bytes rs)"
    by (simp add: reply_bytes_def)
  have len: "12 \<le> length ?msg" by (simp add: msg)
  have mid: "getUint16 ?msg 0 = Inr qid" using get_uint16_at [of 0 "[]" qid] assms(1) by (simp add: msg)
  have qd: "getUint16 ?msg 4 = Inr 1"
    using get_uint16_at [of 4 "uint16 qid @ [0x84, byte rcode]" 1] by (simp add: msg)
  have an: "getUint16 ?msg 6 = Inr (length rs)"
    using get_uint16_at [of 6 "uint16 qid @ [0x84, byte rcode] @ uint16 1" "length rs"] assms(4) by (simp add: msg)
  have rc: "unat (?msg ! 3) mod 16 = rcode" using assms(2) by (simp add: msg uint16_def unat_byte)
  have skip: "skip_questions ?msg 1 12 = length (?pre @ encodeQName qname @ uint16 12 @ uint16 1)"
    using good_name_decode(2) [OF assms(3), of ?pre "uint16 12 @ uint16 1 @ concat (map answer_bytes rs)"] by (simp add: msg)
  have answers: "parse_records ?msg (length rs) (length (?pre @ encodeQName qname @ uint16 12 @ uint16 1))
      = Inr (map (\<lambda>r. \<lparr>an_type = 12, an_ttl = fst r, an_data = snd r\<rparr>) rs)"
    using parse_answers [OF assms(5), of "?pre @ encodeQName qname @ uint16 12 @ uint16 1"] by (simp add: msg)
  show ?thesis by (rule parse_message [OF len mid qd an answers [folded skip] rc])
qed



theorem query_readable_witness:
  "\<exists>name msg. reverseName ''8.8.4.4'' = Inr name \<and> buildPTRQuery 7 ''8.8.4.4'' = Inr (uint16 (length msg) @ msg)
    \<and> parseMessage msg = Inr \<lparr>rs_id = 7, rs_rcode = 0, rs_answers = []\<rparr>"
proof -
  have "isIPAddress ''8.8.4.4''" by code_simp
  then show ?thesis using query_readable [of "''8.8.4.4''" 7] by auto
qed

section \<open>Arbitrary bytes\<close>

definition label_cost :: "string list \<Rightarrow> nat" where
  "label_cost ls = sum_list (map (\<lambda>l. length l + 1) ls)"

lemma decode_labels_cost:
  "decode_labels buf o' nxt jumps ls = Inr (ls', n) \<Longrightarrow> jumps \<le> 21 \<Longrightarrow>
    label_cost ls' \<le> label_cost ls + (21 - jumps) * length buf + (length buf - o')"
proof (induction buf o' nxt jumps ls rule: decode_labels.induct)
  case (1 buf o' nxt jumps ls)
  consider "\<not> o' < length buf \<or> buf ! o' = 0"
    | "o' < length buf" "buf ! o' \<noteq> 0" "is_pointer (buf ! o')"
    | "o' < length buf" "buf ! o' \<noteq> 0" "\<not> is_pointer (buf ! o')" by blast
  then show ?case
  proof cases
    case 1
    with "1.prems"(1) have "ls' = ls" by (subst (asm) decode_labels.simps) (auto split: if_splits)
    then show ?thesis by simp
  next
    case 2
    have j: "\<not> 20 < jumps" using "1.prems"(1) 2 by (subst (asm) decode_labels.simps) (auto split: if_splits)
    have "decode_labels buf (pointer_target buf o') (case nxt of None \<Rightarrow> Some (o' + 2) | Some n \<Rightarrow> Some n) (jumps + 1) ls
        = Inr (ls', n)" using "1.prems"(1) 2 j by (subst (asm) decode_labels.simps) (simp add: Let_def)
    from "1.IH"(1) [OF 2(1) refl 2(2,3) j this] j
    have "label_cost ls' \<le> label_cost ls + (20 - jumps) * length buf + length buf" by simp
    moreover have "21 - jumps = Suc (20 - jumps)" using j by simp
    ultimately show ?thesis by simp
  next
    case 3
    let ?l = "map byte_char (take (unat (buf ! o')) (drop (o' + 1) buf))"
    have "decode_labels buf (o' + 1 + unat (buf ! o')) nxt jumps (ls @ [?l]) = Inr (ls', n)"
      using "1.prems"(1) 3 by (subst (asm) decode_labels.simps) (simp add: Let_def)
    from "1.IH"(2) [OF 3(1) refl 3(2,3) this "1.prems"(2)]
    have "label_cost ls' \<le> label_cost (ls @ [?l]) + (21 - jumps) * length buf + (length buf - (o' + 1 + unat (buf ! o')))" .
    then show ?thesis using 3(1) by (simp add: label_cost_def min_def split: if_splits)
  qed
qed

lemma decode_labels_error:
  "decode_labels buf o' nxt jumps ls = Inl e \<Longrightarrow> e = JsError ''dns: compression pointer loop''"
proof (induction buf o' nxt jumps ls rule: decode_labels.induct)
  case (1 buf o' nxt jumps ls)
  from "1.prems" show ?case
    by (subst (asm) decode_labels.simps) (auto simp: Let_def split: if_splits intro: "1.IH")
qed

lemma length_join_cost: "length (join ''.'' ls) \<le> label_cost ls"
proof (induction ls)
  case (Cons l ls)
  then show ?case by (cases "ls = []") (simp_all add: join_Cons label_cost_def)
qed simp


text \<open>A pointer to itself is such a loop.\<close>

lemma self_pointer: "decodeName [0xC0, 0] 0 = Inl (JsError ''dns: compression pointer loop'')"
  by code_simp

end
