(* ===== verification/PtrRefresh.thy ===== *)
theory PtrRefresh
  imports DnsLaws CacheLaws
begin

text \<open>
  src/src/ptrRefresh.ts: the round of reverse lookups that are due, over one TCP connection.
  The connection is a parameter \<open>socket\<close>: for the queries written to it, what the reader then
  yields, one item per read: bytes, the end of the stream or of the time limit, or a failure.
  Replies are cut out of the byte stream by their length prefix, whatever way the stream is cut
  into reads.
\<close>

section \<open>Reading replies\<close>

definition BATCH_LIMIT :: nat where "BATCH_LIMIT = 500"
definition MIN_CACHE_TTL_SECONDS :: int where "MIN_CACHE_TTL_SECONDS = 60 * 60"

record ptr_result =
  pr_rcode :: nat
  pr_hostnames :: "string list"
  pr_ttlSeconds :: int

type_synonym results = "(string \<times> ptr_result) list"

text \<open>\<open>idToIP\<close>: the ids are the positions in the batch, from 1.\<close>

definition idToIP :: "string list \<Rightarrow> nat \<Rightarrow> string option" where
  "idToIP ips i = (if 1 \<le> i \<and> i \<le> length ips then Some (ips ! (i - 1)) else None)"

definition ptr_result :: "dns_response \<Rightarrow> ptr_result" where
  "ptr_result parsed =
     \<lparr>pr_rcode = rs_rcode parsed,
      pr_hostnames = dedupeSorted (map (\<lambda>a. strip_dot (an_data a)) (filter (\<lambda>a. an_type a = 12) (rs_answers parsed))),
      pr_ttlSeconds = foldl (\<lambda>min a. observe_ttl min (int (an_ttl a))) 0 (rs_answers parsed)\<rparr>"

text \<open>One message: a malformed one is skipped, and one with an unknown id.\<close>

definition handle_message :: "string list \<Rightarrow> results \<Rightarrow> byte list \<Rightarrow> results" where
  "handle_message ips results msg =
     (case parseMessage msg of
        Inl _ \<Rightarrow> results
      | Inr parsed \<Rightarrow>
          (case idToIP ips (rs_id parsed) of
             None \<Rightarrow> results
           | Some ip \<Rightarrow> if ip = [] then results else al_put ip (ptr_result parsed) results))"

definition msg_length :: "byte list \<Rightarrow> nat" where
  "msg_length buf = unat (buf ! 0) * 256 + unat (buf ! 1)"

text \<open>The inner loop: every complete message of the buffer; what is left of it afterwards.\<close>

function drain :: "string list \<Rightarrow> byte list \<Rightarrow> results \<Rightarrow> byte list \<times> results" where
  "drain ips buf results =
     (if length buf < 2 \<or> length buf < 2 + msg_length buf then (buf, results)
      else drain ips (drop (2 + msg_length buf) buf)
             (handle_message ips results (take (msg_length buf) (drop 2 buf))))"
  by pat_completeness auto
termination
  by (relation "measure (\<lambda>(ips, buf, results). length buf)") auto

declare drain.simps [simp del]

datatype read = Bytes "byte list" | Ended | Broken

fun read_loop :: "string list \<Rightarrow> read list \<Rightarrow> byte list \<Rightarrow> results \<Rightarrow> results res" where
  "read_loop ips [] recvBuf results = Inr results"
| "read_loop ips (r # rs) recvBuf results =
     (if length results < length ips
      then (case r of
              Ended \<Rightarrow> Inr results
            | Broken \<Rightarrow> Inl (JsError ''socket'')
            | Bytes value \<Rightarrow>
                let (recvBuf', results') = drain ips (recvBuf @ value) results
                in read_loop ips rs recvBuf' results')
      else Inr results)"

definition pipelinePTRQueries :: "(byte list list \<Rightarrow> read list) \<Rightarrow> string list \<Rightarrow> results res" where
  "pipelinePTRQueries socket ips =
     (case map_res (\<lambda>i. buildPTRQuery (i + 1) (ips ! i)) [0..<length ips] of
        Inl e \<Rightarrow> Inl e
      | Inr queries \<Rightarrow> read_loop ips (socket queries) [] [])"

section \<open>One round\<close>

definition refresh_entries :: "js_date \<Rightarrow> results \<Rightarrow> ptr_entry list" where
  "refresh_entries checkedAt results =
     map (\<lambda>(ip, r). \<lparr>pe_ip = ip, pe_ptrHostnames = pr_hostnames r, pe_lookupOk = (length (pr_hostnames r) > 0),
            pe_ttlSeconds = max (pr_ttlSeconds r) MIN_CACHE_TTL_SECONDS, pe_checkedAt = checkedAt\<rparr>)
       (filter (\<lambda>(ip, r). pr_rcode r = 0 \<or> pr_rcode r = 3) results)"

record refresh_counts =
  rc_queried :: nat
  rc_answered :: nat
  rc_cached :: nat

text \<open>\<open>now\<close> when the due addresses are read, \<open>later\<close> when the replies are in.\<close>

definition runPTRRefresh ::
  "(byte list list \<Rightarrow> read list) \<Rightarrow> int \<Rightarrow> int \<Rightarrow> (tables, refresh_counts) prog" where
  "runPTRRefresh socket now later =
     andThen (pendingIPsForPTRRefresh now BATCH_LIMIT) (\<lambda>ips.
     if ips = [] then ret \<lparr>rc_queried = 0, rc_answered = 0, rc_cached = 0\<rparr>
     else andThen (lift (pipelinePTRQueries socket ips)) (\<lambda>results.
       let entries = refresh_entries (date_of_ms later) results in
       andThen (savePTRBatch entries) (\<lambda>_.
       ret \<lparr>rc_queried = length ips, rc_answered = length results, rc_cached = length entries\<rparr>)))"

section \<open>The stream of replies\<close>

definition framed :: "byte list \<Rightarrow> byte list" where
  "framed msg = uint16 (length msg) @ msg"

lemma msg_length_framed: "length msg < 65536 \<Longrightarrow> msg_length (framed msg @ rest) = length msg"
proof -
  assume "length msg < 65536"
  then have "getUint16 ([] @ uint16 (length msg) @ msg @ rest) 0 = Inr (length msg)"
    using get_uint16_at [of 0 "[]" "length msg"] by simp
  then show ?thesis by (simp add: framed_def msg_length_def getUint16_def)
qed

text \<open>Draining a prefix of the stream handles the messages it completes.\<close>

lemma drain_stream:
  "\<forall>m \<in> set mgs. length m < 65536 \<Longrightarrow> buf @ rest = concat (map framed mgs) \<Longrightarrow>
   \<exists>dn todo buf'. mgs = dn @ todo \<and> drain ips buf results = (buf', foldl (handle_message ips) results dn)
     \<and> buf' @ rest = concat (map framed todo) \<and> (rest = [] \<longrightarrow> todo = [])"
proof (induction mgs arbitrary: buf results)
  case Nil
  then show ?case by (intro exI [of _ "[]"] exI [of _ buf]) (simp add: drain.simps)
next
  case (Cons m mgs)
  show ?case
  proof (cases "length (framed m) \<le> length buf")
    case False
    have "drain ips buf results = (buf, results)"
    proof (cases "length buf < 2")
      case False
      then have "take 2 buf = take 2 (buf @ rest)" by simp
      also have "\<dots> = take 2 (framed m @ concat (map framed mgs))" using Cons.prems(2) by simp
      finally have "take 2 buf = take 2 (framed m @ concat (map framed mgs))" .
      moreover have "xs ! 0 = take 2 xs ! 0" "xs ! 1 = take 2 xs ! 1" for xs :: "byte list" by simp_all
      ultimately have "msg_length buf = msg_length (framed m @ concat (map framed mgs))" unfolding msg_length_def by metis
      with Cons.prems(1) have "msg_length buf = length m" by (simp add: msg_length_framed)
      with \<open>\<not> length (framed m) \<le> length buf\<close> show ?thesis by (simp add: drain.simps framed_def)
    qed (simp add: drain.simps)
    moreover have "rest \<noteq> []" using False Cons.prems(2) by (auto dest: arg_cong [of _ _ length])
    ultimately show ?thesis using Cons.prems(2) by (intro exI [of _ "[]"] exI [of _ "m # mgs"] exI [of _ buf]) simp
  next
    case True
    define buf2 where "buf2 = drop (length (framed m)) buf"
    have "take (length (framed m)) (buf @ rest) = framed m" using Cons.prems(2) by simp
    with True have buf: "buf = framed m @ buf2" unfolding buf2_def by (metis append_take_drop_id diff_is_0_eq take0 take_append append_Nil2)
    have rest: "buf2 @ rest = concat (map framed mgs)" using Cons.prems(2) by (simp add: buf)
    from Cons.IH [OF _ rest, of "handle_message ips results m"] Cons.prems(1) obtain dn todo buf' where
      ih: "mgs = dn @ todo" "drain ips buf2 (handle_message ips results m) = (buf', foldl (handle_message ips) (handle_message ips results m) dn)"
        "buf' @ rest = concat (map framed todo)" "rest = [] \<longrightarrow> todo = []" by auto
    have len: "msg_length buf = length m" using Cons.prems(1) by (simp add: buf msg_length_framed)
    have "drain ips buf results = drain ips buf2 (handle_message ips results m)"
      by (subst drain.simps) (simp add: len, simp add: buf framed_def)
    with ih show ?thesis by (intro exI [of _ "m # dn"] exI [of _ todo] exI [of _ buf']) simp
  qed
qed

text \<open>The addresses a list of messages answers.\<close>

definition answer_to :: "string list \<Rightarrow> byte list \<Rightarrow> string list" where
  "answer_to ips m =
     (case parseMessage m of
        Inl _ \<Rightarrow> []
      | Inr p \<Rightarrow> (case idToIP ips (rs_id p) of None \<Rightarrow> [] | Some ip \<Rightarrow> if ip = [] then [] else [ip]))"

definition answered :: "string list \<Rightarrow> byte list list \<Rightarrow> string list" where
  "answered ips mgs = concat (map (answer_to ips) mgs)"

lemma handle_keys: "fst ` set (handle_message ips results m) = set (answer_to ips m) \<union> fst ` set results"
  by (auto simp: handle_message_def answer_to_def split: sum.split option.split)

lemma handle_distinct: "distinct (map fst results) \<Longrightarrow> distinct (map fst (handle_message ips results m))"
  by (auto simp: handle_message_def split: sum.split option.split)

lemma handle_nothing: "answer_to ips m = [] \<Longrightarrow> handle_message ips results m = results"
  by (auto simp: handle_message_def answer_to_def split: sum.splits option.splits if_splits)

lemma handle_all:
  "fst ` set (foldl (handle_message ips) results mgs) = set (answered ips mgs) \<union> fst ` set results"
  "distinct (map fst results) \<Longrightarrow> distinct (map fst (foldl (handle_message ips) results mgs))"
  by (induction mgs arbitrary: results) (auto simp: answered_def handle_keys handle_distinct)

lemma answer_to_sub: "set (answer_to ips m) \<subseteq> set ips"
  by (auto simp: answer_to_def idToIP_def split: sum.split option.split)

lemma answered_sub: "set (answered ips mgs) \<subseteq> set ips"
  using answer_to_sub by (fastforce simp: answered_def)

lemma handle_rest:
  assumes "distinct (answered ips (dn @ todo))" "set ips \<subseteq> set (answered ips dn)"
  shows "foldl (handle_message ips) results todo = results"
  using assms
proof (induction todo rule: rev_induct)
  case (snoc m todo)
  have "answer_to ips m = []"
  proof (rule ccontr)
    assume "answer_to ips m \<noteq> []"
    then obtain ip where ip: "ip \<in> set (answer_to ips m)" by (cases "answer_to ips m") auto
    then have "ip \<in> set (answered ips dn)" using answer_to_sub snoc.prems(2) by blast
    with ip snoc.prems(1) show False by (auto simp: answered_def)
  qed
  moreover have "distinct (answered ips (dn @ todo))" using snoc.prems(1) by (simp add: answered_def) blast
  ultimately show ?case using snoc by (simp add: handle_nothing)
qed simp

lemma read_stream:
  assumes "distinct ips" "\<forall>m \<in> set (dn @ todo). length m < 65536" "distinct (answered ips (dn @ todo))"
    and "buf @ concat cs = concat (map framed todo)" "concat cs = [] \<longrightarrow> todo = []"
  shows "read_loop ips (map Bytes cs) buf (foldl (handle_message ips) [] dn) = Inr (foldl (handle_message ips) [] (dn @ todo))"
  using assms(2-)
proof (induction cs arbitrary: buf dn todo)
  case (Cons c cs)
  let ?res = "foldl (handle_message ips) [] dn"
  show ?case
  proof (cases "length ?res < length ips")
    case True
    have "(buf @ c) @ concat cs = concat (map framed todo)" using Cons.prems(3) by simp
    from drain_stream [OF _ this, of ips ?res] Cons.prems(1) obtain dn2 todo2 buf' where
      d: "todo = dn2 @ todo2" "drain ips (buf @ c) ?res = (buf', foldl (handle_message ips) ?res dn2)"
        "buf' @ concat cs = concat (map framed todo2)" "concat cs = [] \<longrightarrow> todo2 = []" by auto
    have "read_loop ips (map Bytes cs) buf' (foldl (handle_message ips) [] (dn @ dn2))
        = Inr (foldl (handle_message ips) [] ((dn @ dn2) @ todo2))"
      using Cons.prems(1,2) d by (intro Cons.IH) simp_all
    with True d show ?thesis by simp
  next
    case False
    have keys: "fst ` set ?res = set (answered ips dn)" "distinct (map fst ?res)"
      using handle_all [where results = "[]" and ips = ips and mgs = dn] by simp_all
    then have "card (set (answered ips dn)) = length ?res"
      by (metis distinct_card length_map set_map)
    moreover have "card (set ips) = length ips" using assms(1) by (rule distinct_card)
    ultimately have "set (answered ips dn) = set ips"
      using False answered_sub [of ips dn] by (intro card_seteq) simp_all
    with handle_rest [OF Cons.prems(2)] False show ?thesis by simp
  qed
qed simp

text \<open>
  C18: it does not matter how the network cuts the stream of replies: if every message answers
  another address, the reader ends with exactly what handling the messages one by one gives,
  malformed ones and unknown ids skipped, whether it stops early or reads to the last byte.
\<close>

theorem stream_cut_anywhere:
  assumes "distinct ips" "\<forall>m \<in> set mgs. length m < 65536" "distinct (answered ips mgs)"
    and "concat cs = concat (map framed mgs)"
  shows "read_loop ips (map Bytes cs) [] [] = Inr (foldl (handle_message ips) [] mgs)"
proof -
  have "concat cs = [] \<longrightarrow> mgs = []" using assms(4) by (cases mgs) (simp_all add: framed_def uint16_def)
  from read_stream [OF assms(1), where dn = "[]" and todo = mgs and buf = "[]" and cs = cs] this assms(2-)
  show ?thesis by (simp only: append_Nil foldl_Nil)
qed

theorem stream_cut_anywhere_witness:
  "\<exists>r. read_loop [''8.8.8.8''] (map Bytes [take 5 (framed (reply_bytes 1 0 ''a'' [])), drop 5 (framed (reply_bytes 1 0 ''a'' []))]) [] []
    = Inr [(''8.8.8.8'', r)]"
proof -
  let ?m = "reply_bytes 1 0 ''a'' []"
  have "good_name ''a''" by (simp add: good_name_def good_label_def)
  then have parse: "parseMessage ?m = Inr \<lparr>rs_id = 1, rs_rcode = 0, rs_answers = []\<rparr>"
    by (simp add: reply_bytes_parsed)
  note parse = this [unfolded One_nat_def]
  have "length ?m < 65536" by (simp add: reply_bytes_def encodeQName_def label_bytes_def)
  then have "read_loop [''8.8.8.8''] (map Bytes [take 5 (framed ?m), drop 5 (framed ?m)]) [] []
      = Inr (foldl (handle_message [''8.8.8.8'']) [] [?m])"
    by (intro stream_cut_anywhere) (simp_all add: answered_def answer_to_def parse idToIP_def)
  then show ?thesis by (simp add: handle_message_def parse idToIP_def)
qed

section \<open>What a round leaves in the database\<close>

definition checked_at_of :: "tables \<Rightarrow> string \<Rightarrow> string option option" where
  "checked_at_of t ip = map_option p_ptr_checked_at (find_row p_ip ip (pool t))"

lemma checked_pair:
  "checked_at_of (run_batch (ptr_pair r) t) ip =
    (if ip = t_ip r then map_option (\<lambda>_. Some (t_checked_at r)) (find_row p_ip ip (pool t)) else checked_at_of t ip)"
proof -
  let ?f = "\<lambda>p. if p_ip p = t_ip r then p\<lparr>p_ptr_checked_at := Some (t_checked_at r), p_revision := version t\<rparr> else p"
  have "pool (run_batch (ptr_pair r) t) = map ?f (pool t)" by (simp add: ptr_pair_run)
  moreover have "find_row p_ip ip (map ?f (pool t)) = map_option ?f (find_row p_ip ip (pool t))"
    by (rule find_row_map) simp
  ultimately show ?thesis
    by (cases "find_row p_ip ip (pool t)") (auto simp: checked_at_of_def dest: find_row_Some)
qed

lemma checked_known: "checked_at_of u ip = None \<longleftrightarrow> find_row p_ip ip (pool u) = None"
  by (simp add: checked_at_of_def)

lemma checked_pairs:
  assumes "\<forall>r \<in> set rs. t_checked_at r = ts"
  shows "checked_at_of (run_batch (BumpRevision # concat (map ptr_pair rs)) t) ip =
    (if ip \<in> t_ip ` set rs then map_option (\<lambda>_. Some ts) (checked_at_of t ip) else checked_at_of t ip)"
proof -
  have "checked_at_of (run_batch (concat (map ptr_pair rs)) t) ip =
      (if ip \<in> t_ip ` set rs then map_option (\<lambda>_. Some ts) (checked_at_of t ip) else checked_at_of t ip)" for t
    using assms
  proof (induction rs arbitrary: t)
    case (Cons r rs)
    have "checked_at_of (run_batch (ptr_pair r) t) ip =
        (if ip = t_ip r then map_option (\<lambda>_. Some ts) (checked_at_of t ip) else checked_at_of t ip)"
      using Cons.prems by (simp add: checked_pair) (simp add: checked_at_of_def option.map_comp comp_def)
    moreover have "map_option (\<lambda>_. Some ts) (map_option (\<lambda>_. Some ts) x) = map_option (\<lambda>_. Some ts) x" for x :: "string option option"
      by (cases x) simp_all
    ultimately show ?case using Cons.IH [of "run_batch (ptr_pair r) t"] Cons.prems by auto
  qed simp
  moreover have "checked_at_of (run_stmt BumpRevision t) = checked_at_of t" by (rule ext) (simp add: checked_at_of_def)
  ultimately show ?thesis by simp
qed

lemma checked_chunks:
  assumes "\<forall>e \<in> set (concat css). to_iso (ms (pe_checkedAt e)) = ts"
  shows "checked_at_of (fold save_chunk css t) ip =
    (if ip \<in> pe_ip ` set (concat css) then map_option (\<lambda>_. Some ts) (checked_at_of t ip) else checked_at_of t ip)"
  using assms
proof (induction css arbitrary: t)
  case (Cons c css)
  have "checked_at_of (save_chunk c t) ip =
      (if ip \<in> pe_ip ` set c then map_option (\<lambda>_. Some ts) (checked_at_of t ip) else checked_at_of t ip)"
    using checked_pairs [of "map ptr_row c" ts t ip] Cons.prems
    by (simp add: save_chunk_def ptr_row_def comp_def image_image del: run_batch_simps)
  then show ?case using Cons.IH [of "save_chunk c t"] Cons.prems
    by (auto simp: option.map_comp comp_def)
qed simp

text \<open>
  C19: a round of reverse lookups marks as checked exactly the addresses that got a definite
  answer (found, or known not to exist) and serves their names from then on; an address whose
  query got no answer or a failure stays due, and nothing else in the pool is marked.
\<close>

theorem refresh_marks:
  assumes "pendingIPsForPTRRefresh now BATCH_LIMIT (quiet t) = (Inr ips, quiet t)" "ips \<noteq> []"
    and "pipelinePTRQueries socket ips = Inr results" "distinct (map fst results)"
    and "\<forall>(ip, r) \<in> set results. packable (pr_hostnames r)" "\<bar>later\<bar> \<le> 8640000000000000"
  shows "\<exists>u n. runPTRRefresh socket now later (quiet t)
      = (Inr \<lparr>rc_queried = length ips, rc_answered = length results, rc_cached = n\<rparr>, quiet u)
    \<and> (\<forall>ip. map_option p_ptr_checked_at (find_row p_ip ip (pool u)) =
        (if \<exists>r. map_of results ip = Some r \<and> pr_rcode r \<in> {0, 3}
         then map_option (\<lambda>_. Some (to_iso later)) (find_row p_ip ip (pool t))
         else map_option p_ptr_checked_at (find_row p_ip ip (pool t))))
    \<and> (\<forall>ip r. map_of results ip = Some r \<and> pr_rcode r \<in> {0, 3} \<longrightarrow>
        (\<exists>e. fst (getPTR legacy later ip (quiet u)) = Inr (Some e) \<and> pe_ptrHostnames e = pr_hostnames r))"
proof -
  let ?es = "refresh_entries (Time later) results"
  let ?u = "fold save_chunk (chunks PTR_BATCH_CHUNK ?es) t"
  have date: "date_of_ms later = Time later" using assms(6) by (simp add: date_of_ms_def)
  have good: "\<forall>e \<in> set ?es. ptr_good e"
    using assms(5,6) by (auto simp: refresh_entries_def ptr_good_def good_date_def)
  note save = savePTRBatch_run [OF good, of t]
  have ptrs: "ptrs ?u = fold ptr_put ?es (ptrs t)" by (rule save_chunks_ptrs)
  have run: "runPTRRefresh socket now later (quiet t)
      = (Inr \<lparr>rc_queried = length ips, rc_answered = length results, rc_cached = length ?es\<rparr>, quiet ?u)"
    by (simp add: runPTRRefresh_def d1_defs assms(1-3) date save Let_def)
  have ips: "ip \<in> pe_ip ` set ?es \<longleftrightarrow> (\<exists>r. map_of results ip = Some r \<and> pr_rcode r \<in> {0, 3})" for ip
    unfolding map_of_eq_Some_iff [OF assms(4)] by (force simp: refresh_entries_def)
  have all: "concat (chunks PTR_BATCH_CHUNK ?es) = ?es" by (simp add: PTR_BATCH_CHUNK_def)
  have "\<forall>e \<in> set ?es. to_iso (ms (pe_checkedAt e)) = to_iso later" by (auto simp: refresh_entries_def)
  then have pool: "checked_at_of ?u ip = (if \<exists>r. map_of results ip = Some r \<and> pr_rcode r \<in> {0, 3}
      then map_option (\<lambda>_. Some (to_iso later)) (checked_at_of t ip) else checked_at_of t ip)" for ip
    using checked_chunks [of "chunks PTR_BATCH_CHUNK ?es" "to_iso later" t ip, unfolded all ips] by blast
  have served: "\<exists>e. fst (getPTR legacy later ip (quiet ?u)) = Inr (Some e) \<and> pe_ptrHostnames e = pr_hostnames r"
    if r: "map_of results ip = Some r" "pr_rcode r \<in> {0, 3}" for ip r
  proof -
    have "ip \<in> pe_ip ` set (rev ?es)" using ips r unfolding set_rev by blast
    then obtain e where e: "find_row pe_ip ip (rev ?es) = Some e"
      using find_row_None [of pe_ip ip "rev ?es"] by (cases "find_row pe_ip ip (rev ?es)") simp_all
    then have "e \<in> set ?es" "pe_ip e = ip" using find_row_Some [OF e] by simp_all
    then obtain r' where "(ip, r') \<in> set results" and e': "pe_ptrHostnames e = pr_hostnames r'"
      "\<not> pe_ttlSeconds e * 1000 < later - (ms \<circ> pe_checkedAt) e"
      by (auto simp: refresh_entries_def MIN_CACHE_TTL_SECONDS_def)
    with r(1) assms(4) have "r' = r" by (metis map_of_eq_Some_iff option.inject)
    then show ?thesis using e e' ptr.get_puts [OF good, of legacy later ip "ptrs t"]
      by (simp add: getPTR_quiet ptrs find_row_def)
  qed
  show ?thesis
  proof (intro exI [of _ ?u] exI [of _ "length ?es"] conjI allI impI)
    fix ip
    show "map_option p_ptr_checked_at (find_row p_ip ip (pool ?u)) =
        (if \<exists>r. map_of results ip = Some r \<and> pr_rcode r \<in> {0, 3}
         then map_option (\<lambda>_. Some (to_iso later)) (find_row p_ip ip (pool t))
         else map_option p_ptr_checked_at (find_row p_ip ip (pool t)))"
      using pool [of ip] unfolding checked_at_of_def option.map_comp comp_def .
  next
    fix ip r
    assume "map_of results ip = Some r \<and> pr_rcode r \<in> {0, 3}"
    then show "\<exists>e. fst (getPTR legacy later ip (quiet ?u)) = Inr (Some e) \<and> pe_ptrHostnames e = pr_hostnames r"
      by (elim conjE) (rule served)
  qed (rule run)
qed

definition one_reply :: "byte list" where
  "one_reply = reply_bytes 1 0 ''8.8.8.8.in-addr.arpa'' [(300, ''dns.google'')]"

lemma one_reply_parsed:
  "parseMessage one_reply = Inr \<lparr>rs_id = 1, rs_rcode = 0,
    rs_answers = [\<lparr>an_type = 12, an_ttl = 300, an_data = ''dns.google''\<rparr>]\<rparr>"
  unfolding one_reply_def
  by (subst reply_bytes_parsed)
    (simp_all add: good_answer_def good_name_def good_label_def encodeQName_def label_bytes_def)

lemma one_reply_round:
  "pipelinePTRQueries (\<lambda>_. [Bytes (framed one_reply)]) [''8.8.8.8'']
    = Inr [(''8.8.8.8'', \<lparr>pr_rcode = 0, pr_hostnames = [''dns.google''], pr_ttlSeconds = 300\<rparr>)]"
proof -
  note parse = one_reply_parsed [unfolded One_nat_def]
  have len: "length one_reply < 65536"
    by (simp add: one_reply_def reply_bytes_def answer_bytes_def uint32_def encodeQName_def label_bytes_def)
  have "reverseName ''8.8.8.8'' = Inr ''8.8.8.8.in-addr.arpa''" by code_simp
  then obtain q where query: "buildPTRQuery (Suc 0) ''8.8.8.8'' = Inr q"
    by (simp add: buildPTRQuery_def Let_def)
  have "read_loop [''8.8.8.8''] (map Bytes [framed one_reply]) [] []
      = Inr (foldl (handle_message [''8.8.8.8'']) [] [one_reply])"
    using len read_stream [of "[''8.8.8.8'']" "[]" "[one_reply]" "[]" "[framed one_reply]"]
    by (simp add: answered_def answer_to_def parse idToIP_def framed_def uint16_def)
  moreover have "dedupeSorted [''dns.google''] = [''dns.google'']"
    by (simp add: dedupeSorted_def strip_dot_def js_set_def)
  ultimately show ?thesis
    by (simp add: pipelinePTRQueries_def query handle_message_def parse idToIP_def ptr_result_def strip_dot_def observe_ttl_def)
qed

theorem refresh_marks_witness:
  "\<exists>u n e. runPTRRefresh (\<lambda>_. [Bytes (framed one_reply)]) 0 5 (quiet (empty_db\<lparr>pool := [sample_pool ''8.8.8.8'' 1 3]\<rparr>))
      = (Inr \<lparr>rc_queried = 1, rc_answered = 1, rc_cached = n\<rparr>, quiet u)
    \<and> fst (getPTR (\<lambda>_. Invalid_Date) 5 ''8.8.8.8'' (quiet u)) = Inr (Some e) \<and> pe_ptrHostnames e = [''dns.google'']"
proof -
  let ?t = "empty_db\<lparr>pool := [sample_pool ''8.8.8.8'' 1 3]\<rparr>"
  have pending: "pendingIPsForPTRRefresh 0 BATCH_LIMIT (quiet ?t) = (Inr [''8.8.8.8''], quiet ?t)"
    by (simp add: pendingIPsForPTRRefresh_def d1_defs unchecked_ips_def stale_ips_def sample_pool_def BATCH_LIMIT_def order_by_def)
  have "packable [''dns.google'']" by (simp add: packable_def str_includes_def starts_with_def)
  then show ?thesis
    using refresh_marks [OF pending _ one_reply_round, of 5 "\<lambda>_. Invalid_Date"] by fastforce
qed

end
