(* ===== verification/HandlerLaws.thy ===== *)
theory HandlerLaws
  imports Handlers PtrRefresh
begin

text \<open>
  What the writing endpoints promise: the token check is equality, a refused request leaves the
  database alone, a probe is sent for admitted requests about Google's addresses only and
  recorded only when it gave an answer, and no endpoint breaks the invariant of the database.
\<close>

section \<open>The token\<close>

lemma diff_fold_zero:
  fixes d :: "8 word"
  shows "foldl (\<lambda>d (x, y). d OR (x XOR y)) d xs = 0 \<longleftrightarrow> d = 0 \<and> (\<forall>(x, y) \<in> set xs. x = y)"
proof (induction xs arbitrary: d)
  case (Cons p xs)
  obtain x y where p: "p = (x, y)" by (cases p)
  have "x XOR y = 0 \<longleftrightarrow> x = y" by (auto simp: bit_eq_iff bit_simps)
  with Cons show ?case by (auto simp: p or_eq_0_iff)
qed simp

lemma byte_of_nat_eq: "m < 256 \<Longrightarrow> n < 256 \<Longrightarrow> (of_nat m :: 8 word) = of_nat n \<longleftrightarrow> m = n"
  by (simp add: word_of_nat_eq_iff take_bit_eq_mod)

lemma utf8_char_prefix:
  assumes "utf8_char c @ xs = utf8_char d @ ys"
  shows "c = d \<and> xs = ys"
proof -
  define n m where "n = (of_char c :: nat)" and "m = (of_char d :: nat)"
  have lt: "n < 256" "m < 256" by (simp_all add: n_def m_def)
  then have b: "192 + n div 64 < 256" "192 + m div 64 < 256" "128 + n mod 64 < 256" "128 + m mod 64 < 256" by auto
  have "n = m \<and> xs = ys"
  proof (cases "n < 128 \<longleftrightarrow> m < 128")
    case True
    with assms lt b show ?thesis
      by (auto simp: utf8_char_def n_def [symmetric] m_def [symmetric] byte_of_nat_eq split: if_splits)
        (metis div_mult_mod_eq)
  next
    case False
    have "(of_nat n :: 8 word) \<noteq> of_nat (192 + m div 64)" if "n < 128" using that lt b by (simp add: byte_of_nat_eq del: of_nat_add)
    moreover have "(of_nat (192 + n div 64) :: 8 word) \<noteq> of_nat m" if "m < 128"
      using that lt b by (simp add: byte_of_nat_eq del: of_nat_add)
    ultimately show ?thesis using False assms
      by (auto simp: utf8_char_def n_def [symmetric] m_def [symmetric] simp del: of_nat_add split: if_splits)
  qed
  then show ?thesis by (simp add: n_def m_def)
qed

lemma utf8_inject: "utf8 a = utf8 b \<longleftrightarrow> a = b"
proof
  show "utf8 a = utf8 b \<Longrightarrow> a = b"
  proof (induction a arbitrary: b)
    case Nil
    then show ?case by (cases b) (simp_all add: utf8_def utf8_char_def Let_def split: if_splits)
  next
    case (Cons c a)
    then obtain d b' where b: "b = d # b'" by (cases b) (auto simp: utf8_def utf8_char_def Let_def split: if_splits)
    with Cons.prems have "utf8_char c @ utf8 a = utf8_char d @ utf8 b'" by (simp add: utf8_def)
    from utf8_char_prefix [OF this] Cons.IH [of b'] show ?case by (simp add: b)
  qed
qed simp

lemma timingSafeEqual_iff: "timingSafeEqual a b \<longleftrightarrow> utf8 a = utf8 b"
proof -
  have "(\<forall>(x, y) \<in> set (zip xs ys). x = y) \<longleftrightarrow> xs = ys" if "length xs = length ys" for xs ys :: "8 word list"
    using that by (induction xs ys rule: list_induct2) auto
  then show ?thesis by (auto simp: timingSafeEqual_def Let_def diff_fold_zero)
qed

text \<open>
  A request passes the token check exactly when its Authorization header is the word
  Bearer, a space and the configured token: the comparison of bytes that takes the same time on
  every text of one length decides equality.
\<close>

theorem bearer_exact: "checkBearerAuth token request \<longleftrightarrow> Authorization request = Some (''Bearer '' @ token)"
proof -
  have "timingSafeEqual a b \<longleftrightarrow> a = b" for a b by (simp only: timingSafeEqual_iff utf8_inject)
  then show ?thesis
    by (cases "Authorization request") (auto simp: checkBearerAuth_def or_else_def Let_def starts_with_iff)
qed

section \<open>Refused requests\<close>

definition acceptable :: "ingest_body \<Rightarrow> bool" where
  "acceptable b \<longleftrightarrow> (\<exists>cs. ib_checks b = Some cs \<and> ib_pruneIPs b \<noteq> Malformed \<and> (\<forall>c \<in> set cs. wire_ip c \<noteq> None)
     \<and> (\<forall>ips. ib_pruneIPs b = PruneIPs ips \<longrightarrow> (\<forall>ip \<in> set ips. normalizeIPAddress ip \<noteq> None)))"

lemma ingest_rows_status:
  "ingest_rows now rows prune m d = (Inr (rep, jobs), d') \<Longrightarrow> status rep = 200"
  by (auto simp: ingest_rows_def andThen_def catching_def ret_def plain_def Let_def
      split: prod.splits sum.splits if_splits prune_field.splits)

lemma acceptable_Some:
  "ib_checks b = Some cs \<Longrightarrow> acceptable b \<longleftrightarrow> ib_pruneIPs b \<noteq> Malformed \<and> \<not> list_ex (\<lambda>c. wire_ip c = None) cs
    \<and> \<not> (case ib_pruneIPs b of PruneIPs ips \<Rightarrow> list_ex (\<lambda>ip. normalizeIPAddress ip = None) ips | _ \<Rightarrow> False)"
  by (auto simp: acceptable_def list_ex_iff split: prune_field.split)

lemma acceptable_None: "ib_checks b = None \<Longrightarrow> \<not> acceptable b"
  by (simp add: acceptable_def)

lemma handleIngest_refuses:
  assumes "\<not> acceptable b"
  shows "\<exists>msg. handleIngest legacy now (Json b) d = (Inr (plain 400 (Text msg), []), d)"
proof (cases "ib_checks b")
  case (Some cs)
  from assms show ?thesis
    unfolding acceptable_Some [OF Some] handleIngest_def Let_def json_body.case Some option.case ret_def
    by (cases "ib_pruneIPs b = Malformed"; cases "list_ex (\<lambda>c. wire_ip c = None) cs") (simp_all, blast+)
next
  case None
  then have "handleIngest legacy now (Json b) d = (Inr (plain 400 (Text (''body must include 'checks'' @ [CHR 0x27])), []), d)"
    by (simp add: handleIngest_def ret_def)
  then show ?thesis by blast
qed

lemma handleIngest_accepts:
  assumes "acceptable b"
  shows "\<exists>rows. handleIngest legacy now (Json b) = ingest_rows now rows (ib_pruneIPs b) (ib_maintenance b)"
proof (cases "ib_checks b")
  case (Some cs)
  from assms show ?thesis
    unfolding acceptable_Some [OF Some] handleIngest_def Let_def json_body.case Some option.case by auto
qed (use assms acceptable_None in blast)

text \<open>
  C9: POST /ingest always answers. Without the token it answers 401, a body it cannot accept
  gets 400 (500 for the JSON value null), and in these cases the database is not touched and
  no work is started; an accepted body gets 200, or 500 without starting background work when
  the database or a date fails.
\<close>

theorem ingest_gate:
  "\<exists>rep jobs d'. ingest_post token message legacy now request b d = (Inr (rep, jobs), d')
    \<and> (if \<not> checkBearerAuth token request then status rep = 401 \<and> jobs = [] \<and> d' = d
       else case b of
         Bad_json _ \<Rightarrow> status rep = 400 \<and> jobs = [] \<and> d' = d
       | Null_json \<Rightarrow> status rep = 500 \<and> jobs = [] \<and> d' = d
       | Json c \<Rightarrow> if acceptable c then status rep = 200 \<or> (status rep = 500 \<and> jobs = [])
                   else status rep = 400 \<and> jobs = [] \<and> d' = d)"
proof (cases "checkBearerAuth token request")
  case True
  show ?thesis
  proof (cases b)
    case (Json c)
    show ?thesis
    proof (cases "acceptable c")
      case acc: True
      from handleIngest_accepts [OF acc, of legacy now] obtain rows where
        h: "handleIngest legacy now (Json c) = ingest_rows now rows (ib_pruneIPs c) (ib_maintenance c)" by blast
      obtain r d' where r: "ingest_rows now rows (ib_pruneIPs c) (ib_maintenance c) d = (r, d')" by (rule prod.exhaust)
      show ?thesis
      proof (cases r)
        case (Inl e)
        with r h acc True show ?thesis by (simp add: ingest_post_def Json catching_def ret_def plain_def)
      next
        case (Inr x)
        obtain rep jobs where x: "x = (rep, jobs)" by (rule prod.exhaust)
        have "status rep = 200" using r Inr x ingest_rows_status by simp
        with r h acc True show ?thesis by (simp add: ingest_post_def Json catching_def Inr x)
      qed
    next
      case False
      with handleIngest_refuses [OF False, of legacy now d] True show ?thesis
        by (auto simp: ingest_post_def Json catching_def plain_def)
    qed
  qed (simp_all add: ingest_post_def True catching_def handleIngest_def ret_def throw_def plain_def)
qed (simp add: ingest_post_def ret_def plain_def)

section \<open>The on-demand probe\<close>

text \<open>A request is admitted with an address, in the state in which the probe is sent.\<close>

definition check_admits ::
  "(string \<Rightarrow> js_date) \<Rightarrow> http \<Rightarrow> string \<Rightarrow> int \<Rightarrow> int \<Rightarrow> request \<Rightarrow> tables d1 \<Rightarrow> string \<Rightarrow> tables d1 \<Rightarrow> bool" where
  "check_admits legacy http dohUrl now later request d ip d2 \<longleftrightarrow>
     clientCountry request = ''CN''
     \<and> normalizeIPAddress (or_else (params_get ''ip'' (searchParams request)) []) = Some ip
     \<and> (\<exists>cip d1 info. CF_Connecting_IP request = Some cip \<and> cip \<noteq> []
          \<and> checkRateLimit now ''probe'' cip RATE_LIMIT_PER_MINUTE 60000 d = (Inr True, d1)
          \<and> lookupGoogleASN legacy http dohUrl now later ip d1 = (Inr (info, True), d2) \<and> isGoogleASN info)"

definition refusal :: "(check_reply reply \<times> job list) res \<Rightarrow> bool" where
  "refusal r \<longleftrightarrow> (case r of Inl _ \<Rightarrow> True
     | Inr (rep, jobs) \<Rightarrow> status rep \<in> {400, 403, 429, 503} \<and> jobs = [])"

lemma check_admitted:
  assumes "check_admits legacy http dohUrl now later request d ip d2"
  shows "check_post legacy http dohUrl probe now later checkedAt request d = check_outcome ip checkedAt (probe ip) d2"
  using assms by (auto simp: check_admits_def check_post_def andThen_def catching_def ret_def or_else_def)

lemma check_refused:
  assumes "\<nexists>ip d2. check_admits legacy http dohUrl now later request d ip d2"
  shows "\<exists>r d'. refusal r \<and> (\<forall>probe checkedAt. check_post legacy http dohUrl probe now later checkedAt request d = (r, d'))"
proof (cases "clientCountry request = ''CN''")
  case cn: True
  show ?thesis
  proof (cases "normalizeIPAddress (or_else (params_get ''ip'' (searchParams request)) [])")
    case ip: (Some ip)
    show ?thesis
    proof (cases "or_else (CF_Connecting_IP request) [] = []")
      case False
      then obtain cip where cip: "CF_Connecting_IP request = Some cip" "cip \<noteq> []"
        by (cases "CF_Connecting_IP request") (auto simp: or_else_def)
      then have client: "or_else (CF_Connecting_IP request) [] = cip" by (simp add: or_else_def)
      obtain a d1 where a: "checkRateLimit now ''probe'' cip RATE_LIMIT_PER_MINUTE 60000 d = (a, d1)" by (rule prod.exhaust)
      obtain g d2 where g: "lookupGoogleASN legacy http dohUrl now later ip d1 = (g, d2)" by (rule prod.exhaust)
      have post: "check_post legacy http dohUrl probe now later checkedAt request d =
        (case a of Inl e \<Rightarrow> (Inl e, d1) | Inr False \<Rightarrow> (Inr (plain 429 (Failure ''rate limit exceeded, try again later''), []), d1)
         | Inr True \<Rightarrow> (case g of Inl e \<Rightarrow> (Inr (plain 503 (Failure (''could not verify this IP's ASN right now'')), []), d2)
             | Inr (info, ok) \<Rightarrow> if \<not> ok \<or> \<not> isGoogleASN info
                 then (Inr (plain 400 (Failure ''this IP does not belong to a Google ASN''), []), d2)
                 else check_outcome ip checkedAt (probe ip) d2))" for probe checkedAt
        using a g cip(2) by (simp add: check_post_def cn ip client andThen_def catching_def ret_def
            split: sum.split prod.split bool.split)
      have no: "\<not> (a = Inr True \<and> (\<exists>info. g = Inr (info, True) \<and> isGoogleASN info))"
        using assms a g cn ip cip unfolding check_admits_def by blast
      consider e where "a = Inl e" | "a = Inr False" | "a = Inr True"
        by (cases a) (metis (full_types))+
      then show ?thesis
      proof cases
        case 3
        with no show ?thesis unfolding post by (cases g) (auto simp: refusal_def plain_def)
      qed (auto simp: post refusal_def plain_def)
    qed (simp add: check_post_def cn ip ret_def refusal_def plain_def)
  qed (simp add: check_post_def cn ret_def refusal_def plain_def)
qed (simp add: check_post_def ret_def refusal_def plain_def)

text \<open>
  C8: the probe server is asked only for a request from China that names a valid address and
  a client, that the rate limiter admits, and whose address a lookup found in a network of
  Google; every other request is refused with an answer in which the probe has no part.
\<close>

theorem check_guard:
  "(\<exists>ip d2. check_admits legacy http dohUrl now later request d ip d2
      \<and> (\<forall>probe checkedAt. check_post legacy http dohUrl probe now later checkedAt request d
           = check_outcome ip checkedAt (probe ip) d2))
   \<or> (\<exists>r d'. refusal r
      \<and> (\<forall>probe checkedAt. check_post legacy http dohUrl probe now later checkedAt request d = (r, d')))"
  using check_admitted check_refused by metis

text \<open>Steps of a request that leave history and pool as they are.\<close>

definition untouched :: "tables \<Rightarrow> tables \<Rightarrow> bool" where
  "untouched t u \<longleftrightarrow> checks u = checks t \<and> pool u = pool t \<and> version u = version t"

interpretation bookkeeping: guarantee untouched
  by unfold_locales (auto simp: untouched_def)

lemma bookkeeping_batch: "(\<And>t. untouched t (run_batch ss t)) \<Longrightarrow> bookkeeping.stays (batch ss)"
  unfolding batch_def by (rule bookkeeping.stays_exec)

lemma bookkeeping_rate: "bookkeeping.stays (checkRateLimit now kind client limit windowMs)"
proof -
  have "bookkeeping.stays (batch [RateDelete kind client w])" "bookkeeping.stays (batch [RateCount kind client w])" for w
    by (rule bookkeeping_batch, simp add: untouched_def)+
  then show ?thesis
    unfolding checkRateLimit_def
    by (auto intro!: bookkeeping.stays_bind bookkeeping.stays_lift bookkeeping.stays_query bookkeeping.stays_ret)
qed

lemma bookkeeping_lookup: "bookkeeping.stays (lookupGoogleASN legacy http dohUrl now later ip)"
proof -
  have "bookkeeping.stays (getASN legacy now ip)"
    by (cases "ipToHex ip") (auto simp: getASN_def intro!: bookkeeping.stays_bind split: list.split)
  moreover have "bookkeeping.stays (saveASN e)" for e
    by (cases "prefixToRange (ae_prefix e)")
      (auto simp: saveASN_def untouched_def intro!: bookkeeping.stays_bind bookkeeping_batch)
  ultimately show ?thesis
    unfolding lookupGoogleASN_def
    by (auto intro!: bookkeeping.stays_bind bookkeeping.stays_lift bookkeeping.stays_catching
        bookkeeping.stays_ret split: option.split)
qed

lemma bookkeeping_check:
  assumes "\<And>ip. bookkeeping.stays (check_outcome ip checkedAt (probe ip))"
  shows "bookkeeping.stays (check_post legacy http dohUrl probe now later checkedAt request)"
  unfolding check_post_def Let_def
  by (auto intro!: bookkeeping.stays_bind bookkeeping.stays_lift bookkeeping.stays_catching bookkeeping_rate
      bookkeeping_lookup bookkeeping.stays_ret assms split: option.split)

text \<open>
  C24: a probe that was not carried out (refused request, server out of reach, error status) or
  whose attempts disagreed leaves the recorded checks, the pool and its version alone: they
  change only for an admitted request whose probe gave an answer that is not mixed.
\<close>

theorem check_unrecorded:
  "untouched t (store (snd (check_post legacy http dohUrl probe now later checkedAt request (quiet t))))
   \<or> (\<exists>ip d2 result. check_admits legacy http dohUrl now later request (quiet t) ip d2
        \<and> probe ip = Probe_answer result \<and> pb_mixed result = False)"
proof (cases "\<exists>ip d2 result. check_admits legacy http dohUrl now later request (quiet t) ip d2
        \<and> probe ip = Probe_answer result \<and> pb_mixed result = False")
  case False
  define probe' where "probe' ip =
    (case probe ip of Probe_answer r \<Rightarrow> if pb_mixed r then Probe_answer r else Unreachable | out \<Rightarrow> out)" for ip
  have "bookkeeping.stays (check_outcome ip checkedAt (probe' ip))" for ip
    by (auto simp: check_outcome_def probe'_def intro!: bookkeeping.stays_ret split: probe_result.split)
  from bookkeeping.stays_run [OF bookkeeping_check [OF this] bookkeeping.legit_quiet]
  have "untouched t (store (snd (check_post legacy http dohUrl probe' now later checkedAt request (quiet t))))"
    by simp
  moreover have "check_post legacy http dohUrl probe now later checkedAt request (quiet t)
      = check_post legacy http dohUrl probe' now later checkedAt request (quiet t)"
  proof (cases "\<exists>ip d2. check_admits legacy http dohUrl now later request (quiet t) ip d2")
    case True
    then obtain ip d2 where a: "check_admits legacy http dohUrl now later request (quiet t) ip d2" by blast
    with False have "probe ip = probe' ip" by (auto simp: probe'_def split: probe_result.split)
    then show ?thesis by (simp add: check_admitted [OF a])
  next
    case none: False
    then show ?thesis using check_refused [of legacy http dohUrl now later request "quiet t"] by metis
  qed
  ultimately show ?thesis by simp
qed blast

section \<open>The invariant\<close>

lemma stays_record_result: "db.stays (record_result r)"
  unfolding record_result_def
  by (intro db.stays_bind stays_saveRecheckResult stays_updatePoolForCheck stays_pruneCheckHistory)

lemma stays_result_post: "db.stays (result_post token legacy request b)"
  unfolding result_post_def Let_def
  by (auto intro!: db.stays_bind db.stays_ret db.stays_throw stays_record_result split: json_body.split option.split)

lemma stays_check_post: "db.stays (check_post legacy http dohUrl probe now later checkedAt request)"
proof -
  have "db.stays (check_outcome ip checkedAt out)" for ip out
    by (auto simp: check_outcome_def intro!: db.stays_bind db.stays_ret stays_record_result split: probe_result.split)
  then show ?thesis
    unfolding check_post_def Let_def
    by (auto intro!: db.stays_bind db.stays_catching stays_checkRateLimit stays_lookupGoogleASN db.stays_ret
        split: option.split)
qed

lemma stays_ingest_rows: "db.stays (ingest_rows now rows prune m)"
  unfolding ingest_rows_def Let_def
  by (auto intro!: db.stays_bind db.stays_catching stays_insertCheckRows stays_updatePoolBatch
      stays_pruneCheckHistory db.stays_ret split: prune_field.split)

lemma stays_ingest_post: "db.stays (ingest_post token message legacy now request b)"
  unfolding ingest_post_def handleIngest_def Let_def
  by (auto intro!: db.stays_catching stays_ingest_rows db.stays_ret db.stays_throw
      split: json_body.split option.split prune_field.split)

lemma stays_runPTRRefresh: "db.stays (runPTRRefresh socket now later)"
  unfolding runPTRRefresh_def pendingIPsForPTRRefresh_def Let_def
  by (auto intro!: db.stays_bind db.stays_query db.stays_lift db.stays_ret stays_savePTRBatch)

end
