(* ===== verification/GeoLaws.thy ===== *)
theory GeoLaws
  imports Geo
begin

text \<open>
  Facts about src/public/static/geo.js: the decimal and the hexadecimal name of a server are
  siblings of each other and decode to the same place, and decodeBest picks the first of the
  most specific names.
\<close>

section \<open>Markers\<close>

lemma marker_Dec:
  "ds \<noteq> [] \<Longrightarrow> length ds \<le> 3 \<Longrightarrow> list_all is_digit ds \<Longrightarrow> net_end suffix \<Longrightarrow>
    marker (CHR ''f'' # ds @ suffix) = Some (Dec ds, suffix)"
proof -
  assume a: "ds \<noteq> []" "length ds \<le> 3" "list_all is_digit ds" "net_end suffix"
  then have "takeWhile is_digit suffix = []" "dropWhile is_digit suffix = suffix"
    by (auto simp: net_end_def is_digit_def)
  with a show ?thesis
    by (simp add: marker_def takeWhile_append2 dropWhile_append2 list_all_iff Let_def)
qed

lemma marker_Hex:
  "length hs = 2 \<Longrightarrow> list_all (is_dig 16) hs \<Longrightarrow> net_end suffix \<Longrightarrow>
    marker (CHR ''x'' # hs @ suffix) = Some (Hex hs, suffix)"
  by (simp add: marker_def)

lemma markerE:
  assumes "marker m = Some (i, suffix)"
  obtains ds where "i = Dec ds" "m = CHR ''f'' # ds @ suffix" "ds \<noteq> []" "length ds \<le> 3" "list_all is_digit ds" "net_end suffix"
    | hs where "i = Hex hs" "m = CHR ''x'' # hs @ suffix" "length hs = 2" "list_all (is_dig 16) hs" "net_end suffix"
proof -
  have digits: "list_all is_digit (takeWhile is_digit r)" for r by (auto simp: list_all_iff dest: set_takeWhileD)
  obtain c r where c: "m = c # r" using assms by (auto simp: marker_def split: list.splits)
  show thesis
  proof (cases "c = CHR ''f''")
    case True
    with assms c digits show thesis by (intro that(1)) (auto simp: marker_def Let_def split: if_splits)
  next
    case False
    with assms c show thesis by (intro that(2)) (auto simp: marker_def Let_def split: if_splits)
  qed
qed

lemma dash_class: "\<not> is_digit CHR ''-''" "\<not> is_dig 16 CHR ''-''" "is_dig 16 CHR ''0''"
  by (simp_all add: is_digit_def is_dig_def digit_chars_def)

lemma marker_chars: "marker m = Some (i, suffix) \<Longrightarrow> CHR ''-'' \<notin> set m"
proof (erule markerE)
  fix ds assume m: "m = CHR ''f'' # ds @ suffix" "list_all is_digit ds" "net_end suffix"
  then have "CHR ''-'' \<notin> set ds" using dash_class(1) by (auto simp: list_all_iff)
  with m show "CHR ''-'' \<notin> set m" by (auto simp: net_end_def)
next
  fix hs assume m: "m = CHR ''x'' # hs @ suffix" "list_all (is_dig 16) hs" "net_end suffix"
  then have "CHR ''-'' \<notin> set hs" using dash_class(2) by (auto simp: list_all_iff)
  with m show "CHR ''-'' \<notin> set m" by (auto simp: net_end_def)
qed

text \<open>A text has at most one way to be cut after a dash and before a marker.\<close>

lemma last_dash_unique:
  assumes "p @ CHR ''-'' # m = q @ CHR ''-'' # n" "CHR ''-'' \<notin> set m" "CHR ''-'' \<notin> set n"
  shows "p = q \<and> m = n"
proof -
  have "takeWhile ((\<noteq>) CHR ''-'') (rev (p @ CHR ''-'' # m)) = rev m"
    "takeWhile ((\<noteq>) CHR ''-'') (rev (q @ CHR ''-'' # n)) = rev n"
    using assms(2,3) by (auto simp: takeWhile_append)
  with assms(1) show ?thesis by (metis append_same_eq rev_rev_ident)
qed

lemma marker_cut:
  assumes "u @ ''-in-'' @ m = v @ ''-in-'' @ n" "marker m = Some x" "marker n = Some y"
  shows "u = v \<and> m = n"
proof -
  have "CHR ''-'' \<notin> set m" "CHR ''-'' \<notin> set n" using assms(2,3) marker_chars by (metis prod.exhaust_sel)+
  with last_dash_unique [of "u @ ''-in''" m "v @ ''-in''" n] assms(1) show ?thesis by simp
qed

lemma split_marker_sound:
  "split_marker s = Some (prefix, i, suffix) \<Longrightarrow>
     \<exists>u m. prefix = u @ ''-in-'' \<and> s = u @ ''-in-'' @ m \<and> marker m = Some (i, suffix)
       \<and> CHR 0x0A \<notin> set u \<and> CHR 0x0D \<notin> set u"
proof (induction s arbitrary: prefix)
  case (Cons c cs)
  show ?case
  proof (cases "if c = CHR 0x0A \<or> c = CHR 0x0D then None else split_marker cs")
    case None
    with Cons.prems have "case strip_prefix ''-in-'' (c # cs) of None \<Rightarrow> False
        | Some m \<Rightarrow> map_option (\<lambda>(i, suffix). (''-in-'', i, suffix)) (marker m) = Some (prefix, i, suffix)"
      by (simp split: option.splits del: strip_prefix.simps)
    then obtain m where "strip_prefix ''-in-'' (c # cs) = Some m" "marker m = Some (i, suffix)" "prefix = ''-in-''"
      by (auto split: option.splits simp del: strip_prefix.simps)
    then show ?thesis unfolding strip_prefix_append by (intro exI [of _ "[]"] exI [of _ m]) simp
  next
    case (Some t)
    obtain p' j x where t: "t = (p', j, x)" by (cases t)
    with Some have c: "c \<noteq> CHR 0x0A" "c \<noteq> CHR 0x0D" "split_marker cs = Some (p', j, x)" by (auto split: if_splits)
    with Cons.prems t have e: "prefix = c # p'" "j = i" "x = suffix" by auto
    with Cons.IH c(3) obtain u m where "p' = u @ ''-in-''" "cs = u @ ''-in-'' @ m" "marker m = Some (i, suffix)"
      "CHR 0x0A \<notin> set u" "CHR 0x0D \<notin> set u" by blast
    with c(1,2) e(1) show ?thesis by (intro exI [of _ "c # u"] exI [of _ m]) auto
  qed
qed simp

lemma split_marker_complete:
  "marker m = Some (i, suffix) \<Longrightarrow> CHR 0x0A \<notin> set u \<Longrightarrow> CHR 0x0D \<notin> set u \<Longrightarrow>
    split_marker (u @ ''-in-'' @ m) = Some (u @ ''-in-'', i, suffix)"
proof (induction u)
  case Nil
  have "split_marker s = None" if "set s \<inter> {CHR ''-''} = {}" for s
    using split_marker_sound [of s] that by (cases "split_marker s") auto
  have m: "split_marker (''in-'' @ m) = None"
  proof (rule ccontr)
    assume "split_marker (''in-'' @ m) \<noteq> None"
    then obtain p j x where "split_marker (''in-'' @ m) = Some (p, j, x)" by auto
    from split_marker_sound [OF this] obtain v n where v: "''in-'' @ m = v @ ''-in-'' @ n" "marker n = Some (j, x)"
      by blast
    then have "''-'' @ ''in-'' @ m = (''-'' @ v) @ ''-in-'' @ n" by simp
    with marker_cut [of "[]" m "''-'' @ v" n, OF _ Nil(1) v(2)] show False by simp
  qed
  have "strip_prefix ''-in-'' (CHR ''-'' # ''in-'' @ m) = Some m" using strip_prefix_self [of "''-in-''" m] by simp
  with m Nil show ?case by simp
next
  case (Cons c u)
  then show ?case by auto
qed

lemma siblingPattern_iff:
  "siblingPattern h = Some (prefix, i, suffix) \<longleftrightarrow>
     (\<exists>u m. u \<noteq> [] \<and> prefix = u @ ''-in-'' \<and> h = u @ ''-in-'' @ m \<and> marker m = Some (i, suffix)
       \<and> CHR 0x0A \<notin> set u \<and> CHR 0x0D \<notin> set u)"
proof
  assume h: "siblingPattern h = Some (prefix, i, suffix)"
  then obtain c cs p where c: "h = c # cs" "c \<noteq> CHR 0x0A" "c \<noteq> CHR 0x0D" "split_marker cs = Some (p, i, suffix)"
    "prefix = c # p" by (cases h) (auto simp: siblingPattern_def split: if_splits)
  from split_marker_sound [OF c(4)] obtain u m where "p = u @ ''-in-''" "cs = u @ ''-in-'' @ m"
    "marker m = Some (i, suffix)" "CHR 0x0A \<notin> set u" "CHR 0x0D \<notin> set u" by blast
  with c show "\<exists>u m. u \<noteq> [] \<and> prefix = u @ ''-in-'' \<and> h = u @ ''-in-'' @ m \<and> marker m = Some (i, suffix)
       \<and> CHR 0x0A \<notin> set u \<and> CHR 0x0D \<notin> set u"
    by (intro exI [of _ "c # u"] exI [of _ m]) auto
next
  assume "\<exists>u m. u \<noteq> [] \<and> prefix = u @ ''-in-'' \<and> h = u @ ''-in-'' @ m \<and> marker m = Some (i, suffix)
       \<and> CHR 0x0A \<notin> set u \<and> CHR 0x0D \<notin> set u"
  then obtain u m where u: "u \<noteq> []" "prefix = u @ ''-in-''" "h = u @ ''-in-'' @ m" "marker m = Some (i, suffix)"
       "CHR 0x0A \<notin> set u" "CHR 0x0D \<notin> set u" by blast
  then obtain c v where "u = c # v" by (cases u) auto
  with u split_marker_complete [OF u(4), of v] show "siblingPattern h = Some (prefix, i, suffix)"
    by (auto simp: siblingPattern_def)
qed

section \<open>Siblings\<close>

lemma to_lower_append [simp]: "to_lower (s @ t) = to_lower s @ to_lower t"
  by (simp add: to_lower_def)

lemma to_lower_char_idem: "to_lower_char (to_lower_char c) = to_lower_char c"
proof -
  have "of_char c < (256::nat)" by simp
  then show ?thesis by (auto simp: to_lower_char_def Let_def)
qed

lemma to_lower_idem [simp]: "to_lower (to_lower s) = to_lower s"
  by (simp add: to_lower_def to_lower_char_idem)

lemma is_space_lower: "is_space (to_lower_char c) = is_space c"
proof -
  have "of_char c < (256::nat)" by simp
  then show ?thesis by (auto simp: is_space_def to_lower_char_def Let_def)
qed

lemma trim_ends: "trim s = s \<longleftrightarrow> s = [] \<or> (\<not> is_space (hd s) \<and> \<not> is_space (last s))"
proof
  assume t: "trim s = s"
  show "s = [] \<or> (\<not> is_space (hd s) \<and> \<not> is_space (last s))"
  proof (cases "s = []")
    case False
    let ?d = "dropWhile is_space s"
    have "length (dropWhile is_space (rev ?d)) \<le> length ?d" "length ?d \<le> length s"
      using length_dropWhile_le [of is_space "rev ?d"] length_dropWhile_le [of is_space s] by simp_all
    with t have len: "length ?d = length s" "length (dropWhile is_space (rev ?d)) = length ?d"
      unfolding trim_def by (metis length_rev le_antisym)+
    then have d: "?d = s" by (metis append_eq_append_conv append_self_conv2 takeWhile_dropWhile_id)
    then have "dropWhile is_space (rev s) = rev s" using t by (simp add: trim_def) (metis rev_rev_ident)
    with d False show ?thesis by (metis dropWhile_eq_self_iff hd_rev rev_is_Nil_conv)
  qed simp
next
  assume "s = [] \<or> (\<not> is_space (hd s) \<and> \<not> is_space (last s))"
  then have "dropWhile is_space s = s" "dropWhile is_space (rev s) = rev s"
    by (auto simp: dropWhile_eq_self_iff hd_rev)
  then show "trim s = s" by (simp add: trim_def)
qed

lemma trim_trim [simp]: "trim (trim s) = trim s"
proof (cases "trim s = []")
  case False
  let ?d = "dropWhile is_space s"
  from False have r: "dropWhile is_space (rev ?d) \<noteq> []" by (simp add: trim_def)
  then have "\<not> is_space (hd (dropWhile is_space (rev ?d)))" by (rule hd_dropWhile)
  then have last: "\<not> is_space (last (trim s))" using r by (simp add: trim_def last_rev)
  have d: "?d \<noteq> []"
  proof
    assume "?d = []"
    with r show False by (simp only: rev.simps dropWhile.simps)
  qed
  obtain k where "trim s = take k ?d"
    unfolding trim_def dropWhile_eq_drop [of is_space "rev (dropWhile is_space s)"] rev_drop by simp
  with False have "hd (trim s) = hd ?d" by (simp add: hd_take)
  with hd_dropWhile [OF d] have "\<not> is_space (hd (trim s))" by simp
  with last show ?thesis unfolding trim_ends by simp
next
  case True
  show ?thesis unfolding True by (simp add: trim_def)
qed

lemma norm_trim: "trim (to_lower (trim s)) = to_lower (trim s)"
proof (cases "trim s = []")
  case False
  with trim_trim [of s] have "\<not> is_space (hd (trim s))" "\<not> is_space (last (trim s))"
    unfolding trim_ends by auto
  with False show ?thesis
    unfolding trim_ends by (auto simp: to_lower_def hd_map last_map is_space_lower)
next
  case True
  then have "to_lower (trim s) = []" by (simp add: to_lower_def)
  then show ?thesis by (simp add: trim_def)
qed

text \<open>Host names in the form the patterns work on.\<close>

definition host_form :: "string \<Rightarrow> bool" where
  "host_form h \<longleftrightarrow> trim h = h \<and> to_lower h = h"

lemma host_form_norm: "host_form (to_lower (trim h))"
  by (simp add: host_form_def norm_trim)

lemma net_end_last: "net_end suffix \<Longrightarrow> \<not> is_space (last suffix) \<and> suffix \<noteq> [] \<and> to_lower suffix = suffix"
  by (auto simp: net_end_def is_space_def to_lower_def to_lower_char_def)

lemma lower_digits: "list_all is_digit ds \<Longrightarrow> to_lower ds = ds"
  by (induction ds) (auto simp: to_lower_def to_lower_char_def is_digit_def)

lemma lower_hexes: "list_all (is_dig 16) hs \<Longrightarrow> to_lower hs = hs"
  by (simp add: to_lower_def list_all_iff lower_hex_id map_idI)

lemma host_form_marker:
  assumes "host_form (u @ ''-in-'' @ m)" "u \<noteq> []" "marker n = Some (j, suffix)"
  shows "host_form (u @ ''-in-'' @ n)"
proof -
  from assms(3) have n: "to_lower n = n" "n \<noteq> []" "\<not> is_space (last n)"
    by (cases rule: markerE; use net_end_last lower_digits lower_hexes in \<open>force simp: to_lower_def to_lower_char_def\<close>)+
  from assms(1) have "to_lower u = u" "\<not> is_space (hd (u @ ''-in-'' @ m))"
    using assms(2) by (auto simp: host_form_def trim_ends to_lower_def map_eq_append_conv dest: map_injective)
  with n assms(2) show ?thesis
    by (auto simp: host_form_def trim_ends to_lower_def to_lower_char_def)
qed

lemma marker_isHostname:
  assumes "host_form (u @ ''-in-'' @ m)" "marker m = Some (i, suffix)"
  shows "isHostname (u @ ''-in-'' @ m)"
proof -
  from assms(2) obtain w where w: "u @ ''-in-'' @ m = w @ suffix" "net_end suffix"
  proof (cases rule: markerE)
    case (1 ds)
    then show ?thesis by (intro that [of "u @ ''-in-f'' @ ds"]) simp_all
  next
    case (2 hs)
    then show ?thesis by (intro that [of "u @ ''-in-x'' @ hs"]) simp_all
  qed
  from assms(1) have "isHostname (u @ ''-in-'' @ m) = (let h = w @ suffix;
      h = (if h \<noteq> [] \<and> last h = CHR ''.'' then butlast h else h) in starts_with (rev h) (rev ''.1e100.net''))"
    unfolding isHostname_def host_form_def w(1) by simp
  with w(2) show ?thesis by (auto simp: net_end_def starts_with_def butlast_append)
qed

text \<open>The other marker of the same server.\<close>

definition sibling_marker :: "server_index \<Rightarrow> string \<Rightarrow> string option" where
  "sibling_marker i suffix =
     (case i of
        Dec ds \<Rightarrow> (if 255 < num_val 10 ds then None
          else Some (''x'' @ pad_start 2 CHR ''0'' (num_str 16 (num_val 10 ds)) @ suffix))
      | Hex hs \<Rightarrow> Some (''f'' @ num_str 10 (num_val 16 hs) @ suffix))"

lemma siblingHostname_iff:
  "siblingHostname h = Some s \<longleftrightarrow>
     (\<exists>u m i suffix n. u \<noteq> [] \<and> to_lower (trim h) = u @ ''-in-'' @ m \<and> marker m = Some (i, suffix)
       \<and> CHR 0x0A \<notin> set u \<and> CHR 0x0D \<notin> set u \<and> sibling_marker i suffix = Some n \<and> s = u @ ''-in-'' @ n)"
  (is "_ \<longleftrightarrow> ?R")
proof
  assume s: "siblingHostname h = Some s"
  then obtain prefix i suffix where p: "siblingPattern (to_lower (trim h)) = Some (prefix, i, suffix)"
    by (auto simp: siblingHostname_def split: if_splits option.splits)
  then obtain u m where u: "u \<noteq> []" "prefix = u @ ''-in-''" "to_lower (trim h) = u @ ''-in-'' @ m"
    "marker m = Some (i, suffix)" "CHR 0x0A \<notin> set u" "CHR 0x0D \<notin> set u"
    unfolding siblingPattern_iff by blast
  have "\<exists>n. sibling_marker i suffix = Some n \<and> s = prefix @ n"
    using s p by (cases i) (auto simp: siblingHostname_def sibling_marker_def Let_def split: if_splits)
  with u show ?R by auto
next
  assume ?R
  then obtain u m i suffix n where u: "u \<noteq> []" "to_lower (trim h) = u @ ''-in-'' @ m" "marker m = Some (i, suffix)"
    "CHR 0x0A \<notin> set u" "CHR 0x0D \<notin> set u" "sibling_marker i suffix = Some n" "s = u @ ''-in-'' @ n" by blast
  then have p: "siblingPattern (to_lower (trim h)) = Some (u @ ''-in-'', i, suffix)"
    unfolding siblingPattern_iff by blast
  have "isHostname (to_lower (trim h))"
    using marker_isHostname [of u m i suffix] host_form_norm [of h] u(2,3) by simp
  then have "isHostname h" by (simp add: isHostname_def norm_trim)
  with p u(6,7) show "siblingHostname h = Some s"
    by (cases i) (auto simp: siblingHostname_def sibling_marker_def Let_def split: if_splits)
qed

lemma sibling_marker_back:
  assumes "marker m = Some (i, suffix)" "sibling_marker i suffix = Some n"
  shows "\<exists>j. marker n = Some (j, suffix) \<and> (\<exists>m'. sibling_marker j suffix = Some m' \<and>
    (\<exists>i'. marker m' = Some (i', suffix) \<and> sibling_marker i' suffix = Some n))"
  using assms(1)
proof (cases rule: markerE)
  case (1 ds)
  let ?n = "num_val 10 ds"
  let ?hs = "pad_start 2 CHR ''0'' (num_str 16 ?n)"
  from 1 assms(2) have n: "?n \<le> 255" "n = CHR ''x'' # ?hs @ suffix"
    by (auto simp: sibling_marker_def split: if_splits)
  have "length (num_str 16 ?n) \<le> 2" using n(1) by (intro length_num_str) auto
  then have hs: "length ?hs = 2" "list_all (is_dig 16) ?hs"
    using num_str_dig [of 16 ?n] dash_class(3) by (auto simp: list_all_iff pad_start_def)
  have v: "num_val 16 ?hs = ?n" by simp
  have "length (num_str 10 ?n) \<le> 3" using n(1) by (intro length_num_str) auto
  moreover have "list_all is_digit (num_str 10 ?n)" using num_str_dig [of 10 ?n] by (auto simp: list_all_iff is_digit_dig)
  ultimately have "marker (''f'' @ num_str 10 ?n @ suffix) = Some (Dec (num_str 10 ?n), suffix)"
    using 1 by (simp add: marker_Dec)
  with n hs v 1 marker_Hex [OF hs 1(6)] show ?thesis
    by (intro exI [of _ "Hex ?hs"]) (simp add: sibling_marker_def)
next
  case (2 hs)
  let ?n = "num_val 16 hs"
  let ?ds = "num_str 10 ?n"
  from 2 assms(2) have n: "n = CHR ''f'' # ?ds @ suffix" by (simp add: sibling_marker_def)
  have dig: "\<forall>c \<in> set hs. is_dig 16 c" using 2(4) by (simp add: list_all_iff)
  with num_val_less [of 16 hs] 2(3) have less: "?n \<le> 255" by simp
  then have "length ?ds \<le> 3" by (intro length_num_str) auto
  moreover have "list_all is_digit ?ds" using num_str_dig [of 10 ?n] by (auto simp: list_all_iff is_digit_dig)
  ultimately have m: "marker n = Some (Dec ?ds, suffix)" using n 2 by (simp add: marker_Dec)
  have "hs \<noteq> []" using 2(3) by auto
  with pad_num_str [of 16 hs] dig 2(3) have "pad_start 2 CHR ''0'' (num_str 16 ?n) = hs" by simp
  with less m n 2 show ?thesis
    by (intro exI [of _ "Dec ?ds"]) (simp add: sibling_marker_def marker_Hex)
qed

text \<open>
  C39: sibling names go in pairs: the sibling of a name has a sibling itself, namely the first
  name up to case, blanks and leading zeros, and its sibling is the second name again.
\<close>

theorem sibling_pairs:
  assumes "siblingHostname h = Some s"
  shows "\<exists>h'. siblingHostname s = Some h' \<and> siblingHostname h' = Some s"
proof -
  from assms obtain u m i suffix n where u: "u \<noteq> []" "to_lower (trim h) = u @ ''-in-'' @ m" "marker m = Some (i, suffix)"
    "CHR 0x0A \<notin> set u" "CHR 0x0D \<notin> set u" "sibling_marker i suffix = Some n" "s = u @ ''-in-'' @ n"
    unfolding siblingHostname_iff by blast
  from sibling_marker_back [OF u(3,6)] obtain j m' i' where
    b: "marker n = Some (j, suffix)" "sibling_marker j suffix = Some m'"
      "marker m' = Some (i', suffix)" "sibling_marker i' suffix = Some n" by blast
  have form: "host_form (u @ ''-in-'' @ m)" using host_form_norm [of h] u(2) by simp
  have "to_lower (trim s) = u @ ''-in-'' @ n"
    using host_form_marker [OF form u(1) b(1)] u(7) by (simp add: host_form_def)
  then have 1: "siblingHostname s = Some (u @ ''-in-'' @ m')"
    unfolding siblingHostname_iff using u b by blast
  have "to_lower (trim (u @ ''-in-'' @ m')) = u @ ''-in-'' @ m'"
    using host_form_marker [OF form u(1) b(3)] by (simp add: host_form_def)
  then have "siblingHostname (u @ ''-in-'' @ m') = Some s"
    unfolding siblingHostname_iff using u b by blast
  with 1 show ?thesis by blast
qed

theorem sibling_pairs_witness:
  "\<exists>h'. siblingHostname ''dfw06s16-in-x1f.1e100.net'' = Some h' \<and> siblingHostname h' = Some ''dfw06s16-in-x1f.1e100.net''"
  by (rule sibling_pairs [of "'' DFW06s16-in-f031.1e100.net ''"]) code_simp

text \<open>
  The comment on siblingHostname says that anycast names have no sibling form. One whose bare
  hexadecimal index starts with \<open>f\<close> and goes on with digits does get one, and it decodes to
  nothing.
\<close>

lemma anycast_sibling:
  "g_airportCode (decode ''any-in-f12.1e100.net'') = ''any'' \<and> g_serverIndex (decode ''any-in-f12.1e100.net'') = ''0xf12''
   \<and> siblingHostname ''any-in-f12.1e100.net'' = Some ''any-in-x0c.1e100.net''
   \<and> \<not> g_matched (decode ''any-in-x0c.1e100.net'')"
  by code_simp

section \<open>Both names of a server decode to the same place\<close>

lemma not_lower_dash: "\<not> is_lower CHR ''-''" "\<not> is_alnum CHR ''-''"
  by (simp_all add: is_lower_def is_alnum_def is_digit_def)

lemma marker_nonempty: "marker m = Some x \<Longrightarrow> 0 < length m"
  by (cases m) (simp_all add: marker_def)

lemma pattern1_intro:
  assumes "length a = 3" "list_all is_lower a" "length b = 2" "list_all is_digit b" "length c = 2" "list_all is_digit c"
    and "marker m = Some (i, suffix)"
  shows "pattern1 (a @ b @ ''s'' @ c @ ''-in-'' @ m) = Some (a, b, c, i)"
  using assms marker_nonempty [OF assms(7)] by (simp add: pattern1_def nth_append Let_def)

lemma pattern1_elim:
  assumes "pattern1 h = Some (a, b, c, i)"
  obtains m suffix where "h = (a @ b @ ''s'' @ c) @ ''-in-'' @ m" "length a = 3" "list_all is_lower a" "length b = 2"
    "list_all is_digit b" "length c = 2" "list_all is_digit c" "marker m = Some (i, suffix)"
proof -
  from assms have h: "12 < length h" "a = take 3 h" "b = take 2 (drop 3 h)" "c = take 2 (drop 6 h)" "h ! 5 = CHR ''s''"
    "take 4 (drop 8 h) = ''-in-''" "list_all is_lower a" "list_all is_digit b" "list_all is_digit c"
    and "\<exists>suffix. marker (drop 12 h) = Some (i, suffix)"
    by (auto simp: pattern1_def Let_def split: if_splits)
  then obtain suffix where m: "marker (drop 12 h) = Some (i, suffix)" by blast
  have "h = take 12 h @ drop 12 h" by simp
  also have "take 12 h = take 8 h @ take 4 (drop 8 h)" using take_add [of 8 4 h] by simp
  also have "take 8 h = take 6 h @ take 2 (drop 6 h)" using take_add [of 6 2 h] by simp
  also have "take 6 h = take 5 h @ [h ! 5]" using h(1) take_Suc_conv_app_nth [of 5 h] by (simp add: eval_nat_numeral)
  also have "take 5 h = take 3 h @ take 2 (drop 3 h)" using take_add [of 3 2 h] by simp
  finally have "h = (a @ b @ ''s'' @ c) @ ''-in-'' @ drop 12 h" using h by simp
  moreover have "length a = 3" "length b = 2" "length c = 2" using h by simp_all
  ultimately show thesis using that h(7-9) m by blast
qed

lemma pattern2_intro:
  "length a = 2 \<Longrightarrow> list_all is_lower a \<Longrightarrow> marker m = Some (i, suffix) \<Longrightarrow>
    pattern2 (a @ ''-in-'' @ m) = Some (a, i)"
  using marker_nonempty [of m] by (simp add: pattern2_def)

lemma pattern2_elim:
  assumes "pattern2 h = Some (a, i)"
  obtains m suffix where "h = a @ ''-in-'' @ m" "length a = 2" "list_all is_lower a" "marker m = Some (i, suffix)"
proof -
  from assms have h: "6 < length h" "a = take 2 h" "take 4 (drop 2 h) = ''-in-''" "list_all is_lower a"
    and "\<exists>suffix. marker (drop 6 h) = Some (i, suffix)"
    by (auto simp: pattern2_def split: if_splits)
  then obtain suffix where m: "marker (drop 6 h) = Some (i, suffix)" by blast
  have "h = take 6 h @ drop 6 h" by simp
  also have "take 6 h = take 2 h @ take 4 (drop 2 h)" using take_add [of 2 4 h] by simp
  finally have "h = a @ ''-in-'' @ drop 6 h" using h by simp
  then show thesis using that h m by simp
qed

lemma take_while_word:
  "list_all P w \<Longrightarrow> \<not> P d \<Longrightarrow> takeWhile P (w @ d # r) = w \<and> dropWhile P (w @ d # r) = d # r"
  by (induction w) auto

lemma pattern3_cluster:
  assumes "list_all is_lower w" "6 \<le> length w" "length w \<le> 8" "c \<noteq> []" "list_all is_alnum c" "marker m = Some (i, suffix)"
  shows "pattern3 (w @ ''-'' @ c @ ''-in-'' @ m) = Some (take 3 (drop 2 w), Some c, i)"
  using assms take_while_word [OF assms(1) not_lower_dash(1), of "c @ ''-in-'' @ m"]
    take_while_word [OF assms(5) not_lower_dash(2), of "''in-'' @ m"]
  by (simp add: pattern3_def Let_def)

lemma pattern3_plain:
  assumes "list_all is_lower w" "6 \<le> length w" "length w \<le> 8" "marker m = Some (i, suffix)"
  shows "pattern3 (w @ ''-in-'' @ m) = Some (take 3 (drop 2 w), None, i)"
proof -
  have "strip_prefix ''-in-'' (CHR ''-'' # m) = None"
    using assms(4) by (cases rule: markerE) simp_all
  moreover have "takeWhile is_alnum (''in'' @ CHR ''-'' # m) = ''in'' \<and> dropWhile is_alnum (''in'' @ CHR ''-'' # m) = CHR ''-'' # m"
    by (rule take_while_word) (simp_all add: dash_class is_alnum_def is_lower_def)
  ultimately show ?thesis
    using assms take_while_word [OF assms(1) not_lower_dash(1), of "''in-'' @ m"]
    by (simp add: pattern3_def Let_def)
qed

lemma pattern3_elim:
  assumes "pattern3 h = Some (a, c, i)"
  obtains w d m suffix where "h = w @ ''-'' @ d @ ''-in-'' @ m" "c = Some d" "a = take 3 (drop 2 w)" "list_all is_lower w"
    "6 \<le> length w" "length w \<le> 8" "d \<noteq> []" "list_all is_alnum d" "marker m = Some (i, suffix)"
  | w m suffix where "h = w @ ''-in-'' @ m" "c = None" "a = take 3 (drop 2 w)" "list_all is_lower w"
    "6 \<le> length w" "length w \<le> 8" "marker m = Some (i, suffix)"
proof -
  let ?w = "takeWhile is_lower h" and ?r = "dropWhile is_lower h"
  have w: "list_all is_lower ?w" "h = ?w @ ?r" by (auto simp: list_all_iff dest: set_takeWhileD)
  have len: "6 \<le> length ?w" "length ?w \<le> 8" using assms by (auto simp: pattern3_def Let_def split: if_splits)
  define wc where "wc = (case strip_prefix ''-'' ?r of None \<Rightarrow> None
             | Some r' \<Rightarrow>
                 let cluster = takeWhile is_alnum r' in
                 if cluster = [] then None
                 else (case strip_prefix ''-in-'' (dropWhile is_alnum r') of None \<Rightarrow> None
                       | Some m \<Rightarrow> map_option (\<lambda>i. (take 3 (drop 2 ?w), Some cluster, fst i)) (marker m)))"
  have p: "(case wc of Some x \<Rightarrow> Some x | None \<Rightarrow> (case strip_prefix ''-in-'' ?r of None \<Rightarrow> None
       | Some m \<Rightarrow> map_option (\<lambda>i. (take 3 (drop 2 ?w), None, fst i)) (marker m))) = Some (a, c, i)"
    using assms len unfolding pattern3_def Let_def wc_def by (simp only: not_less [symmetric] if_False simp_thms)
  show thesis
  proof (cases wc)
    case (Some x)
    with p have "wc = Some (a, c, i)" by simp
    then obtain r' m suffix where r: "strip_prefix ''-'' ?r = Some r'" "takeWhile is_alnum r' \<noteq> []"
      "strip_prefix ''-in-'' (dropWhile is_alnum r') = Some m" "marker m = Some (i, suffix)"
      "a = take 3 (drop 2 ?w)" "c = Some (takeWhile is_alnum r')"
      unfolding wc_def by (auto simp: Let_def split: option.splits if_splits simp del: strip_prefix.simps)
    have "list_all is_alnum (takeWhile is_alnum r')" by (auto simp: list_all_iff dest: set_takeWhileD)
    moreover have "h = ?w @ ''-'' @ takeWhile is_alnum r' @ ''-in-'' @ m"
      using w(2) r(1,3) unfolding strip_prefix_append by (metis takeWhile_dropWhile_id)
    ultimately show thesis using that(1) r w(1) len by blast
  next
    case None
    with p obtain m suffix where r: "strip_prefix ''-in-'' ?r = Some m" "marker m = Some (i, suffix)"
      "a = take 3 (drop 2 ?w)" "c = None"
      by (auto split: option.splits simp del: strip_prefix.simps)
    then have "h = ?w @ ''-in-'' @ m" using w(2) unfolding strip_prefix_append by metis
    then show thesis using that(2) r w(1) len by blast
  qed
qed

lemma patterns_swap:
  assumes "marker m = Some (i, suffix)" "marker n = Some (j, rest)"
  shows "pattern1 (u @ ''-in-'' @ m) = Some (a, b, c, i') \<Longrightarrow> pattern1 (u @ ''-in-'' @ n) = Some (a, b, c, j)"
    and "pattern2 (u @ ''-in-'' @ m) = Some (a, i') \<Longrightarrow> pattern2 (u @ ''-in-'' @ n) = Some (a, j)"
    and "pattern3 (u @ ''-in-'' @ m) = Some (a, d, i') \<Longrightarrow> pattern3 (u @ ''-in-'' @ n) = Some (a, d, j)"
proof -
  assume "pattern1 (u @ ''-in-'' @ m) = Some (a, b, c, i')"
  then obtain m' s' where p: "u @ ''-in-'' @ m = (a @ b @ ''s'' @ c) @ ''-in-'' @ m'" "length a = 3" "list_all is_lower a"
    "length b = 2" "list_all is_digit b" "length c = 2" "list_all is_digit c" "marker m' = Some (i', s')"
    by (rule pattern1_elim)
  from marker_cut [OF p(1) assms(1) p(8)] pattern1_intro [OF p(2-7) assms(2)]
  show "pattern1 (u @ ''-in-'' @ n) = Some (a, b, c, j)" by simp
next
  assume "pattern2 (u @ ''-in-'' @ m) = Some (a, i')"
  then obtain m' s' where p: "u @ ''-in-'' @ m = a @ ''-in-'' @ m'" "length a = 2" "list_all is_lower a"
    "marker m' = Some (i', s')"
    by (rule pattern2_elim)
  from marker_cut [OF p(1) assms(1) p(4)] pattern2_intro [OF p(2,3) assms(2)]
  show "pattern2 (u @ ''-in-'' @ n) = Some (a, j)" by simp
next
  assume "pattern3 (u @ ''-in-'' @ m) = Some (a, d, i')"
  then show "pattern3 (u @ ''-in-'' @ n) = Some (a, d, j)"
  proof (cases rule: pattern3_elim)
    case (1 w e m' s')
    then have "u @ ''-in-'' @ m = (w @ ''-'' @ e) @ ''-in-'' @ m'" by simp
    from marker_cut [OF this assms(1) 1(9)] pattern3_cluster [OF 1(4-8) assms(2)] 1(2,3)
    show ?thesis by simp
  next
    case (2 w m' s')
    from marker_cut [OF 2(1) assms(1) 2(7)] pattern3_plain [OF 2(4-6) assms(2)] 2(2,3)
    show ?thesis by simp
  qed
qed

lemma at_place_index:
  "at_place codes (l\<lparr>g_serverIndex := x\<rparr>) = (at_place codes l)\<lparr>g_serverIndex := x\<rparr>"
  by (simp add: at_place_def split: option.split)

text \<open>
  C40: the decimal and the hexadecimal name of one server decode to the same airport code,
  cluster, city and country (the anycast names aside): only the server index is written
  differently.
\<close>

theorem sibling_same_place:
  assumes "siblingHostname h = Some s" "g_matched (decode h)" "g_airportCode (decode h) \<noteq> ''any''"
  shows "\<exists>x. decode s = (decode h)\<lparr>g_hostname := s, g_serverIndex := x\<rparr>"
proof -
  from assms(1) obtain u m i suffix n where u: "u \<noteq> []" "to_lower (trim h) = u @ ''-in-'' @ m" "marker m = Some (i, suffix)"
    "sibling_marker i suffix = Some n" "s = u @ ''-in-'' @ n"
    unfolding siblingHostname_iff by blast
  from sibling_marker_back [OF u(3,4)] obtain j where n: "marker n = Some (j, suffix)" by blast
  have form: "host_form (u @ ''-in-'' @ m)" using host_form_norm [of h] u(2) by simp
  have s: "to_lower (trim s) = u @ ''-in-'' @ n"
    using host_form_marker [OF form u(1) n] u(5) by (simp add: host_form_def)
  note fwd = patterns_swap [OF u(3) n, of u] and bwd = patterns_swap [OF n u(3), of u]
  show ?thesis
  proof (cases "pattern1 (u @ ''-in-'' @ m)")
    case (Some p)
    obtain a b c i' where p: "p = (a, b, c, i')" by (cases p)
    with fwd(1) Some have "pattern1 (u @ ''-in-'' @ n) = Some (a, b, c, j)" by simp
    with Some p show ?thesis
      by (intro exI [of _ "index_text j"])
        (simp add: decode_def u(2) s Let_def emptyLocation_def at_place_def split: option.split)
  next
    case None
    with bwd(1) have p1: "pattern1 (u @ ''-in-'' @ n) = None" by (cases "pattern1 (u @ ''-in-'' @ n)") auto
    show ?thesis
    proof (cases "pattern2 (u @ ''-in-'' @ m)")
      case (Some p)
      obtain a i' where p: "p = (a, i')" by (cases p)
      with fwd(2) Some have "pattern2 (u @ ''-in-'' @ n) = Some (a, j)" by simp
      with Some p None p1 show ?thesis
        by (intro exI [of _ "index_text j"])
          (simp add: decode_def u(2) s Let_def emptyLocation_def at_place_def split: option.split)
    next
      case n2: None
      with bwd(2) have p2: "pattern2 (u @ ''-in-'' @ n) = None" by (cases "pattern2 (u @ ''-in-'' @ n)") auto
      show ?thesis
      proof (cases "pattern3 (u @ ''-in-'' @ m)")
        case (Some p)
        obtain a d i' where p: "p = (a, d, i')" by (cases p)
        with fwd(3) Some have "pattern3 (u @ ''-in-'' @ n) = Some (a, d, j)" by simp
        with Some p None p1 n2 p2 show ?thesis
          by (intro exI [of _ "index_text j"])
            (simp add: decode_def u(2) s Let_def emptyLocation_def at_place_def split: option.split)
      next
        case n3: None
        with None n2 assms(2,3) show ?thesis
          by (auto simp: decode_def u(2) Let_def emptyLocation_def split: option.splits)
      qed
    qed
  qed
qed

theorem sibling_same_place_witness:
  "\<exists>x. decode ''dfw06s16-in-x1f.1e100.net''
     = (decode ''dfw06s16-in-f31.1e100.net'')\<lparr>g_hostname := ''dfw06s16-in-x1f.1e100.net'', g_serverIndex := x\<rparr>"
  by (rule sibling_same_place) code_simp+

section \<open>The most specific name\<close>

lemma best_fold:
  "hs \<noteq> [] \<Longrightarrow> \<exists>i < length hs. foldl best_step (l, -1) hs = (decode (hs ! i), int (decodeRank (decode (hs ! i))))
    \<and> (\<forall>j < length hs. decodeRank (decode (hs ! j)) \<le> decodeRank (decode (hs ! i)))
    \<and> (\<forall>j < i. decodeRank (decode (hs ! j)) < decodeRank (decode (hs ! i)))"
proof (induction hs rule: rev_induct)
  case (snoc h hs)
  show ?case
  proof (cases "hs = []")
    case True
    then show ?thesis by (simp add: best_step_def Let_def)
  next
    case False
    with snoc.IH obtain i where i: "i < length hs"
      "foldl best_step (l, -1) hs = (decode (hs ! i), int (decodeRank (decode (hs ! i))))"
      "\<forall>j < length hs. decodeRank (decode (hs ! j)) \<le> decodeRank (decode (hs ! i))"
      "\<forall>j < i. decodeRank (decode (hs ! j)) < decodeRank (decode (hs ! i))" by blast
    have step: "foldl best_step (l, -1) (hs @ [h]) =
        (if decodeRank (decode (hs ! i)) < decodeRank (decode h) then (decode h, int (decodeRank (decode h)))
         else (decode (hs ! i), int (decodeRank (decode (hs ! i)))))"
      unfolding foldl_append foldl.simps i(2) best_step_def Let_def by simp
    show ?thesis
    proof (cases "decodeRank (decode (hs ! i)) < decodeRank (decode h)")
      case True
      with i show ?thesis
        unfolding step by (intro exI [of _ "length hs"]) (auto simp: nth_append less_Suc_eq)
    next
      case False
      with i show ?thesis
        unfolding step by (intro exI [of _ i]) (auto simp: nth_append less_Suc_eq)
    qed
  qed
qed simp

lemma country_rank: "g_country (decode h) \<noteq> [] \<longleftrightarrow> 10 < decodeRank (decode h)"
proof -
  have "g_country (decode h) \<noteq> [] \<Longrightarrow> g_matched (decode h)"
    by (auto simp: decode_def Let_def emptyLocation_def at_place_def split: option.splits)
  then show ?thesis by (auto simp: decodeRank_def)
qed

text \<open>
  decodeBest returns the decoding of the first host name whose rank no other exceeds; so a
  name without a known country never hides one that has it.
\<close>

theorem decode_best_first:
  assumes "hs \<noteq> []"
  shows "(\<exists>i < length hs. decodeBest hs = decode (hs ! i)
      \<and> (\<forall>j < length hs. decodeRank (decode (hs ! j)) \<le> decodeRank (decode (hs ! i)))
      \<and> (\<forall>j < i. decodeRank (decode (hs ! j)) < decodeRank (decode (hs ! i))))
    \<and> ((\<exists>h \<in> set hs. g_country (decode h) \<noteq> []) \<longrightarrow> g_country (decodeBest hs) \<noteq> [])"
proof -
  from best_fold [OF assms, of "emptyLocation []"] obtain i where i: "i < length hs"
      "foldl best_step (emptyLocation [], -1) hs = (decode (hs ! i), int (decodeRank (decode (hs ! i))))"
      "\<forall>j < length hs. decodeRank (decode (hs ! j)) \<le> decodeRank (decode (hs ! i))"
      "\<forall>j < i. decodeRank (decode (hs ! j)) < decodeRank (decode (hs ! i))"
    by (elim exE conjE)
  then have best: "decodeBest hs = decode (hs ! i)" by (simp add: decodeBest_def)
  have "g_country (decodeBest hs) \<noteq> []" if h: "h \<in> set hs" "g_country (decode h) \<noteq> []" for h
  proof -
    obtain j where "j < length hs" "h = hs ! j" using h(1) by (metis in_set_conv_nth)
    with i(3) have "decodeRank (decode h) \<le> decodeRank (decode (hs ! i))" by simp
    with h(2) show ?thesis using country_rank [of h] country_rank [of "hs ! i"] best by simp
  qed
  with i(1,3,4) best show ?thesis by (intro conjI exI [of _ i]) auto
qed

theorem decode_best_first_witness:
  "g_country (decodeBest [''any-in-201d.1e100.net'', ''tf-in-x64.1e100.net'', ''dfw06s16-in-f31.1e100.net'']) \<noteq> []"
proof -
  let ?hs = "[''any-in-201d.1e100.net'', ''tf-in-x64.1e100.net'', ''dfw06s16-in-f31.1e100.net'']"
  have "g_country (decode ''dfw06s16-in-f31.1e100.net'') \<noteq> []" by code_simp
  moreover have "?hs \<noteq> []" by simp
  ultimately show ?thesis using decode_best_first [of ?hs] by (meson list.set_intros)
qed

end
