(* ===== verification/Reading.thy ===== *)
theory Reading
  imports D1
begin

text \<open>
  Requests that only read. The database goes through the states of a set \<open>H\<close> while the request
  runs: every turn of the script moves it along. \<open>reads Q m\<close> says that such a run leaves the
  database to the others, and that a result \<open>x\<close> satisfies \<open>Q s x u\<close>, where \<open>s\<close> and \<open>u\<close> are the
  states before the first and at the last call. A rule per combinator composes these facts.
\<close>

locale reading = guarantee R for R :: "'t \<Rightarrow> 't \<Rightarrow> bool" +
  fixes H :: "'t set"
begin

definition follows :: "'t d1 \<Rightarrow> bool" where
  "follows db \<longleftrightarrow> store db \<in> H \<and> (\<forall>turn \<in> set (script db). \<forall>t \<in> H. others turn t \<in> H \<and> R t (others turn t))"

definition reads :: "('t \<Rightarrow> 'a \<Rightarrow> 't \<Rightarrow> bool) \<Rightarrow> ('t, 'a) prog \<Rightarrow> bool" where
  "reads Q m \<longleftrightarrow> (\<forall>db. follows db \<longrightarrow>
     follows (snd (m db)) \<and> R (store db) (store (snd (m db)))
     \<and> (\<forall>x. fst (m db) = Inr x \<longrightarrow> Q (store db) x (store (snd (m db)))))"

lemma follows_quiet: "t \<in> H \<Longrightarrow> follows (quiet t)"
  by (simp add: follows_def quiet_def)

lemma reads_run:
  assumes "reads Q m" "follows db" "m db = (Inr x, db')"
  shows "follows db'" "R (store db) (store db')" "Q (store db) x (store db')"
  using assms unfolding reads_def by (metis fst_conv snd_conv)+

lemma reads_ret: "reads (\<lambda>s y u. y = x \<and> u = s) (ret x)"
  by (simp add: reads_def ret_def R_refl)

lemma reads_query: "reads (\<lambda>s x u. x = q u \<and> R s u \<and> u \<in> H) (query q)"
  unfolding reads_def query_def call_def follows_def
  by (auto simp: R_refl split: list.split outcome.split)

lemma reads_lift: "reads (\<lambda>s x u. r = Inr x \<and> u = s) (lift r)"
  by (simp add: reads_def lift_def R_refl)

lemma reads_bind:
  assumes "reads Q m" "\<And>x. reads (S x) (f x)"
  shows "reads (\<lambda>s y u. \<exists>x v. Q s x v \<and> R s v \<and> v \<in> H \<and> S x v y u \<and> R v u) (andThen m f)"
  unfolding reads_def
proof (intro allI impI)
  fix db :: "'t d1"
  assume db: "follows db"
  obtain r db' where r: "m db = (r, db')" by fastforce
  with assms(1) db have 1: "follows db'" "R (store db) (store db')" "\<And>x. r = Inr x \<Longrightarrow> Q (store db) x (store db')"
    unfolding reads_def by (metis fst_conv snd_conv)+
  show "follows (snd (andThen m f db)) \<and> R (store db) (store (snd (andThen m f db)))
    \<and> (\<forall>y. fst (andThen m f db) = Inr y \<longrightarrow> (\<exists>x v. Q (store db) x v \<and> R (store db) v \<and> v \<in> H
        \<and> S x v y (store (snd (andThen m f db))) \<and> R v (store (snd (andThen m f db)))))"
  proof (cases r)
    case (Inl e)
    with r 1 show ?thesis by (simp add: andThen_def)
  next
    case (Inr x)
    have "andThen m f db = f x db'" using r Inr by (simp add: andThen_def)
    moreover from assms(2) [of x] 1(1) have "follows (snd (f x db'))" "R (store db') (store (snd (f x db')))"
      "\<And>y. fst (f x db') = Inr y \<Longrightarrow> S x (store db') y (store (snd (f x db')))"
      unfolding reads_def by blast+
    moreover have "store db' \<in> H" using 1(1) by (simp add: follows_def)
    ultimately show ?thesis using 1(2) 1(3) [OF Inr] R_trans by metis
  qed
qed

lemma reads_weaken: "reads Q m \<Longrightarrow> (\<And>s x u. Q s x u \<Longrightarrow> S s x u) \<Longrightarrow> reads S m"
  unfolding reads_def by blast

lemma reads_cases: "(b \<Longrightarrow> reads Q m) \<Longrightarrow> (\<not> b \<Longrightarrow> reads Q n) \<Longrightarrow> reads Q (if b then m else n)"
  by simp

end

end
