(* ===== verification/ApiLaws.thy ===== *)
theory ApiLaws
  imports Api Reading
begin

text \<open>
  What the pool endpoints answer while other requests keep writing. The states the database
  goes through form a timeline \<open>H\<close>; a request started in one of them answers for one of them.
\<close>

section \<open>Timelines\<close>

definition timeline :: "tables set \<Rightarrow> bool" where
  "timeline H \<longleftrightarrow> (\<forall>t \<in> H. db_ok t) \<and> (\<forall>t \<in> H. \<forall>u \<in> H. db_steps t u \<or> db_steps u t)"

interpretation api: reading db_steps H for H
  by unfold_locales

lemma same_view:
  assumes "timeline H" "t \<in> H" "u \<in> H" "version t = version u"
  shows "view t = view u"
proof
  fix ip
  from assms have ok: "db_ok t" "db_ok u" and "db_steps t u \<or> db_steps u t" by (simp_all add: timeline_def)
  then show "view t ip = view u ip"
    using pool.unchanged [of t u ip] pool.unchanged [of u t ip] assms(4) by auto
qed

lemma steps_reset_fixed: "db_steps t u \<Longrightarrow> db_ok t \<Longrightarrow> version u = version t \<Longrightarrow> reset_version u = reset_version t"
proof (induction rule: rtranclp_induct)
  case (step u v)
  have ok: "db_ok u" by (rule pool.steps_inv [OF step.hyps(1) step.prems(1)])
  have "version t \<le> version u" "version u \<le> version v"
    using pool.steps_ver [OF step.hyps(1)] pool.ver_step [OF step.hyps(2)] by simp_all
  with step have "version u = version t" "reset_version u = reset_version t" by simp_all
  moreover have "reset_version v \<in> {reset_version u, version u + 1}"
    using step_moves [OF step.hyps(2)] by (simp add: moves_def)
  moreover have "reset_version v \<le> version v" by (rule pool.reset_le [OF db_ok_step [OF step.hyps(2) ok]])
  ultimately show ?case using step.prems by auto
qed simp

lemma same_reset:
  assumes "timeline H" "t \<in> H" "u \<in> H" "version t = version u"
  shows "reset_version t = reset_version u"
  using assms steps_reset_fixed [of t u] steps_reset_fixed [of u t] unfolding timeline_def by metis

lemma older_state:
  assumes "timeline H" "t \<in> H" "u \<in> H" "version t < version u"
  shows "db_steps t u"
  using assms pool.steps_ver [of u t] by (force simp: timeline_def)

lemma reset_mono:
  assumes "timeline H" "t \<in> H" "u \<in> H" "version t \<le> version u"
  shows "reset_version t \<le> reset_version u"
proof (cases "version t = version u")
  case True
  with same_reset [OF assms(1-3)] show ?thesis by simp
next
  case False
  with assms older_state [OF assms(1-3)] pool.steps_reset [of t u] show ?thesis by (auto simp: timeline_def)
qed

text \<open>A change response for one state completes every earlier snapshot that no reset separates from it.\<close>

lemma timeline_merge:
  assumes "timeline H" "c \<in> H" "u \<in> H" "version c < version u" "reset_version u \<le> version c"
  shows "merge_rows (view c) (changed_rows (version c) (version u) u) = view u"
  using assms by (intro merge_changes older_state [OF assms(1-4)]) (simp_all add: timeline_def)

section \<open>Keys of the edge cache\<close>

lemma params_get_set: "params_get k (params_set k' v ps) = (if k = k' then Some v else params_get k ps)"
proof (induction k' v ps rule: params_set.induct)
  case (2 k' v p ps)
  have "map_of (filter (\<lambda>q. fst q \<noteq> k') ps) k = map_of ps k" if "k \<noteq> k'"
    using that by (induction ps) auto
  with 2 show ?case by (cases p) (auto simp: params_get_def)
qed (simp add: params_get_def)

lemma int_text_inj: "int_text m = int_text n \<longleftrightarrow> m = n"
proof -
  have "hd (num_str 10 k) \<noteq> CHR ''-''" for k
  proof -
    have "hd (num_str 10 k) \<in> set (num_str 10 k)" by simp
    then have "is_dig 10 (hd (num_str 10 k))" using num_str_dig [of 10 k] by simp
    then show ?thesis using is_digit_dig [of "hd (num_str 10 k)"] by (auto simp: is_digit_def)
  qed
  then have "''-'' @ s \<noteq> num_str 10 k" for s k by (metis append_Cons append_Nil list.sel(1))
  then show ?thesis by (auto simp: int_text_def num_str_inj nat_eq_iff2 dest: sym)
qed

lemma pool_key_eq: "pool_key v ps = pool_key v' ps' \<Longrightarrow> v = v' \<and> family_param ps = family_param ps'"
proof -
  assume key: "pool_key v ps = pool_key v' ps'"
  have get: "params_get k (pool_key v ps) = params_get k (pool_key v' ps')" for k by (simp only: key)
  from get [of "''v''"] have "v = v'" by (simp add: pool_key_def params_get_set int_text_inj)
  moreover from get [of "''family''"] have "params_get ''family'' ps = params_get ''family'' ps'"
    by (simp add: pool_key_def params_get_set)
  ultimately show ?thesis by (simp add: family_param_def)
qed

lemma changes_key_eq: "changes_key a v ps = changes_key a' v' ps' \<Longrightarrow> a = a' \<and> v = v'"
proof -
  assume key: "changes_key a v ps = changes_key a' v' ps'"
  have get: "params_get k (changes_key a v ps) = params_get k (changes_key a' v' ps')" for k by (simp only: key)
  from get [of "''v''"] get [of "''since''"] show ?thesis
    by (simp add: changes_key_def params_get_set int_text_inj)
qed

section \<open>What one load sees\<close>

lemma shown_rows: "map (toIPRow \<circ> rowToIPStatus legacy) rows = map (shown legacy) rows"
  by (simp add: shown_def)

lemma reads_aggregates: "api.reads H (\<lambda>s x u. db_steps s u) (cachedOverviewAggregates hit)"
proof (cases hit)
  case None
  show ?thesis unfolding cachedOverviewAggregates_def None option.case
    by (rule api.reads_weaken [OF api.reads_query]) simp
next
  case (Some agg)
  show ?thesis unfolding cachedOverviewAggregates_def Some option.case
    by (rule api.reads_weaken [OF api.reads_ret]) simp
qed

lemma reads_overview: "api.reads H (\<lambda>s x u. db_steps s u) (overview legacy hit)"
proof -
  have "api.reads H (\<lambda>s x u. db_steps s u) (andThen (cachedOverviewAggregates hit) (\<lambda>agg. ret (f agg)))" for f :: "int \<times> int \<Rightarrow> stats"
    by (rule api.reads_weaken [OF api.reads_bind [OF reads_aggregates api.reads_ret]]) blast
  then have inner: "\<And>x. api.reads H (\<lambda>s y u. db_steps s u) (andThen (cachedOverviewAggregates hit) (\<lambda>agg. ret (g x agg)))"
    for g :: "(string \<times> string option) option \<Rightarrow> int \<times> int \<Rightarrow> stats" by blast
  show ?thesis unfolding overview_def
    by (rule api.reads_weaken [OF api.reads_bind [OF api.reads_query inner]]) (blast intro: rtranclp_trans)
qed

lemma reads_loadPoolChanges:
  "api.reads H (\<lambda>s d u. \<exists>m \<in> H. db_steps s m \<and> db_steps m u \<and> d_ips d = map (shown legacy) (changed_rows a b m))
     (loadPoolChanges legacy hit a b)"
proof -
  have rows: "api.reads H (\<lambda>s x u. u \<in> H \<and> db_steps s u \<and> x = map (rowToIPStatus legacy) (changed_rows a b u))
      (listKnownIPsChanged legacy a b)"
    unfolding listKnownIPsChanged_def
    by (rule api.reads_weaken [OF api.reads_bind [OF api.reads_query api.reads_ret]]) auto
  have rest: "\<And>x. api.reads H (\<lambda>s d u. db_steps s u \<and> d_ips d = map toIPRow x)
      (andThen (overview legacy hit) (\<lambda>stats. ret \<lparr>d_ips = map toIPRow x, d_scanMode = st_scanMode stats, d_stats = stats\<rparr>))"
    by (rule api.reads_weaken [OF api.reads_bind [OF reads_overview api.reads_ret]]) auto
  show ?thesis unfolding loadPoolChanges_def
    by (rule api.reads_weaken [OF api.reads_bind [OF rows rest]]) (auto simp: shown_def)
qed

text \<open>All rows of a family, each once.\<close>

definition family_ok :: "int option \<Rightarrow> string \<Rightarrow> bool" where
  "family_ok fam ip \<longleftrightarrow> (fam = Some 4 \<longrightarrow> CHR '':'' \<notin> set ip) \<and> (fam = Some 6 \<longrightarrow> CHR '':'' \<in> set ip)"

definition full_rows :: "int option \<Rightarrow> tables \<Rightarrow> ip_pool_row list \<Rightarrow> bool" where
  "full_rows fam t rows \<longleftrightarrow> distinct (map q_ip rows)
     \<and> (\<forall>ip. find_row q_ip ip rows = (if family_ok fam ip then view t ip else None))"

lemma known_full:
  assumes "db_ok t" "o_onlyUp opts = False" "o_search opts = []" "o_limit opts = 0"
  shows "full_rows (o_family opts) t (map (join_row t) (known_rows opts t))"
proof -
  let ?ps = "known_rows opts t"
  have d: "distinct (map p_ip (pool t))" "distinct (map p_ip ?ps)"
    using assms(1) distinct_known_rows [OF assms(1)] by (simp_all add: db_ok_def keys_distinct_def)
  have f: "known_filter opts t p = family_ok (o_family opts) (p_ip p)" if "p \<in> set (pool t)" for p
  proof -
    have "p_is_ipv6 p = ipv6_flag (p_ip p)" using assms(1) that by (simp add: db_ok_def pool_ok_def row_ok_def)
    then show ?thesis using assms(2,3) by (simp add: known_filter_def ipv6_flag_def family_ok_def)
  qed
  have set: "set ?ps = {p \<in> set (pool t). family_ok (o_family opts) (p_ip p)}"
    using f assms(4) by (auto simp: known_rows_def Let_def)
  have "find_row p_ip ip ?ps = (if family_ok (o_family opts) ip then find_row p_ip ip (pool t) else None)" for ip
  proof (cases "find_row p_ip ip ?ps")
    case None
    then have "\<forall>p \<in> set (pool t). family_ok (o_family opts) (p_ip p) \<longrightarrow> p_ip p \<noteq> ip"
      using set by (auto simp: find_row_None)
    then have "family_ok (o_family opts) ip \<Longrightarrow> find_row p_ip ip (pool t) = None" by (auto simp: find_row_None)
    with None show ?thesis by simp
  next
    case (Some p)
    from find_row_Some [OF this] have "p \<in> set (pool t)" "family_ok (o_family opts) ip" "p_ip p = ip"
      using set by auto
    with Some find_row_in [OF d(1)] show ?thesis by auto
  qed
  with d(2) show ?thesis
    by (simp add: full_rows_def find_row_join view_def comp_def)
qed

lemma reads_loadPool:
  assumes "timeline H"
  shows "api.reads H (\<lambda>s d u. \<exists>m \<in> H. db_steps s m \<and> db_steps m u \<and>
      (\<exists>rows. full_rows fam m rows \<and> d_ips d = map (shown legacy) rows))
     (loadPool legacy hit \<lparr>lo_sortBy = None, lo_sortDesc = None, lo_family = fam\<rparr>)"
proof -
  let ?opts = "pool_query \<lparr>lo_sortBy = None, lo_sortDesc = None, lo_family = fam\<rparr>"
  have opts: "o_onlyUp ?opts = False" "o_search ?opts = []" "o_limit ?opts = 0" "o_family ?opts = fam"
    by (simp_all add: pool_query_def Let_def)
  have known: "full_rows fam t (map (join_row t) (known_rows ?opts t))" if "t \<in> H" for t
    using known_full [of t ?opts] assms that opts by (simp add: timeline_def)
  have rows: "api.reads H (\<lambda>s x u. u \<in> H \<and> db_steps s u \<and> (\<exists>rows. full_rows fam u rows \<and> x = map (rowToIPStatus legacy) rows))
      (listKnownIPs legacy ?opts)"
    unfolding listKnownIPs_def
    by (rule api.reads_weaken [OF api.reads_bind [OF api.reads_query api.reads_ret]]) (use known in blast)
  have rest: "\<And>x. api.reads H (\<lambda>s d u. db_steps s u \<and> d_ips d = map toIPRow x)
      (andThen (overview legacy hit) (\<lambda>stats. ret \<lparr>d_ips = map toIPRow x, d_scanMode = st_scanMode stats, d_stats = stats\<rparr>))"
    by (rule api.reads_weaken [OF api.reads_bind [OF reads_overview api.reads_ret]]) auto
  have load: "loadPool legacy hit \<lparr>lo_sortBy = None, lo_sortDesc = None, lo_family = fam\<rparr> =
      andThen (listKnownIPs legacy ?opts) (\<lambda>known. andThen (overview legacy hit)
        (\<lambda>stats. ret \<lparr>d_ips = map toIPRow known, d_scanMode = st_scanMode stats, d_stats = stats\<rparr>))"
    by (simp add: loadPool_def or_else_def)
  show ?thesis unfolding load
    by (rule api.reads_weaken [OF api.reads_bind [OF rows rest]]) (elim exE conjE; simp; blast intro: shown_rows)
qed

section \<open>Honest edge caches\<close>

text \<open>
  What the entries of the edge cache hold, if only the handlers write there: under a key with
  some version, the rows of a state of the timeline that has that version.
\<close>

definition pool_entry :: "tables set \<Rightarrow> (string \<Rightarrow> js_date) \<Rightarrow> params \<Rightarrow> pool_body \<Rightarrow> bool" where
  "pool_entry H legacy key b \<longleftrightarrow> (\<exists>u \<in> H. \<exists>ps rows. key = pool_key (version u) ps \<and> v_version b = version u
     \<and> full_rows (family_param ps) u rows \<and> v_ips b = map (api_row \<circ> shown legacy) rows)"

definition changes_entry :: "tables set \<Rightarrow> (string \<Rightarrow> js_date) \<Rightarrow> params \<Rightarrow> pool_body \<Rightarrow> bool" where
  "changes_entry H legacy key b \<longleftrightarrow> (\<exists>u \<in> H. \<exists>ps since. key = changes_key since (version u) ps
     \<and> v_version b = version u \<and> since < version u \<and> reset_version u \<le> since
     \<and> v_ips b = map (api_row \<circ> shown legacy) (changed_rows since (version u) u))"

definition honest_pool :: "tables set \<Rightarrow> (string \<Rightarrow> js_date) \<Rightarrow> edge \<Rightarrow> bool" where
  "honest_pool H legacy edge \<longleftrightarrow> (\<forall>key b. edge key = Some b \<longrightarrow> pool_entry H legacy key b)"

definition honest_changes :: "tables set \<Rightarrow> (string \<Rightarrow> js_date) \<Rightarrow> edge \<Rightarrow> bool" where
  "honest_changes H legacy edge \<longleftrightarrow> (\<forall>key b. edge key = Some b \<longrightarrow> changes_entry H legacy key b)"

text \<open>What a client may do with the answer of a handler.\<close>

fun pool_answer :: "tables set \<Rightarrow> (string \<Rightarrow> js_date) \<Rightarrow> int option \<Rightarrow> tables \<Rightarrow> json \<Rightarrow> bool" where
  "pool_answer H legacy fam t (Payload b) = (\<exists>u \<in> H. version t \<le> version u \<and> v_version b = version u
     \<and> (\<exists>rows. full_rows fam u rows \<and> v_ips b = map (api_row \<circ> shown legacy) rows))"
| "pool_answer H legacy fam t x = (\<exists>e. x = Error e)"

fun changes_answer :: "tables set \<Rightarrow> (string \<Rightarrow> js_date) \<Rightarrow> int \<Rightarrow> tables \<Rightarrow> json \<Rightarrow> bool" where
  "changes_answer H legacy since t (Payload b) = (\<exists>u \<in> H. version t \<le> version u \<and> v_version b = version u
     \<and> since < version u \<and> reset_version u \<le> since
     \<and> v_ips b = map (api_row \<circ> shown legacy) (changed_rows since (version u) u))"
| "changes_answer H legacy since t (Unchanged v) =
     (v = since \<and> (\<exists>u \<in> H. version t \<le> version u \<and> version u = since \<and> reset_version u \<le> since))"
| "changes_answer H legacy since t (Reset v) = (\<exists>u \<in> H. version t \<le> v \<and> v \<le> version u \<and> (v < since \<or> since < reset_version u))"
| "changes_answer H legacy since t x = (x = Retry)"

lemma pool_answer_mono: "pool_answer H legacy fam w x \<Longrightarrow> version s \<le> version w \<Longrightarrow> pool_answer H legacy fam s x"
  by (cases x) (simp_all, blast intro: order_trans)

lemma changes_answer_mono:
  "changes_answer H legacy since w x \<Longrightarrow> version s \<le> version w \<Longrightarrow> changes_answer H legacy since s x"
  by (cases x) (simp_all, (blast intro: order_trans)+)

lemma pool_body_version [simp]: "v_version (pool_body ver c d) = ver"
  by (simp add: pool_body_def Let_def)

lemma pool_body_ips: "d_ips d = map (shown legacy) rows \<Longrightarrow> v_ips (pool_body ver c d) = map (api_row \<circ> shown legacy) rows"
  by (simp add: pool_body_def Let_def)

lemma reads_recheck:
  "api.reads H (\<lambda>s out u. out = (if version u = v then yes else no) \<and> db_steps s u \<and> u \<in> H)
     (andThen poolVersion (\<lambda>v'. if v' \<noteq> v then ret no else ret yes))"
proof -
  have "\<And>x. api.reads H (\<lambda>s y u. u = s \<and> y = (if x = v then yes else no)) (if x \<noteq> v then ret no else ret yes)"
    by (rule api.reads_cases; rule api.reads_weaken [OF api.reads_ret]) simp_all
  from api.reads_bind [OF api.reads_query [of _ version] this] show ?thesis
    unfolding poolVersion_def by (rule api.reads_weaken) auto
qed

text \<open>Between two reads of one version, nothing visible has changed.\<close>

lemma between_versions:
  assumes "timeline H" "s \<in> H" "m \<in> H" "u \<in> H" "db_steps s m" "db_steps m u" "version u = version s"
  shows "version m = version s" "view m = view s" "reset_version m = reset_version s"
proof -
  show v: "version m = version s" using pool.steps_ver [OF assms(5)] pool.steps_ver [OF assms(6)] assms(7) by simp
  from same_view [OF assms(1,3,2) v] same_reset [OF assms(1,3,2) v]
  show "view m = view s" "reset_version m = reset_version s" .
qed

lemma full_rows_cong: "view m = view s \<Longrightarrow> full_rows fam m rows = full_rows fam s rows"
  by (simp add: full_rows_def)

text \<open>The loading half of \<open>GET /api/pool\<close> and of \<open>GET /api/pool/changes\<close>, once the version is read.\<close>

lemma reads_pool_load:
  assumes "timeline H"
  shows "api.reads H (\<lambda>s out u. s \<in> H \<and> version s = v \<longrightarrow>
       out = no \<or> (\<exists>d rows. out = yes d \<and> full_rows fam s rows \<and> d_ips d = map (shown legacy) rows))
     (andThen (loadPool legacy hit \<lparr>lo_sortBy = None, lo_sortDesc = None, lo_family = fam\<rparr>) (\<lambda>d.
      andThen poolVersion (\<lambda>v'. if v' \<noteq> v then ret no else ret (yes d))))"
proof (rule api.reads_weaken [OF api.reads_bind [OF reads_loadPool [OF assms] reads_recheck]], intro impI, elim exE conjE bexE)
  fix s out u d m w rows
  assume s: "s \<in> H" "version s = v" and out: "out = (if version u = v then yes d else no)"
    and m: "m \<in> H" "db_steps s m" "db_steps m w" "db_steps w u" "u \<in> H"
    and rows: "full_rows fam m rows" "d_ips d = map (shown legacy) rows"
  show "out = no \<or> (\<exists>d rows. out = yes d \<and> full_rows fam s rows \<and> d_ips d = map (shown legacy) rows)"
  proof (cases "version u = v")
    case True
    have "db_steps m u" using m(3,4) by simp
    from between_versions(2) [OF assms s(1) m(1,5,2) this] True s(2)
    have "full_rows fam s rows" using rows(1) full_rows_cong [of m s fam rows] by simp
    with True out rows(2) show ?thesis by auto
  qed (use out in simp)
qed

lemma reads_changes_load:
  assumes "timeline H"
  shows "api.reads H (\<lambda>s out u. s \<in> H \<and> v \<le> version s \<longrightarrow>
       out = no \<or> (\<exists>d. \<exists>m \<in> H. out = yes d \<and> version m = v \<and> view m = view s
          \<and> reset_version m = reset_version s \<and> d_ips d = map (shown legacy) (changed_rows a v m)))
     (andThen (loadPoolChanges legacy hit a v) (\<lambda>d.
      andThen poolVersion (\<lambda>v'. if v' \<noteq> v then ret no else ret (yes d))))"
proof (rule api.reads_weaken [OF api.reads_bind [OF reads_loadPoolChanges reads_recheck]], intro impI, elim exE conjE bexE)
  fix s out u d m w
  assume s: "s \<in> H" "v \<le> version s" and out: "out = (if version u = v then yes d else no)"
    and m: "m \<in> H" "db_steps s m" "db_steps m w" "db_steps w u" "u \<in> H"
    and rows: "d_ips d = map (shown legacy) (changed_rows a v m)"
  show "out = no \<or> (\<exists>d. \<exists>m \<in> H. out = yes d \<and> version m = v \<and> view m = view s
      \<and> reset_version m = reset_version s \<and> d_ips d = map (shown legacy) (changed_rows a v m))"
  proof (cases "version u = v")
    case True
    have mu: "db_steps m u" using m(3,4) by simp
    have "version u = version s" using pool.steps_ver [OF m(2)] pool.steps_ver [OF mu] s(2) True by simp
    from between_versions [OF assms s(1) m(1,5,2) mu this] this True
    have "version m = v" "view m = view s" "reset_version m = reset_version s" by simp_all
    with True out rows m(1) show ?thesis by (intro disjI2) auto
  qed (use out in simp)
qed

lemma pool_get_answer:
  assumes "timeline H" "honest_pool H legacy edge"
  shows "api.reads H (\<lambda>s out u. s \<in> H \<longrightarrow> pool_answer H legacy (family_param ps) s (body (fst out))
       \<and> (\<forall>key b. snd out = Some (key, b) \<longrightarrow> pool_entry H legacy key b))
     (pool_get legacy edge hit ps)"
proof -
  let ?fam = "family_param ps"
  let ?ok = "\<lambda>(s :: tables) (out :: json reply \<times> put). pool_answer H legacy ?fam s (body (fst out))
    \<and> (\<forall>key b. snd out = Some (key, b) \<longrightarrow> pool_entry H legacy key b)"
  have rest: "\<And>v. api.reads H (\<lambda>s out u. s \<in> H \<and> version s = v \<longrightarrow> ?ok s out)
      (case edge (pool_key v ps) of
       Some b \<Rightarrow> ret (fresh 200 (Payload b), None)
     | None \<Rightarrow>
         andThen (loadPool legacy hit \<lparr>lo_sortBy = None, lo_sortDesc = None, lo_family = ?fam\<rparr>) (\<lambda>d.
         andThen poolVersion (\<lambda>v'.
         if v' \<noteq> v then ret (fresh 503 (Error ''pool changed while loading''), None)
         else let b = pool_body v True d in ret (fresh 200 (Payload b), Some (pool_key v ps, b)))))"
    (is "\<And>v. api.reads H _ (?load v)")
  proof -
    fix v
    show "api.reads H (\<lambda>s out u. s \<in> H \<and> version s = v \<longrightarrow> ?ok s out) (?load v)"
    proof (cases "edge (pool_key v ps)")
      case (Some b)
      with assms(2) have "pool_entry H legacy (pool_key v ps) b" by (simp add: honest_pool_def)
      then obtain u ps' rows where u: "u \<in> H" "pool_key v ps = pool_key (version u) ps'" "v_version b = version u"
        "full_rows (family_param ps') u rows" "v_ips b = map (api_row \<circ> shown legacy) rows"
        unfolding pool_entry_def by (elim bexE exE conjE)
      from pool_key_eq [OF u(2)] have "v = version u" "?fam = family_param ps'" by simp_all
      with u have "?ok s (fresh 200 (Payload b), None)" if "version s = v" for s
        using that by (auto simp: fresh_def)
      then show ?thesis unfolding Some option.case by (intro api.reads_weaken [OF api.reads_ret]) simp
    next
      case None
      show ?thesis unfolding None option.case Let_def
      proof (rule api.reads_weaken [OF reads_pool_load [OF assms(1)]], intro impI)
        fix s out u
        assume s: "s \<in> H \<and> version s = v"
          and o: "s \<in> H \<and> version s = v \<longrightarrow> out = (fresh 503 (Error ''pool changed while loading''), None) \<or>
            (\<exists>d rows. out = (fresh 200 (Payload (pool_body v True d)), Some (pool_key v ps, pool_body v True d))
              \<and> full_rows ?fam s rows \<and> d_ips d = map (shown legacy) rows)"
        from o s show "?ok s out"
        proof (elim impE disjE exE conjE)
          fix d rows
          assume *: "out = (fresh 200 (Payload (pool_body v True d)), Some (pool_key v ps, pool_body v True d))"
            "full_rows ?fam s rows" "d_ips d = map (shown legacy) rows"
          have "pool_entry H legacy (pool_key v ps) (pool_body v True d)"
            unfolding pool_entry_def using s *(2) pool_body_ips [OF *(3), of v True] pool_body_version by blast
          moreover have "pool_answer H legacy ?fam s (Payload (pool_body v True d))"
            using s *(2) pool_body_ips [OF *(3), of v True] by auto
          ultimately show ?thesis using *(1) by (simp add: fresh_def)
        qed (simp_all add: fresh_def)
      qed
    qed
  qed
  show ?thesis unfolding pool_get_def poolVersion_def
  proof (rule api.reads_weaken [OF api.reads_bind [OF api.reads_query rest [unfolded poolVersion_def]]], intro impI, elim exE conjE)
    fix s out u x w
    assume "s \<in> H" "x = version w" "db_steps s w" "w \<in> H" "w \<in> H \<and> version w = x \<longrightarrow> ?ok w out"
    then have "?ok w out" "version s \<le> version w" using pool.steps_ver by auto
    then show "?ok s out" using pool_answer_mono by blast
  qed
qed

lemma reads_changes_answer:
  fixes edge :: edge
  assumes "timeline H" "honest_changes H legacy edge" "since < v"
  shows "api.reads H (\<lambda>s out u. s \<in> H \<and> v \<le> version s \<and> reset_version s \<le> since \<longrightarrow>
        (\<forall>t. version t \<le> v \<longrightarrow> changes_answer H legacy since t (body (fst out)))
        \<and> (\<forall>key b. snd out = Some (key, b) \<longrightarrow> changes_entry H legacy key b))
     (changes_load legacy edge hit ps since v)"
    (is "api.reads H (\<lambda>s out u. ?pre s \<longrightarrow> ?ok out) _")
proof (cases "edge (changes_key since v ps)")
  case (Some b)
  with assms(2) have "changes_entry H legacy (changes_key since v ps) b" by (simp add: honest_changes_def)
  then obtain u ps' a where u: "u \<in> H" "changes_key since v ps = changes_key a (version u) ps'" "v_version b = version u"
    "a < version u" "reset_version u \<le> a" "v_ips b = map (api_row \<circ> shown legacy) (changed_rows a (version u) u)"
    unfolding changes_entry_def by (elim bexE exE conjE)
  from changes_key_eq [OF u(2)] have "since = a" "v = version u" by simp_all
  with u have "?ok (fresh 200 (Payload b), None)" by (auto simp: fresh_def)
  then show ?thesis unfolding changes_load_def Some option.case by (intro api.reads_weaken [OF api.reads_ret]) simp
next
  case None
  show ?thesis unfolding changes_load_def None option.case Let_def
  proof (rule api.reads_weaken [OF reads_changes_load [OF assms(1)]], intro impI)
    fix s out u
    assume s: "?pre s"
      and o: "s \<in> H \<and> v \<le> version s \<longrightarrow> out = (fresh 503 Retry, None) \<or>
        (\<exists>d. \<exists>m \<in> H. out = (fresh 200 (Payload (pool_body v False d)), Some (changes_key since v ps, pool_body v False d))
          \<and> version m = v \<and> view m = view s \<and> reset_version m = reset_version s
          \<and> d_ips d = map (shown legacy) (changed_rows since v m))"
    from o s show "?ok out"
    proof (elim impE disjE exE conjE bexE)
      fix d m
      assume *: "out = (fresh 200 (Payload (pool_body v False d)), Some (changes_key since v ps, pool_body v False d))"
        and m: "m \<in> H" "version m = v" "reset_version m = reset_version s" "d_ips d = map (shown legacy) (changed_rows since v m)"
      note ips = pool_body_ips [OF m(4), of v False]
      have "changes_entry H legacy (changes_key since v ps) (pool_body v False d)"
        unfolding changes_entry_def using m s assms(3) ips by (intro bexI [of _ m] exI [of _ ps] exI [of _ since]) auto
      moreover have "changes_answer H legacy since t (Payload (pool_body v False d))" if "version t \<le> v" for t
        using m s assms(3) ips that by auto
      ultimately show ?thesis using * by (simp add: fresh_def)
    qed (simp_all add: fresh_def)
  qed
qed

lemma changes_get_answer:
  assumes "timeline H" "honest_changes H legacy edge" "since_number (or_else (params_get ''since'' ps) []) = Some since"
  shows "api.reads H (\<lambda>s out u. s \<in> H \<longrightarrow> changes_answer H legacy since s (body (fst out))
       \<and> (\<forall>key b. snd out = Some (key, b) \<longrightarrow> changes_entry H legacy key b))
     (changes_get legacy edge hit ps)"
proof -
  let ?ok = "\<lambda>(s :: tables) (out :: json reply \<times> put). changes_answer H legacy since s (body (fst out))
    \<and> (\<forall>key b. snd out = Some (key, b) \<longrightarrow> changes_entry H legacy key b)"
  let ?rest = "\<lambda>v r. if since < r then ret (fresh 200 (Reset v), None)
    else if since = v then ret (fresh 200 (Unchanged v), None) else changes_load legacy edge hit ps since v"
  let ?Q = "\<lambda>v r s out u. s \<in> H \<and> reset_version s = r \<and> v \<le> version s
    \<and> (\<exists>w \<in> H. version w = v \<and> reset_version w \<le> r) \<longrightarrow> (\<forall>t. version t \<le> v \<longrightarrow> ?ok t out)"
  have rest: "api.reads H (?Q v r) (?rest v r)" if "since \<le> v" for v r
  proof (intro api.reads_cases)
    assume "since < r"
    then show "api.reads H (?Q v r) (ret (fresh 200 (Reset v), None))"
      by (intro api.reads_weaken [OF api.reads_ret]) (auto simp: fresh_def)
  next
    assume "\<not> since < r" "since = v"
    then show "api.reads H (?Q v r) (ret (fresh 200 (Unchanged v), None))"
      by (intro api.reads_weaken [OF api.reads_ret]) (auto simp: fresh_def intro: order_trans)
  next
    assume r: "\<not> since < r" "since \<noteq> v"
    with that have "since < v" by simp
    show "api.reads H (?Q v r) (changes_load legacy edge hit ps since v)"
      by (rule api.reads_weaken [OF reads_changes_answer [OF assms(1,2) \<open>since < v\<close>]]) (use r in auto)
  qed
  have start: "api.reads H (\<lambda>s out u. s \<in> H \<and> version s = v \<longrightarrow> (\<forall>t. version t \<le> v \<longrightarrow> ?ok t out))
    (if v < since then ret (fresh 200 (Reset v), None) else andThen poolResetVersion (?rest v))" for v
  proof (rule api.reads_cases)
    assume "v < since"
    then show "api.reads H (\<lambda>s out u. s \<in> H \<and> version s = v \<longrightarrow> (\<forall>t. version t \<le> v \<longrightarrow> ?ok t out))
        (ret (fresh 200 (Reset v), None))"
      by (intro api.reads_weaken [OF api.reads_ret]) (auto simp: fresh_def)
  next
    assume "\<not> v < since"
    then have "since \<le> v" by simp
    from api.reads_bind [OF api.reads_query rest [OF this], of reset_version]
    show "api.reads H (\<lambda>s out u. s \<in> H \<and> version s = v \<longrightarrow> (\<forall>t. version t \<le> v \<longrightarrow> ?ok t out))
        (andThen poolResetVersion (?rest v))" unfolding poolResetVersion_def
    proof (rule api.reads_weaken, intro impI, elim exE conjE)
      fix s out u r w
      assume s: "s \<in> H" "version s = v" and w: "r = reset_version w" "db_steps s w" "w \<in> H" and q: "?Q v r w out u"
      have le: "version s \<le> version w" by (rule pool.steps_ver [OF w(2)])
      moreover have "reset_version s \<le> r" using reset_mono [OF assms(1) s(1) w(3) le] w(1) by simp
      ultimately show "\<forall>t. version t \<le> v \<longrightarrow> ?ok t out" using q s w(1,3) by blast
    qed
  qed
  from api.reads_bind [OF api.reads_query start, of version]
  show ?thesis unfolding changes_get_def assms(3) option.case poolVersion_def
  proof (rule api.reads_weaken, intro impI, elim exE conjE)
    fix s out u v w
    assume "s \<in> H" "v = version w" "db_steps s w" "w \<in> H" "w \<in> H \<and> version w = v \<longrightarrow> (\<forall>t. version t \<le> v \<longrightarrow> ?ok t out)"
    then show "?ok s out" using pool.steps_ver [of s w] by blast
  qed
qed

end
