(* ===== verification/QueryPage.thy ===== *)
theory QueryPage
  imports HandlerLaws GeoLaws ApiLaws
begin

text \<open>
  GET /query of src/functions/query.ts up to the data the page shows: the redirect to the
  normal form, the hourly limit, the gate on Google's networks, the lookups of an address or a
  host name, and the description of the result. \<open>now\<close> is the clock when the request reads
  its caches, \<open>later\<close> when it writes them. How the data becomes HTML is in Pages.
\<close>

section \<open>The data of the page\<close>

record addr_status =
  as_addr :: string
  as_status :: string

record hostname_form =
  hf_hostname :: string
  hf_ipv4 :: "addr_status list"
  hf_ipv6 :: "addr_status list"
  hf_failed :: bool

record query_data =
  qd_query :: string
  qd_submitted :: bool
  qd_error :: string
  qd_ptrHostnames :: "string list"
  qd_ptrFailed :: bool
  qd_matched :: bool
  qd_airportCode :: string
  qd_city :: string
  qd_country :: string
  qd_hasHistory :: bool
  qd_status :: string
  qd_firstSeen :: string
  qd_lastSeen :: string
  qd_timesSeen :: int
  qd_lastRttMs :: int
  qd_queryIsHostname :: bool
  qd_hostnameForms :: "hostname_form list"
  qd_canProbe :: bool

definition emptyData :: "string \<Rightarrow> query_data" where
  "emptyData q =
     \<lparr>qd_query = q, qd_submitted = False, qd_error = [], qd_ptrHostnames = [], qd_ptrFailed = False,
      qd_matched = False, qd_airportCode = [], qd_city = [], qd_country = [], qd_hasHistory = False,
      qd_status = [], qd_firstSeen = [], qd_lastSeen = [], qd_timesSeen = 0, qd_lastRttMs = 0,
      qd_queryIsHostname = False, qd_hostnameForms = [], qd_canProbe = False\<rparr>"

definition reachabilityStatus :: "ip_status option \<Rightarrow> string" where
  "reachabilityStatus st =
     (case st of
        None \<Rightarrow> ''-''
      | Some s \<Rightarrow> if \<not> s_hasCheck s then ''-''
                  else if s_lastCheckOk s then ''Reachable'' else ''Unreachable'')"

definition located :: "location \<Rightarrow> query_data \<Rightarrow> query_data" where
  "located loc data =
     data\<lparr>qd_matched := g_matched loc, qd_airportCode := g_airportCode loc, qd_city := g_city loc,
          qd_country := g_country loc\<rparr>"

section \<open>Lookups\<close>

definition statusForIP :: "(string \<Rightarrow> js_date) \<Rightarrow> string \<Rightarrow> (tables, string) prog" where
  "statusForIP legacy ip = andThen (ipStatusFor legacy ip) (\<lambda>st. ret (reachabilityStatus st))"

text \<open>\<open>for (const addr of addrs) form.push({ addr, status: await statusForIP(db, addr) })\<close>.\<close>

fun addr_statuses :: "(string \<Rightarrow> js_date) \<Rightarrow> string list \<Rightarrow> (tables, addr_status list) prog" where
  "addr_statuses legacy [] = ret []"
| "addr_statuses legacy (a # as) =
     andThen (statusForIP legacy a) (\<lambda>s.
     andThen (addr_statuses legacy as) (\<lambda>rest.
     ret (\<lparr>as_addr = a, as_status = s\<rparr> # rest)))"

definition resolveHostnameForm ::
  "(string \<Rightarrow> js_date) \<Rightarrow> http \<Rightarrow> string \<Rightarrow> int \<Rightarrow> int \<Rightarrow> string \<Rightarrow> (tables, hostname_form) prog" where
  "resolveHostnameForm legacy http dohUrl now later hostname =
     andThen
       (catching
         (andThen (getHost legacy now hostname) (\<lambda>cached.
          case cached of
            Some e \<Rightarrow> ret (Some (he_ipv4 e, he_ipv6 e))
          | None \<Rightarrow> andThen (resolveAndCacheHost http dohUrl later hostname) (\<lambda>r. ret (Some r))))
         (\<lambda>_. ret None)) (\<lambda>addrs.
     case addrs of
       None \<Rightarrow> ret \<lparr>hf_hostname = hostname, hf_ipv4 = [], hf_ipv6 = [], hf_failed = True\<rparr>
     | Some (ipv4, ipv6) \<Rightarrow>
         andThen (addr_statuses legacy ipv4) (\<lambda>v4.
         andThen (addr_statuses legacy (map (\<lambda>raw. or_else (normalizeIPAddress raw) raw) ipv6)) (\<lambda>v6.
         ret \<lparr>hf_hostname = hostname, hf_ipv4 = v4, hf_ipv6 = v6, hf_failed = False\<rparr>)))"

definition lookupHostnameQuery ::
  "(string \<Rightarrow> js_date) \<Rightarrow> http \<Rightarrow> string \<Rightarrow> int \<Rightarrow> int \<Rightarrow> string \<Rightarrow> query_data \<Rightarrow> (tables, query_data) prog" where
  "lookupHostnameQuery legacy http dohUrl now later hostname data =
     (let data = located (decode hostname) data in
      andThen (resolveHostnameForm legacy http dohUrl now later hostname) (\<lambda>form.
      case siblingHostname hostname of
        None \<Rightarrow> ret (data\<lparr>qd_hostnameForms := [form]\<rparr>)
      | Some sibling \<Rightarrow>
          andThen (resolveHostnameForm legacy http dohUrl now later sibling) (\<lambda>form'.
          ret (data\<lparr>qd_hostnameForms := [form, form']\<rparr>))))"

definition lookupIPQuery ::
  "(string \<Rightarrow> js_date) \<Rightarrow> http \<Rightarrow> string \<Rightarrow> int \<Rightarrow> int \<Rightarrow> string \<Rightarrow> query_data \<Rightarrow> (tables, query_data) prog" where
  "lookupIPQuery legacy http dohUrl now later ip data =
     andThen
       (catching
         (andThen (getPTR legacy now ip) (\<lambda>cached.
          case cached of
            Some e \<Rightarrow> ret (pe_ptrHostnames e, pe_lookupOk e, False)
          | None \<Rightarrow> andThen (resolveAndCachePTR http dohUrl later ip) (\<lambda>(hostnames, ok).
              ret (hostnames, ok, False))))
         (\<lambda>_. ret ([], False, True))) (\<lambda>(hostnames, ok, failed).
     let data = data\<lparr>qd_ptrFailed := failed\<rparr>;
         data = (if ok then located (decodeBest hostnames) (data\<lparr>qd_ptrHostnames := hostnames\<rparr>) else data)
     in andThen (ipStatusFor legacy ip) (\<lambda>st.
        let data =
          (case st of
             None \<Rightarrow> data
           | Some s \<Rightarrow> data\<lparr>qd_hasHistory := True, qd_firstSeen := formatTime (s_firstSeen s),
                 qd_lastSeen := formatTime (s_lastSeen s), qd_timesSeen := s_timesSeen s,
                 qd_lastRttMs := s_lastRttMs s\<rparr>)
        in ret (data\<lparr>qd_status := reachabilityStatus st\<rparr>)))"

section \<open>The description\<close>

definition queryDescription :: "query_data \<Rightarrow> string" where
  "queryDescription data =
     (if \<not> qd_submitted data
      then ''Look up whether an IP address or 1e100.net hostname belongs to a Google Web Server reachable from China.''
      else if qd_error data \<noteq> [] then qd_query data @ '': '' @ qd_error data @ ''.''
      else
        let location = (if qd_matched data
              then (if qd_city data \<noteq> [] then qd_city data @ '', '' @ qd_country data else qd_country data) else [])
        in if qd_queryIsHostname data
           then (if location \<noteq> []
                 then qd_query data @ '': 1e100.net hostname, estimated location '' @ location @ ''.''
                 else qd_query data @ '': 1e100.net hostname.'')
           else join '', ''
                  ([qd_query data @ '': '' @ (if qd_hasHistory data then qd_status data else ''no scan history'')]
                   @ (if location \<noteq> [] then [''estimated location '' @ location] else [])) @ ''.'')"

section \<open>The request\<close>

definition QUERY_RATE_LIMIT_PER_HOUR :: int where "QUERY_RATE_LIMIT_PER_HOUR = 100"

definition QUERY_RATE_LIMIT_MESSAGE :: string where
  "QUERY_RATE_LIMIT_MESSAGE = ''Too many queries from your network; please try again later''"

text \<open>The limiter fails open: without a client address and on an error of the database.\<close>

definition underQueryRateLimit :: "int \<Rightarrow> request \<Rightarrow> (tables, bool) prog" where
  "underQueryRateLimit now request =
     (let cip = or_else (CF_Connecting_IP request) [] in
      if cip = [] then ret True
      else catching (checkRateLimit now ''query'' cip QUERY_RATE_LIMIT_PER_HOUR 3600000) (\<lambda>_. ret True))"

definition ip_page ::
  "(string \<Rightarrow> js_date) \<Rightarrow> http \<Rightarrow> string \<Rightarrow> int \<Rightarrow> int \<Rightarrow> string \<Rightarrow> query_data \<Rightarrow> (tables, query_data) prog" where
  "ip_page legacy http dohUrl now later q data =
     andThen
       (catching (andThen (lookupGoogleASN legacy http dohUrl now later q) (\<lambda>asn. ret (Some asn))) (\<lambda>_. ret None)) (\<lambda>asn.
     case asn of
       None \<Rightarrow> ret (data\<lparr>qd_error := ''Could not verify this IP's ASN right now (the lookup failed); please try again''\<rparr>)
     | Some (info, ok) \<Rightarrow>
         if \<not> ok \<or> \<not> isGoogleASN info then ret (data\<lparr>qd_error := ''This IP does not belong to a Google ASN''\<rparr>)
         else lookupIPQuery legacy http dohUrl now later q data)"

datatype query_page = Redirect params | Page query_data

definition query_text :: "request \<Rightarrow> string" where
  "query_text request = trim (or_else (params_get ''ip'' (searchParams request)) [])"

definition query_get ::
  "(string \<Rightarrow> js_date) \<Rightarrow> http \<Rightarrow> string \<Rightarrow> int \<Rightarrow> int \<Rightarrow> request \<Rightarrow> (tables, query_page) prog" where
  "query_get legacy http dohUrl now later request =
     (let q = query_text request; normalized = or_else (normalizeIPAddress q) [] in
      if isIPAddress q \<and> normalized \<noteq> q
      then ret (Redirect (params_set ''ip'' normalized (searchParams request)))
      else
        let data = (emptyData q)\<lparr>qd_canProbe := (clientCountry request = ''CN'')\<rparr>;
            submitted = data\<lparr>qd_submitted := True\<rparr>;
            limited = (\<lambda>data m. andThen (underQueryRateLimit now request) (\<lambda>ok.
              if \<not> ok then ret (data\<lparr>qd_error := QUERY_RATE_LIMIT_MESSAGE\<rparr>) else m data))
        in andThen
          (if q = [] then ret data
           else if isIPAddress q then limited submitted (ip_page legacy http dohUrl now later q)
           else if isHostname q
           then limited (submitted\<lparr>qd_queryIsHostname := True\<rparr>) (lookupHostnameQuery legacy http dohUrl now later q)
           else ret (submitted\<lparr>qd_error := ''Not a valid IP address or 1e100.net hostname''\<rparr>))
          (\<lambda>data. ret (Page data)))"

section \<open>Every page moves along the steps\<close>

lemma stays_ipStatusFor: "db.stays (ipStatusFor legacy ip)"
  unfolding ipStatusFor_def by (intro db.stays_bind db.stays_query db.stays_ret)

lemma stays_addr_statuses: "db.stays (addr_statuses legacy as)"
  by (induction as) (auto simp: statusForIP_def intro!: db.stays_bind stays_ipStatusFor db.stays_ret)

lemma stays_resolveHostnameForm: "db.stays (resolveHostnameForm legacy http dohUrl now later h)"
  unfolding resolveHostnameForm_def
  by (auto intro!: db.stays_bind db.stays_catching stays_getHost stays_resolveAndCacheHost stays_addr_statuses
      db.stays_ret split: option.split)

lemma stays_lookupIPQuery: "db.stays (lookupIPQuery legacy http dohUrl now later ip data)"
  unfolding lookupIPQuery_def
  by (auto intro!: db.stays_bind db.stays_catching stays_getPTR stays_resolveAndCachePTR stays_ipStatusFor
      db.stays_ret simp: Let_def split: option.split)

lemma stays_query_get: "db.stays (query_get legacy http dohUrl now later request)"
proof -
  have "db.stays (lookupHostnameQuery legacy http dohUrl now later q data)" for q data
    unfolding lookupHostnameQuery_def
    by (auto intro!: db.stays_bind stays_resolveHostnameForm db.stays_ret simp: Let_def split: option.split)
  moreover have "db.stays (ip_page legacy http dohUrl now later q data)" for q data
    unfolding ip_page_def
    by (auto intro!: db.stays_bind db.stays_catching stays_lookupGoogleASN stays_lookupIPQuery db.stays_ret
        split: option.split)
  moreover have "db.stays (underQueryRateLimit now request)"
    unfolding underQueryRateLimit_def Let_def
    by (auto intro!: db.stays_catching stays_checkRateLimit db.stays_ret)
  ultimately show ?thesis
    unfolding query_get_def Let_def by (auto intro!: db.stays_bind db.stays_ret)
qed

section \<open>The redirect\<close>

lemma render_chars:
  assumes "list_all group_text gs" "c \<in> set (render_groups gs)"
  shows "is_hex_digit c \<or> c = CHR '':''"
proof -
  obtain s l where b: "best_zero_run gs 0 (-1) 0 = (s, l)" by fastforce
  have part: "set (join '':'' hs) \<subseteq> {c. is_hex_digit c \<or> c = CHR '':''}" if "set hs \<subseteq> set gs" for hs
    using set_join [of "'':''" hs] that assms(1) by (fastforce simp: list_all_iff group_text_def)
  have "set (take (nat s) gs) \<subseteq> set gs" "set (drop (nat s + l) gs) \<subseteq> set gs"
    by (rule set_take_subset, rule set_drop_subset)
  with part [of gs] part assms(2) show ?thesis by (auto simp: render_groups_def b split: if_splits)
qed

lemma address_chars:
  assumes "normalizeIPAddress s = Some t" "c \<in> set t"
  shows "is_hex_digit c \<or> c = CHR '':'' \<or> c = CHR ''.''"
  using assms(1)
proof (cases rule: normalize_cases)
  case 1
  with ipv4_chars [of s c] assms(2) show ?thesis by (auto simp: is_digit_def is_hex_digit_def)
next
  case (2 hex)
  with render_chars [OF short_groups_text(1) [OF 2(1)]] assms(2) show ?thesis by blast
qed

lemma address_trim: "normalizeIPAddress s = Some t \<Longrightarrow> trim t = t"
proof -
  assume n: "normalizeIPAddress s = Some t"
  have "\<not> is_space c" if "c \<in> set t" for c
    using address_chars [OF n that] by (auto simp: is_space_def is_hex_digit_def)
  then show ?thesis by (intro trim_id) blast
qed

lemma normal_again:
  assumes "normalizeIPAddress s = Some t"
  shows "normalizeIPAddress t = Some t \<and> isIPAddress t"
  using assms
proof (cases rule: normalize_cases)
  case 2
  then show ?thesis by (simp add: normalize_render isIPAddress_def)
qed (simp add: normalizeIPAddress_def isIPAddress_def)

lemma address_normal: "isIPAddress s \<Longrightarrow> \<exists>t. normalizeIPAddress s = Some t"
  by (cases "isIPv4 s") (auto simp: isIPAddress_def normalize_render, simp add: normalizeIPAddress_def)

text \<open>
  C12: a redirect leaves the database alone and leads to the normal form of the address, and the
  request it leads to is answered with a page: there is never a second redirect.
\<close>

theorem redirect_once:
  assumes "query_get legacy http dohUrl now later request d = (Inr (Redirect ps), d')"
  shows "d' = d \<and> params_get ''ip'' ps = normalizeIPAddress (query_text request)
    \<and> (\<forall>k. k \<noteq> ''ip'' \<longrightarrow> params_get k ps = params_get k (searchParams request))
    \<and> (\<forall>d ps' d'. query_get legacy http dohUrl now later (request\<lparr>searchParams := ps\<rparr>) d \<noteq> (Inr (Redirect ps'), d'))"
proof -
  let ?q = "query_text request"
  let ?n = "or_else (normalizeIPAddress ?q) []"
  have q: "isIPAddress ?q \<and> ?n \<noteq> ?q"
    using assms unfolding query_get_def Let_def
    by (auto simp: andThen_def ret_def split: if_splits prod.splits sum.splits)
  then obtain n where n: "normalizeIPAddress ?q = Some n" using address_normal by blast
  have ps: "ps = params_set ''ip'' n (searchParams request)" "d' = d"
    using assms q n by (simp_all add: query_get_def or_else_def ret_def)
  have get: "params_get k ps = (if k = ''ip'' then Some n else params_get k (searchParams request))" for k
    by (simp add: ps(1) params_get_set)
  have "query_text (request\<lparr>searchParams := ps\<rparr>) = n"
    by (simp add: query_text_def get or_else_def address_trim [OF n])
  then have "query_get legacy http dohUrl now later (request\<lparr>searchParams := ps\<rparr>) d \<noteq> (Inr (Redirect ps'), d')" for d ps' d'
    using normal_again [OF n] unfolding query_get_def Let_def
    by (auto simp: or_else_def andThen_def ret_def split: prod.splits sum.splits)
  with get ps(2) n show ?thesis by simp
qed

theorem redirect_once_witness:
  "\<forall>d ps d'. query_get (\<lambda>_. Invalid_Date) (\<lambda>_. Inl TypeError) ''d'' 0 0
     \<lparr>Authorization = None, CF_IPCountry = None, CF_Connecting_IP = None, searchParams = [(''ip'', ''::1'')]\<rparr> d
     \<noteq> (Inr (Redirect ps), d')"
proof -
  let ?r = "\<lparr>Authorization = None, CF_IPCountry = None, CF_Connecting_IP = None, searchParams = [(''ip'', '' 0:0::1'')]\<rparr>"
  have "query_text ?r = ''0:0::1''" by (simp add: query_text_def params_get_def or_else_def trim_def is_space_def)
  moreover have "isIPAddress ''0:0::1''" by code_simp
  ultimately have "query_get (\<lambda>_. Invalid_Date) (\<lambda>_. Inl TypeError) ''d'' 0 0 ?r d = (Inr (Redirect [(''ip'', ''::1'')]), d)" for d
    by (simp add: query_get_def normalize_eval or_else_def ret_def)
  from redirect_once [OF this] show ?thesis by simp
qed

section \<open>The gate\<close>

text \<open>What a page shows of an address beyond its text.\<close>

definition shows_address :: "query_data \<Rightarrow> bool" where
  "shows_address data \<longleftrightarrow> qd_hasHistory data \<or> qd_ptrHostnames data \<noteq> [] \<or> qd_matched data \<or> qd_status data \<noteq> []"

lemma andThen_Inr:
  "andThen m f d = (Inr y, d') \<longleftrightarrow> (\<exists>x d1. m d = (Inr x, d1) \<and> f x d1 = (Inr y, d'))"
  by (auto simp: andThen_def split: prod.splits sum.splits)


lemma google_page_sample:
  fixes h :: string
  defines "h \<equiv> ''00000000000000000000000008080801''"
  defines "r \<equiv> \<lparr>a_prefix = ''8.8.8.0/24'', a_is_ipv6 = 0, a_range_start = h, a_range_end = h, a_prefix_len = 24,
    a_asn = Some 15169, a_as_name = Some ''GOOGLE'', a_country = None, a_lookup_ok = 1, a_ttl_seconds = 3600,
    a_checked_at = to_iso 0\<rparr>"
  shows "\<exists>data d'. query_get (\<lambda>_. Invalid_Date) (\<lambda>_. Inl TypeError) ''d'' 0 0
      \<lparr>Authorization = None, CF_IPCountry = None, CF_Connecting_IP = None, searchParams = [(''ip'', ''8.8.8.1'')]\<rparr>
      (quiet (empty_db\<lparr>asns := [r], pool := [sample_pool ''8.8.8.1'' 1 3]\<rparr>)) = (Inr (Page data), d') \<and> shows_address data"
proof -
  let ?t = "empty_db\<lparr>asns := [r], pool := [sample_pool ''8.8.8.1'' 1 3]\<rparr>"
  have "covers ''8.8.8.1'' h r" by (simp add: covers_def r_def str_includes_def starts_with_def)
  then have asn: "lookupGoogleASN (\<lambda>_. Invalid_Date) http ''d'' 0 0 ''8.8.8.1'' (quiet ?t)
      = (Inr (\<lparr>ai_asn = 15169, ai_asName = ''GOOGLE'', ai_prefix = ''8.8.8.0/24'', ai_country = []\<rparr>, True), quiet ?t)" for http
    using prefix_eval(3)
    by (simp add: lookupGoogleASN_def getASN_def h_def [symmetric] order_by_def d1_defs)
      (simp add: r_def or_else_def stored_date ret_def)
  have google: "isGoogleASN \<lparr>ai_asn = 15169, ai_asName = ''GOOGLE'', ai_prefix = ''8.8.8.0/24'', ai_country = []\<rparr>"
    by code_simp
  have address: "isIPAddress ''8.8.8.1''" "normalizeIPAddress ''8.8.8.1'' = Some ''8.8.8.1''"
    "reverseName ''8.8.8.1'' = Inr ''1.8.8.8.in-addr.arpa''" by code_simp+
  have "lookupPTR (\<lambda>_. Inl TypeError) ''8.8.8.1'' ''d'' = Inl TypeError"
    by (simp add: lookupPTR_def address(3) queryDoH_def)
  then have "\<exists>data. lookupIPQuery (\<lambda>_. Invalid_Date) (\<lambda>_. Inl TypeError) ''d'' 0 0 ''8.8.8.1'' x (quiet ?t)
      = (Inr data, quiet ?t) \<and> shows_address data" for x
    by (simp add: lookupIPQuery_def getPTR_def resolveAndCachePTR_def ipStatusFor_def d1_defs catching_def
        empty_db_def find_row_def sample_pool_def shows_address_def Let_def)
  then obtain data where data: "lookupIPQuery (\<lambda>_. Invalid_Date) (\<lambda>_. Inl TypeError) ''d'' 0 0 ''8.8.8.1''
      ((emptyData ''8.8.8.1'')\<lparr>qd_canProbe := False, qd_submitted := True\<rparr>) (quiet ?t) = (Inr data, quiet ?t)"
    "shows_address data" by blast
  have q: "query_text \<lparr>Authorization = None, CF_IPCountry = None, CF_Connecting_IP = None,
      searchParams = [(''ip'', ''8.8.8.1'')]\<rparr> = ''8.8.8.1''"
    by (simp add: query_text_def params_get_def or_else_def trim_def is_space_def)
  have "query_get (\<lambda>_. Invalid_Date) (\<lambda>_. Inl TypeError) ''d'' 0 0
      \<lparr>Authorization = None, CF_IPCountry = None, CF_Connecting_IP = None, searchParams = [(''ip'', ''8.8.8.1'')]\<rparr>
      (quiet ?t) = (Inr (Page data), quiet ?t)"
    by (simp add: query_get_def q address(1,2) or_else_def underQueryRateLimit_def ip_page_def clientCountry_def
        catching_def andThen_def ret_def asn google data(1) Let_def)
  with data(2) show ?thesis by blast
qed


section \<open>A page is always answered\<close>

text \<open>Alone and without database faults a computation ends alone, or also with a result.\<close>

definition calm :: "(tables, 'a) prog \<Rightarrow> bool" where
  "calm m \<longleftrightarrow> (\<forall>t. \<exists>r u. m (quiet t) = (r, quiet u))"

definition answers :: "(tables, 'a) prog \<Rightarrow> bool" where
  "answers m \<longleftrightarrow> (\<forall>t. \<exists>x u. m (quiet t) = (Inr x, quiet u))"

lemma answers_calm: "answers m \<Longrightarrow> calm m"
  unfolding answers_def calm_def by blast

lemma answers_ret: "answers (ret x)"
  unfolding answers_def ret_def by blast

lemma answers_query: "answers (query q)"
  unfolding answers_def query_quiet by blast

lemma answers_bind: "answers m \<Longrightarrow> (\<And>x. answers (f x)) \<Longrightarrow> answers (andThen m f)"
proof -
  assume m: "answers m" and f: "\<And>x. answers (f x)"
  show "answers (andThen m f)"
    unfolding answers_def
  proof
    fix t
    from m obtain x u where x: "m (quiet t) = (Inr x, quiet u)" unfolding answers_def by blast
    then show "\<exists>y u. andThen m f (quiet t) = (Inr y, quiet u)"
      using f [of x] unfolding answers_def by (simp add: andThen_def)
  qed
qed

lemma calm_lift: "calm (lift r)"
  unfolding calm_def lift_def by blast

lemma calm_batch: "calm (batch ss)"
  unfolding calm_def batch_def exec_quiet by blast

lemma calm_bind: "calm m \<Longrightarrow> (\<And>x. calm (f x)) \<Longrightarrow> calm (andThen m f)"
proof -
  assume m: "calm m" and f: "\<And>x. calm (f x)"
  show "calm (andThen m f)"
    unfolding calm_def
  proof
    fix t
    from m obtain r u where r: "m (quiet t) = (r, quiet u)" unfolding calm_def by blast
    then show "\<exists>r u. andThen m f (quiet t) = (r, quiet u)"
      using f unfolding calm_def by (cases r) (auto simp: andThen_def)
  qed
qed

lemma answers_catching: "calm m \<Longrightarrow> (\<And>e. answers (h e)) \<Longrightarrow> answers (catching m h)"
proof -
  assume m: "calm m" and h: "\<And>e. answers (h e)"
  show "answers (catching m h)"
    unfolding answers_def
  proof
    fix t
    from m obtain r u where r: "m (quiet t) = (r, quiet u)" unfolding calm_def by blast
    then show "\<exists>x u. catching m h (quiet t) = (Inr x, quiet u)"
      using h unfolding answers_def by (cases r) (auto simp: catching_def)
  qed
qed

lemma answers_ignoring: "calm m \<Longrightarrow> answers (catching m (\<lambda>_. ret x))"
  by (intro answers_catching answers_ret)

lemmas calm_ret = answers_calm [OF answers_ret]
  and calm_query = answers_calm [OF answers_query]
  and calm_ignoring = answers_calm [OF answers_ignoring]

lemma calm_savePTR: "calm (savePTR e)"
  unfolding savePTR_def by (intro calm_bind calm_lift calm_batch)

lemma calm_saveHost: "calm (saveHost e)"
  unfolding saveHost_def by (intro calm_bind calm_lift calm_batch)

lemma calm_saveASN: "calm (saveASN e)"
  unfolding saveASN_def by (auto intro!: calm_bind calm_lift calm_batch calm_ret split: option.split)

lemma calm_read:
  "calm (getPTR legacy now ip)" "calm (getHost legacy now h)" "calm (getASN legacy now ip)"
  unfolding getPTR_def getHost_def getASN_def
  by (auto intro!: calm_bind calm_lift calm_query calm_ret split: option.split list.split)

lemma calm_checkRateLimit: "calm (checkRateLimit now kind client limit windowMs)"
  unfolding checkRateLimit_def
  by (auto intro!: calm_bind calm_lift calm_batch calm_query calm_ret)

lemma calm_live:
  "calm (resolveAndCachePTR http dohUrl later ip)" "calm (resolveAndCacheHost http dohUrl later h)"
  "calm (lookupGoogleASN legacy http dohUrl now later ip)"
  unfolding resolveAndCachePTR_def resolveAndCacheHost_def lookupGoogleASN_def
  by (auto intro!: calm_bind calm_lift calm_read calm_ignoring calm_ret
      calm_savePTR calm_saveHost calm_saveASN split: option.split)

lemma answers_ipStatusFor: "answers (ipStatusFor legacy ip)"
  unfolding ipStatusFor_def by (intro answers_bind answers_query answers_ret)

lemma answers_addr_statuses: "answers (addr_statuses legacy as)"
  by (induction as) (auto simp: statusForIP_def intro!: answers_bind answers_ipStatusFor answers_ret)

lemma answers_resolveHostnameForm: "answers (resolveHostnameForm legacy http dohUrl now later h)"
  unfolding resolveHostnameForm_def
  by (auto intro!: answers_bind answers_ignoring calm_bind calm_read calm_live calm_ret
      answers_addr_statuses answers_ret split: option.split)

lemma answers_lookupIPQuery: "answers (lookupIPQuery legacy http dohUrl now later ip data)"
  unfolding lookupIPQuery_def Let_def
  by (auto intro!: answers_bind answers_ignoring calm_bind calm_read calm_live calm_ret
      answers_ipStatusFor answers_ret split: option.split)

text \<open>
  C11: as long as the database answers, every request gets its page, whatever the resolvers do
  and whatever the caches hold: failed lookups, unreadable cache rows and refused writes are
  absorbed on the way.
\<close>

theorem query_always_answers:
  "\<exists>page u. query_get legacy http dohUrl now later request (quiet t) = (Inr page, quiet u)"
proof -
  have "answers (underQueryRateLimit now request)"
    unfolding underQueryRateLimit_def Let_def by (auto intro!: answers_ignoring calm_checkRateLimit answers_ret)
  moreover have "answers (ip_page legacy http dohUrl now later q data)" for q data
    unfolding ip_page_def
    by (auto intro!: answers_bind answers_ignoring calm_bind calm_live calm_ret
        answers_lookupIPQuery answers_ret split: option.split)
  moreover have "answers (lookupHostnameQuery legacy http dohUrl now later q data)" for q data
    unfolding lookupHostnameQuery_def Let_def
    by (auto intro!: answers_bind answers_resolveHostnameForm answers_ret split: option.split)
  ultimately have "answers (query_get legacy http dohUrl now later request)"
    unfolding query_get_def Let_def by (auto intro!: answers_bind answers_ret)
  then show ?thesis unfolding answers_def by blast
qed

section \<open>The invariant\<close>

text \<open>
  C7: whatever other requests commit in between and whichever D1 calls fail, every endpoint
  that writes, its background work, the query page and its lookups keep the invariant of the
  database.
\<close>

theorem handlers_keep_invariant:
  assumes "\<forall>turn \<in> set (script d). \<forall>t. db_steps t (others turn t)" "db_ok (store d)"
  shows "db_ok (store (snd (ingest_post token message legacy now request b d)))
    \<and> db_ok (store (snd (result_post token legacy request r d)))
    \<and> db_ok (store (snd (check_post legacy http dohUrl probe now later checkedAt request d)))
    \<and> db_ok (store (snd (query_get legacy http dohUrl now later request d)))
    \<and> db_ok (store (snd (prune_job ips d))) \<and> db_ok (store (snd (runPTRRefresh socket now later d)))
    \<and> db_ok (store (snd (resolveAndCachePTR http dohUrl later ip d)))
    \<and> db_ok (store (snd (resolveAndCacheHost http dohUrl later ip d)))"
proof -
  have legit: "db.legit d" using assms(1) by (simp add: db.legit_def)
  show ?thesis using legit assms(2) by (intro conjI)
    (auto intro!: pool.steps_inv [OF db.stays_run [OF _ legit]] stays_ingest_post stays_result_post stays_check_post stays_query_get
       stays_runPTRRefresh stays_resolveAndCachePTR stays_resolveAndCacheHost stays_pruneCheckHistory
       simp: prune_job_def)
qed

theorem handlers_keep_invariant_witness:
  "db_ok (store (snd (ingest_post ''t'' (\<lambda>_. []) (\<lambda>_. Invalid_Date) 0
     \<lparr>Authorization = Some ''Bearer t'', CF_IPCountry = None, CF_Connecting_IP = None, searchParams = []\<rparr>
     (Json \<lparr>ib_checks = Some [\<lparr>wc_IP = Some ''8.8.8.8'', wc_OK = True, wc_RTTMs = 5, wc_Reason = [],
        wc_Detail = [], wc_CheckedAt = ''2026-01-01T00:00:00Z'', wc_ScanMode = ''SNI''\<rparr>],
        ib_maintenance = None, ib_pruneIPs = PruneIPs []\<rparr>)
     \<lparr>store = empty_db, script = [\<lparr>others = run_batch [BumpRevision], fate = Lost\<rparr>]\<rparr>)))"
proof -
  let ?d = "\<lparr>store = empty_db, script = [\<lparr>others = run_batch [BumpRevision], fate = Lost\<rparr>]\<rparr>"
  have "db_step t (run_batch (BumpRevision # []) t)" for t by (rule db_step.pool_batch) simp
  then have "\<forall>turn \<in> set (script ?d). \<forall>t. db_steps t (others turn t)" by auto
  moreover have "db_ok (store ?d)" by (simp add: db_ok_parts empty_db_def)
  ultimately show ?thesis by (rule handlers_keep_invariant [THEN conjunct1])
qed

section \<open>The description of an anycast name\<close>

text \<open>
  An anycast name has the city Anycast and no country, so its description ends in a comma, a
  space and the full stop.
\<close>

lemma anycast_description:
  assumes "qd_submitted data" "qd_error data = []" "qd_queryIsHostname data" "qd_matched data"
    "qd_city data = ''Anycast''" "qd_country data = []"
  shows "queryDescription data = qd_query data @ '': 1e100.net hostname, estimated location Anycast, .''"
  using assms by (simp add: queryDescription_def)

end
