(* ===== verification/Pages.thy ===== *)
theory Pages
  imports QueryPage Html
begin

text \<open>
  The pages as text: the frame of src/src/html.ts, the tables of src/functions/index.ts and
  the results of src/functions/query.ts, with the handler of the home page. A definition per
  template, with one line of it per line of the template.
\<close>

abbreviation nl :: string where
  "nl \<equiv> [CHR 0x0A]"

section \<open>The frame\<close>

text \<open>The options; None is an option that is left out.\<close>

record page_opts =
  pg_title :: string
  pg_body :: string
  pg_extraHead :: "string option"
  pg_lang :: "string option"
  pg_description :: "string option"

text \<open>
  The quick links, home and query. The Chinese ones, \<open>NAV_ZH\<close>, consist of characters outside of
  the type of characters and are an argument.
\<close>

definition NAV_EN :: "string \<times> string" where
  "NAV_EN = (''Home'', ''Query'')"

definition DEFAULT_DESCRIPTION :: string where
  "DEFAULT_DESCRIPTION = ''Community-maintained database of Google Web Server (GWS) IPs reachable from China, with PTR/ASN lookups, on-demand probes, and check history.''"

definition pageShell :: "string \<times> string \<Rightarrow> build_info \<Rightarrow> page_opts \<Rightarrow> string" where
  "pageShell NAV_ZH build opts =
     (let lang = or_else (pg_lang opts) ''en'';
          nav = (if lang = ''zh'' then NAV_ZH else NAV_EN);
          description = or_else (pg_description opts) DEFAULT_DESCRIPTION;
          fullTitle = escapeHTML (pg_title opts) @ '' - GWS Database'' in
     ''<!DOCTYPE html>'' @ nl @
     ''<html lang=\"'' @ lang @ ''\">'' @ nl @
     ''<head>'' @ nl @
     ''<meta http-equiv=\"Content-Type\" content=\"text/html; charset=UTF-8\">'' @ nl @
     ''<meta name=\"viewport\" content=\"width=device-width, initial-scale=1\">'' @ nl @
     ''<meta name=\"description\" content=\"'' @ escapeHTML description @ ''\">'' @ nl @
     ''<meta property=\"og:title\" content=\"'' @ fullTitle @ ''\">'' @ nl @
     ''<meta property=\"og:description\" content=\"'' @ escapeHTML description @ ''\">'' @ nl @
     ''<meta property=\"og:type\" content=\"website\">'' @ nl @
     or_else (pg_extraHead opts) [] @ nl @
     ''<title>'' @ fullTitle @ ''</title>'' @ nl @
     ''<link rel=\"stylesheet\" href=\"/static/gwsdb.css\">'' @ nl @
     ''</head>'' @ nl @
     ''<body bgcolor=\"#FFFFFF\" text=\"#000000\" link=\"#0000EE\" vlink=\"#551A8B\">'' @ nl @
     ''<div class=\"gwsdb-wrap\">'' @ nl @
     ''<header class=\"gwsdb-title\"><b>GWS Database</b></header>'' @ nl @
     ''<div class=\"gwsdb-main\">'' @ nl @
     ''<nav class=\"gwsdb-sidebar\" aria-label=\"Quick Links\">'' @ nl @
     ''<div class=\"gwsdb-menu-header\">Quick Links</div>'' @ nl @
     ''<ul>'' @ nl @
     ''<li><a href=\"/\">'' @ fst nav @ ''</a></li>'' @ nl @
     ''<li><a href=\"/query\">'' @ snd nav @ ''</a></li>'' @ nl @
     ''</ul>'' @ nl @
     ''</nav>'' @ nl @
     ''<main class=\"gwsdb-content\">'' @ nl @
     ''<font face=\"Arial,Helvetica,sans-serif\" size=\"-1\">'' @ nl @
     pg_body opts @ nl @
     ''</font>'' @ nl @
     ''</main>'' @ nl @
     ''</div>'' @ nl @
     ''<footer class=\"gwsdb-footer\">'' @ nl @
     footerHTML build @ nl @
     ''</footer>'' @ nl @
     ''</div>'' @ nl @
     ''</body>'' @ nl @
     ''</html>'' @ nl)"

section \<open>The home page\<close>

definition DEFAULT_HOME_DESCRIPTION :: string where
  "DEFAULT_HOME_DESCRIPTION = ''Live-updated list of known Google Web Server (GWS) IPs reachable from China, with PTR, country, and reachability status.''"

record sort_column =
  sc_param :: string
  sc_dbKey :: string
  sc_label :: string
  sc_defaultDesc :: bool

definition sortColumns :: "sort_column list" where
  "sortColumns =
     [\<lparr>sc_param = ''ip'', sc_dbKey = ''ip'', sc_label = ''IP Address'', sc_defaultDesc = False\<rparr>,
      \<lparr>sc_param = ''ptr'', sc_dbKey = ''ptr'', sc_label = ''PTR'', sc_defaultDesc = False\<rparr>,
      \<lparr>sc_param = ''country'', sc_dbKey = ''country'', sc_label = ''Country'', sc_defaultDesc = False\<rparr>,
      \<lparr>sc_param = ''firstSeen'', sc_dbKey = ''first_seen'', sc_label = ''First Seen'', sc_defaultDesc = True\<rparr>,
      \<lparr>sc_param = ''lastSeen'', sc_dbKey = ''last_seen'', sc_label = ''Last Reachable'', sc_defaultDesc = True\<rparr>,
      \<lparr>sc_param = ''rtt'', sc_dbKey = ''rtt'', sc_label = ''Last RTT'', sc_defaultDesc = True\<rparr>]"

text \<open>
  \<open>URLSearchParams\<close> as text: bytes that are no letter, digit or one of \<open>*-._\<close> are written as
  percent codes, a space as a plus sign.
\<close>

definition form_char :: "char \<Rightarrow> string" where
  "form_char c =
     (let n = of_char c :: nat in
      if (65 \<le> n \<and> n \<le> 90) \<or> (97 \<le> n \<and> n \<le> 122) \<or> (48 \<le> n \<and> n \<le> 57) \<or> c \<in> set ''*-._'' then [c]
      else if n = 32 then ''+''
      else if n < 128 then percent n
      else percent (192 + n div 64) @ percent (128 + n mod 64))"

definition form_text :: "params \<Rightarrow> string" where
  "form_text ps = join ''&'' (map (\<lambda>(k, v). concat (map form_char k) @ ''='' @ concat (map form_char v)) ps)"

text \<open>A value None deletes the parameter. The path of the page is \<open>/\<close>.\<close>

definition withParams :: "params \<Rightarrow> (string \<times> string option) list \<Rightarrow> string" where
  "withParams url overrides =
     ''/?'' @ form_text (foldl (\<lambda>ps (k, v). case v of
        None \<Rightarrow> filter (\<lambda>p. fst p \<noteq> k) ps | Some x \<Rightarrow> params_set k x ps) (params_set ''nojs'' ''1'' url) overrides)"

definition home_statusHTML :: "string \<Rightarrow> string" where
  "home_statusHTML st =
     (if st = ''Reachable'' then
         ''<font color=\"#008000\" title=\"Reachable\" aria-label=\"Reachable\">&#x2713;</font>''
      else if st = ''Unreachable'' then
         ''<font color=\"#CC0000\" title=\"Unreachable\" aria-label=\"Unreachable\">&#x2717;</font>''
      else [])"

text \<open>A host name with a link to its query page.\<close>

definition host_link :: "string \<Rightarrow> string" where
  "host_link h = ''<a href=\"/query?ip='' @ encodeURIComponent h @ ''\">'' @ escapeHTML h @ ''</a>''"

definition ptrCellHTML :: "string list \<Rightarrow> string" where
  "ptrCellHTML ptrList =
     (if ptrList = [] then ''-''
      else ''<tt>'' @ join ''<br>'' (map host_link ptrList)
        @ ''</tt>'')"

definition countryCellHTML :: "ip_row \<Rightarrow> string" where
  "countryCellHTML row =
     (if w_countryCode row \<noteq> [] then
         ''<img src=\"/static/flags/'' @ encodeURIComponent (w_countryCode row) @ ''.gif\" alt=\"'' @
           escapeHTML (w_countryCode row) @ ''\" title=\"'' @ escapeHTML (w_country row) @
           ''\" height=\"11\"> ''
      else [])
     @ (if escapeHTML (w_country row) \<noteq> [] then escapeHTML (w_country row) else ''-'')"

definition family_option :: "params \<Rightarrow> string \<Rightarrow> string option \<Rightarrow> bool \<Rightarrow> string" where
  "family_option url label value active =
     (if active then ''<b>'' @ escapeHTML label @ ''</b>''
      else ''<a href=\"'' @ escapeHTML (withParams url [(''family'', value)]) @ ''\">'' @ escapeHTML label @ ''</a>'')"

definition familyFilterHTML :: "params \<Rightarrow> int option \<Rightarrow> string" where
  "familyFilterHTML url family =
     ''<p>Family: '' @ family_option url ''All'' None (family = None) @ '' | ''
     @ family_option url ''IPv4 only'' (Some ''4'') (family = Some 4) @ '' | ''
     @ family_option url ''IPv6 only'' (Some ''6'') (family = Some 6) @ ''</p>''"

text \<open>The three states of a header: default direction, the other one, no sorting.\<close>

definition sort_overrides :: "string option \<Rightarrow> bool \<Rightarrow> sort_column \<Rightarrow> (string \<times> string option) list" where
  "sort_overrides activeSort activeDesc col =
     (let flag = (\<lambda>b. if b then ''1'' else ''0'') in
      if activeSort \<noteq> Some (sc_param col)
      then [(''sort'', Some (sc_param col)), (''desc'', Some (flag (sc_defaultDesc col)))]
      else if activeDesc = sc_defaultDesc col
      then [(''sort'', Some (sc_param col)), (''desc'', Some (flag (\<not> activeDesc)))]
      else [(''sort'', None)])"

definition sort_arrow :: "bool \<Rightarrow> bool \<Rightarrow> string" where
  "sort_arrow isActive activeDesc =
     (if isActive then (if activeDesc then ''&nbsp;&nbsp;&#8595;'' else ''&nbsp;&nbsp;&#8593;'')
      else ''&nbsp;&nbsp;&nbsp;'')"

definition sortHeaderHTML :: "params \<Rightarrow> string option \<Rightarrow> bool \<Rightarrow> string" where
  "sortHeaderHTML url activeSort activeDesc =
     ''<thead><tr>'' @ nl @ join nl (map (\<lambda>col.
         ''<th scope=\"col\"><a href=\"'' @
           escapeHTML (withParams url (sort_overrides activeSort activeDesc col)) @ ''\">'' @
           escapeHTML (sc_label col) @ ''<span class=\"arrow\">'' @
           sort_arrow (activeSort = Some (sc_param col)) activeDesc @ ''</span></a></th>'') sortColumns)
     @ nl @ ''</tr></thead>''"

definition home_row :: "ip_row \<Rightarrow> string" where
  "home_row row =
     ''<tr'' @ (if w_status row = ''Unreachable'' then '' class=\"gwsdb-unreachable\"'' else []) @
       ''>'' @ nl @
     ''<td>'' @
       (if w_status row = ''Reachable'' \<or> w_status row = ''Unreachable'' then ''<span class=\"gwsdb-row-status\">'' @ home_statusHTML (w_status row) @ ''</span>'' else []) @
       ''<tt><a href=\"/query?ip='' @ encodeURIComponent (w_ip row) @ ''\">'' @ escapeHTML (w_ip row) @
       ''</a></tt></td>'' @ nl @
     ''<td>'' @ ptrCellHTML (w_ptrList row) @ ''</td>'' @ nl @
     ''<td>'' @ countryCellHTML row @ ''</td>'' @ nl @
     ''<td>'' @ escapeHTML (w_firstSeen row) @ ''</td>'' @ nl @
     ''<td>'' @ escapeHTML (w_lastSeen row) @ ''</td>'' @ nl @
     ''<td>'' @ (if w_lastRttMs row \<noteq> 0 then int_text (w_lastRttMs row) @ '' ms'' else ''-'') @
       ''</td>'' @ nl @
     ''</tr>''"

definition home_table :: "params \<Rightarrow> ip_row list \<Rightarrow> string option \<Rightarrow> bool \<Rightarrow> string" where
  "home_table url ips activeSort activeDesc =
     (if ips \<noteq> [] then
         ''<div class=\"gwsdb-scroll\">'' @ nl @
         ''<table class=\"gwsdb-data gwsdb-pool\">'' @ nl @
         sortHeaderHTML url activeSort activeDesc @ nl @
         ''<tbody>'' @ nl @
         join nl (map home_row ips) @ nl @
         ''</tbody>'' @ nl @
         ''</table>'' @ nl @
         ''</div>''
      else ''<p><i>No data yet. Please run a scan and import the results first.</i></p>'')"

definition renderFullTable ::
  "params \<Rightarrow> ip_row list \<Rightarrow> stats \<Rightarrow> string \<Rightarrow> string option \<Rightarrow> bool \<Rightarrow> int option \<Rightarrow> string" where
  "renderFullTable url ips stats scanMode activeSort activeDesc family =
     ''<p>The table below lists tracked Google Web Server (GWS) IP addresses and their reachability status.</p>'' @ nl @
     familyFilterHTML url family @ nl @
     home_table url ips activeSort activeDesc @ nl @
     ''<hr>'' @ nl @
     ''<table border=\"0\" cellpadding=\"2\" cellspacing=\"0\">'' @ nl @
     ''<tr><td colspan=\"2\"><b>Statistics</b></td></tr>'' @ nl @
     ''<tr><td>Total Known IPs</td><td>'' @ int_text (totalKnownIPs stats) @ ''</td></tr>'' @ nl @
     ''<tr><td>Total Checks</td><td>'' @ int_text (totalChecks stats) @ ''</td></tr>'' @ nl @
     ''<tr><td>Last Check</td><td>'' @ escapeHTML (formatTime (lastCheckAt stats)) @
       (if scanMode \<noteq> [] then '' ('' @ escapeHTML scanMode @ '')'' else []) @ ''</td></tr>'' @ nl @
     ''</table>''"

definition jsShellBody :: "string \<Rightarrow> string" where
  "jsShellBody buildRev =
     ''<p>The table below lists tracked Google Web Server (GWS) IP addresses and their reachability status.</p>'' @ nl @
     nl @
     ''<noscript><p><i>This page needs JavaScript to fetch and render the IP list client-side. You should have been redirected automatically -- if not, <a href=\"/?nojs=1\">click here for the full list</a>.</i></p></noscript>'' @ nl @
     nl @
     ''<p id=\"poolStatus\">Loading&hellip;</p>'' @ nl @
     nl @
     ''<p>'' @ nl @
     ''<span id=\"visibleCount\">0</span> / <span id=\"familyCount\">0</span> match filter'' @ nl @
     ''</p>'' @ nl @
     nl @
     ''<p class=\"gwsdb-filters\">'' @ nl @
     ''<span class=\"gwsdb-search-filter\">'' @ nl @
     ''<input type=\"text\" id=\"searchInput\" placeholder=\"Search IP, PTR or country\" size=\"30\">'' @ nl @
     ''<input type=\"button\" id=\"clearButton\" value=\"Clear\">'' @ nl @
     ''</span>'' @ nl @
     ''</p>'' @ nl @
     nl @
     ''<div class=\"gwsdb-family-tabs\" role=\"group\" aria-label=\"IP address family\">'' @ nl @
     ''<input type=\"radio\" id=\"family4\" name=\"family\" value=\"4\" checked>'' @ nl @
     ''<label for=\"family4\">IPv4</label>'' @ nl @
     ''<input type=\"radio\" id=\"family6\" name=\"family\" value=\"6\">'' @ nl @
     ''<label for=\"family6\">IPv6</label>'' @ nl @
     ''</div>'' @ nl @
     ''<div class=\"gwsdb-scroll gwsdb-tab-panel gwsdb-hidden\" id=\"ipTableWrap\">'' @ nl @
     ''<table class=\"gwsdb-data gwsdb-pool\" id=\"ipTable\">'' @ nl @
     ''<thead><tr>'' @ nl @
     ''<th scope=\"col\"><a href=\"#\" data-sort=\"ip\" data-sort-desc=\"0\">IP Address<span class=\"arrow\" data-col=\"ip\">&nbsp;&nbsp;&nbsp;</span></a></th>'' @ nl @
     ''<th scope=\"col\"><a href=\"#\" data-sort=\"ptr\" data-sort-desc=\"0\">PTR<span class=\"arrow\" data-col=\"ptr\">&nbsp;&nbsp;&nbsp;</span></a></th>'' @ nl @
     ''<th scope=\"col\"><a href=\"#\" data-sort=\"country\" data-sort-desc=\"0\">Country<span class=\"arrow\" data-col=\"country\">&nbsp;&nbsp;&nbsp;</span></a></th>'' @ nl @
     ''<th scope=\"col\"><a href=\"#\" data-sort=\"firstSeen\" data-sort-desc=\"1\">First Seen<span class=\"arrow\" data-col=\"firstSeen\">&nbsp;&nbsp;&nbsp;</span></a></th>'' @ nl @
     ''<th scope=\"col\"><a href=\"#\" data-sort=\"lastSeen\" data-sort-desc=\"1\">Last Reachable<span class=\"arrow\" data-col=\"lastSeen\">&nbsp;&nbsp;&nbsp;</span></a></th>'' @ nl @
     ''<th scope=\"col\"><a href=\"#\" data-sort=\"rtt\" data-sort-desc=\"1\">Last RTT<span class=\"arrow\" data-col=\"rtt\">&nbsp;&nbsp;&nbsp;</span></a></th>'' @ nl @
     ''</tr></thead>'' @ nl @
     ''<tbody id=\"ipTableBody\">'' @ nl @
     ''</tbody>'' @ nl @
     ''</table>'' @ nl @
     ''</div>'' @ nl @
     ''<p align=\"center\" id=\"pagerWrap\" class=\"gwsdb-pager gwsdb-hidden\">'' @ nl @
     ''<button type=\"button\" id=\"prevButton\" class=\"gwsdb-pager-arrow\">&lt;-</button>'' @ nl @
     ''<span id=\"pageInfo\"></span>'' @ nl @
     ''<button type=\"button\" id=\"nextButton\" class=\"gwsdb-pager-arrow\">-&gt;</button>'' @ nl @
     ''</p>'' @ nl @
     ''<script type=\"module\" src=\"/static/home.js'' @
       (if buildRev \<noteq> [] then ''?v='' @ buildRev else []) @ ''\"></script>'' @ nl @
     nl @
     ''<hr>'' @ nl @
     ''<table border=\"0\" cellpadding=\"2\" cellspacing=\"0\">'' @ nl @
     ''<tr><td colspan=\"2\"><b>Statistics</b></td></tr>'' @ nl @
     ''<tr><td>Total Known IPs</td><td id=\"totalKnownIPs\">-</td></tr>'' @ nl @
     ''<tr><td>Total Checks</td><td id=\"totalChecks\">-</td></tr>'' @ nl @
     ''<tr><td>Last Check</td><td id=\"lastCheck\">-</td></tr>'' @ nl @
     ''</table>''"

definition nojsRefresh :: string where
  "nojsRefresh =
     ''<noscript><meta http-equiv=\"refresh\" content=\"0;url=/?nojs=1\"></noscript>''"

definition home_shell :: "string \<times> string \<Rightarrow> build_info \<Rightarrow> string \<Rightarrow> string option \<Rightarrow> string" where
  "home_shell NAV_ZH build content extraHead =
     pageShell NAV_ZH build \<lparr>pg_title = ''Home'', pg_body = content, pg_extraHead = extraHead, pg_lang = None,
       pg_description = Some DEFAULT_HOME_DESCRIPTION\<rparr>"

text \<open>
  The handler. Pages are kept in the edge cache under the exact parameters and the version of
  the pool; the reply carries its Cache-Control header.
\<close>

definition chosen_column :: "params \<Rightarrow> sort_column option" where
  "chosen_column ps = (case params_get ''sort'' ps of
     None \<Rightarrow> None | Some p \<Rightarrow> find (\<lambda>c. sc_param c = p) sortColumns)"

definition sort_desc :: "params \<Rightarrow> bool" where
  "sort_desc ps = (case chosen_column ps of
     None \<Rightarrow> True
   | Some c \<Rightarrow> (case params_get ''desc'' ps of None \<Rightarrow> sc_defaultDesc c | Some d \<Rightarrow> d = ''1''))"

definition home_get ::
  "string \<times> string \<Rightarrow> (string \<Rightarrow> js_date) \<Rightarrow> (params \<Rightarrow> string option) \<Rightarrow> (int \<times> int) option \<Rightarrow> string option \<Rightarrow> string \<Rightarrow> params
    \<Rightarrow> (tables, string reply \<times> (params \<times> string) option) prog" where
  "home_get NAV_ZH legacy edge hit commitSha ua ps =
     (let build = buildInfoFromEnv commitSha in
      if \<not> (isCrawlerUA ua \<or> params_get ''nojs'' ps = Some ''1'')
      then ret (\<lparr>status = 200, cacheControl = None, body = home_shell NAV_ZH build (jsShellBody (b_revision build)) (Some nojsRefresh)\<rparr>, None)
      else
        let activeSort = map_option sc_param (chosen_column ps); family = family_param ps
        in andThen poolVersion (\<lambda>version.
           let cacheKey = params_set ''v'' (int_text version) ps in
           case edge cacheKey of
             Some html \<Rightarrow> ret (fresh 200 html, None)
           | None \<Rightarrow>
               andThen (loadPool legacy hit \<lparr>lo_sortBy = map_option sc_dbKey (chosen_column ps),
                   lo_sortDesc = Some (sort_desc ps), lo_family = family\<rparr>) (\<lambda>d.
               let html = home_shell NAV_ZH build (renderFullTable ps (d_ips d) (d_stats d) (d_scanMode d) activeSort (sort_desc ps) family) None
               in ret (fresh 200 html, Some (cacheKey, html)))))"

section \<open>The query page\<close>

definition query_statusHTML :: "string \<Rightarrow> string \<Rightarrow> string \<Rightarrow> string" where
  "query_statusHTML st reachableLabel unreachableLabel =
     (if st = ''Reachable'' then ''<font color=\"#008000\">&#x2713; '' @ reachableLabel @ ''</font>''
      else if st = ''Unreachable'' then ''<font color=\"#CC0000\">&#x2717; '' @ unreachableLabel @ ''</font>''
      else ''-'')"

definition addr_cell :: "hostname_form \<Rightarrow> addr_status list \<Rightarrow> string" where
  "addr_cell form addrs =
     (if addrs \<noteq> [] then concat (map (\<lambda>a.
         ''<tt><a href=\"/query?ip='' @ encodeURIComponent (as_addr a) @ ''\">'' @
           escapeHTML (as_addr a) @ ''</a></tt> '' @ query_statusHTML (as_status a) [] [] @ ''<br>'') addrs)
      else if hf_failed form then ''<i>lookup failed</i>'' else ''<i>none</i>'')"

definition location_cell :: "query_data \<Rightarrow> string" where
  "location_cell data =
     (if qd_country data \<noteq> []
      then (if qd_city data \<noteq> [] then escapeHTML (qd_city data) @ '', '' @ escapeHTML (qd_country data)
            else escapeHTML (qd_country data))
      else ''<i>Airport code not in database, cannot estimate</i>'')"

definition form_row :: "hostname_form \<Rightarrow> string" where
  "form_row form =
     ''<tr>'' @ nl @
     ''<td><tt><a href=\"/query?ip='' @ encodeURIComponent (hf_hostname form) @ ''\">'' @
       escapeHTML (hf_hostname form) @ ''</a></tt></td>'' @ nl @
     ''<td>'' @ addr_cell form (hf_ipv4 form) @ ''</td>'' @ nl @
     ''<td>'' @ addr_cell form (hf_ipv6 form) @ ''</td>'' @ nl @
     ''</tr>''"

definition host_location :: "query_data \<Rightarrow> string" where
  "host_location data =
     ''<tr>'' @ nl @
     ''<td>Airport Code</td>'' @ nl @
     ''<td colspan=\"2\"><tt>'' @ escapeHTML (qd_airportCode data) @ ''</tt></td>'' @ nl @
     ''</tr>'' @ nl @
     ''<tr>'' @ nl @
     ''<td>Estimated Location</td>'' @ nl @
     ''<td colspan=\"2\">'' @ location_cell data @ ''</td>'' @ nl @
     ''</tr>''"

definition host_no_location :: string where
  "host_no_location =
     ''<tr>'' @ nl @
     ''<td colspan=\"3\"><i>This does not match the known 1e100.net naming convention, cannot estimate a location</i></td>'' @ nl @
     ''</tr>''"

definition renderHostnameBranch :: "query_data \<Rightarrow> string" where
  "renderHostnameBranch data =
     ''<div class=\"gwsdb-scroll\">'' @ nl @
     ''<table class=\"gwsdb-data\">'' @ nl @
     ''<thead>'' @ nl @
     ''<tr><th colspan=\"3\">Query Result: '' @ escapeHTML (qd_query data) @ ''</th></tr>'' @ nl @
     ''<tr><th scope=\"col\">Hostname</th><th scope=\"col\">A (IPv4)</th><th scope=\"col\">AAAA (IPv6)</th></tr>'' @ nl @
     ''</thead>'' @ nl @
     ''<tbody>'' @ nl @
     join nl (map form_row (qd_hostnameForms data)) @ nl @
     (if qd_matched data then host_location data else host_no_location) @ nl @
     ''</tbody>'' @ nl @
     ''</table>'' @ nl @
     ''</div>''"

definition ptr_cell :: "query_data \<Rightarrow> string" where
  "ptr_cell data =
     (if qd_ptrHostnames data \<noteq> []
      then ''<tt>'' @ join ''<br>'' (map host_link
        (qd_ptrHostnames data)) @ ''</tt>''
      else if qd_ptrFailed data
      then ''<i>(PTR lookup failed -- the reverse zone for this address did not answer)</i>''
      else ''<i>(no PTR record)</i>'')"

definition ip_location :: "query_data \<Rightarrow> string" where
  "ip_location data =
     (if qd_matched data then
         ''<tr>'' @ nl @
         ''<td>Airport Code</td>'' @ nl @
         ''<td><tt>'' @ escapeHTML (qd_airportCode data) @ ''</tt></td>'' @ nl @
         ''</tr>'' @ nl @
         ''<tr>'' @ nl @
         ''<td>Estimated Location</td>'' @ nl @
         ''<td>'' @ location_cell data @ ''</td>'' @ nl @
         ''</tr>''
      else if qd_ptrHostnames data \<noteq> [] then
         ''<tr>'' @ nl @
         ''<td>Estimated Location</td>'' @ nl @
         ''<td><i>This PTR does not match the known 1e100.net naming convention, cannot parse</i></td>'' @ nl @
         ''</tr>''
      else [])"

definition ip_overview :: "query_data \<Rightarrow> string" where
  "ip_overview data =
     (if qd_hasHistory data then
         ''<tr><th colspan=\"2\">Reachability Overview</th></tr>'' @ nl @
         ''<tr><td>Current Status</td><td>'' @
           query_statusHTML (qd_status data) ''Reachable'' ''Unreachable'' @ ''</td></tr>'' @ nl @
         ''<tr><td>First Seen</td><td>'' @ escapeHTML (qd_firstSeen data) @ ''</td></tr>'' @ nl @
         ''<tr><td>Last Reachable</td><td>'' @ escapeHTML (qd_lastSeen data) @ ''</td></tr>'' @ nl @
         ''<tr><td>Total Times Seen</td><td>'' @ int_text (qd_timesSeen data) @ ''</td></tr>'' @ nl @
         ''<tr><td>Last RTT</td><td>'' @
           (if qd_lastRttMs data \<noteq> 0 then int_text (qd_lastRttMs data) @ '' ms'' else ''-'') @
           ''</td></tr>''
      else
         ''<tr><td colspan=\"2\"><i>This IP is not in the known scan results (it may not have been scanned, or was never found reachable)</i></td></tr>'')"

definition checks_table :: "query_data \<Rightarrow> string" where
  "checks_table data =
     (if qd_hasHistory data then
         ''<p></p>'' @ nl @
         ''<div id=\"historySection\" data-ip=\"'' @ escapeHTML (qd_query data) @ ''\">'' @ nl @
         ''<noscript><p><i>JavaScript is required to load check history.</i></p></noscript>'' @ nl @
         ''<p id=\"historyStatus\">Loading check history&hellip;</p>'' @ nl @
         ''<div class=\"gwsdb-scroll gwsdb-hidden\" id=\"historyTableWrap\">'' @ nl @
         ''<table class=\"gwsdb-data\" id=\"historyTable\">'' @ nl @
         ''<thead>'' @ nl @
         ''<tr><th colspan=\"4\">Check History (<span id=\"historyCount\">0</span> checks, newest first)</th></tr>'' @ nl @
         ''<tr><th scope=\"col\">Time</th><th scope=\"col\">Result</th><th scope=\"col\">Reason</th><th scope=\"col\">RTT</th></tr>'' @ nl @
         ''</thead>'' @ nl @
         ''<tbody id=\"historyTableBody\"></tbody>'' @ nl @
         ''</table>'' @ nl @
         ''</div>'' @ nl @
         ''<p align=\"center\" id=\"historyPager\" class=\"gwsdb-pager gwsdb-hidden\">'' @ nl @
         ''<button type=\"button\" id=\"historyPrev\" class=\"gwsdb-pager-arrow\">&lt;-</button>'' @ nl @
         ''<span id=\"historyPageInfo\"></span>'' @ nl @
         ''<button type=\"button\" id=\"historyNext\" class=\"gwsdb-pager-arrow\">-&gt;</button>'' @ nl @
         ''</p>'' @ nl @
         ''</div>''
      else [])"

text \<open>The two Chinese labels of the probe button are arguments, \<open>zh\<close>, as is the heading above it.\<close>

definition probe_cell :: "string \<times> string \<Rightarrow> query_data \<Rightarrow> string" where
  "probe_cell zh data =
     (if qd_canProbe data then
         ''<button type=\"button\" id=\"probeBtn\" data-ip=\"'' @ escapeHTML (qd_query data) @
           ''\">'' @ fst zh @ ''</button> <span id=\"probeStatus\"></span>''
      else ''<font color=\"#666666\">'' @ snd zh @ ''</font>'')"

definition renderIPBranch :: "string \<Rightarrow> string \<times> string \<Rightarrow> query_data \<Rightarrow> string \<Rightarrow> string" where
  "renderIPBranch heading zh data buildRev =
     ''<div class=\"gwsdb-scroll\">'' @ nl @
     ''<table class=\"gwsdb-data\">'' @ nl @
     ''<thead><tr><th colspan=\"2\">Query Result: '' @ escapeHTML (qd_query data) @
       ''</th></tr></thead>'' @ nl @
     ''<tbody>'' @ nl @
     ''<tr>'' @ nl @
     ''<td width=\"30%\">PTR Record</td>'' @ nl @
     ''<td>'' @ ptr_cell data @ ''</td>'' @ nl @
     ''</tr>'' @ nl @
     ip_location data @ nl @
     ip_overview data @ nl @
     ''</tbody>'' @ nl @
     ''</table>'' @ nl @
     ''</div>'' @ nl @
     checks_table data @ nl @
     nl @
     ''<p></p>'' @ nl @
     ''<div class=\"gwsdb-scroll\">'' @ nl @
     ''<table class=\"gwsdb-data\">'' @ nl @
     ''<thead><tr><th>'' @ heading @ ''</th></tr></thead>'' @ nl @
     ''<tbody>'' @ nl @
     ''<tr>'' @ nl @
     ''<td>'' @ nl @
     probe_cell zh data @ nl @
     ''</td>'' @ nl @
     ''</tr>'' @ nl @
     ''</tbody>'' @ nl @
     ''</table>'' @ nl @
     ''</div>'' @ nl @
     ''<script src=\"/static/query.js'' @ (if buildRev \<noteq> [] then ''?v='' @ buildRev else []) @
       ''\"></script>''"

definition query_form :: "query_data \<Rightarrow> string" where
  "query_form data =
     ''<p>Enter an IP address within a Google ASN to look up its PTR record, or a 1e100.net hostname to look up its A/AAAA records, and estimate its geographic location.</p>'' @ nl @
     nl @
     ''<form method=\"GET\" action=\"/query\">'' @ nl @
     ''<table border=\"0\" cellpadding=\"4\" cellspacing=\"0\">'' @ nl @
     ''<tr>'' @ nl @
     ''<td>IP or 1e100.net Hostname</td>'' @ nl @
     ''<td><input type=\"text\" name=\"ip\" size=\"28\" value=\"'' @ escapeHTML (qd_query data) @
       ''\"></td>'' @ nl @
     ''<td><input type=\"submit\" value=\"Query\"></td>'' @ nl @
     ''</tr>'' @ nl @
     ''</table>'' @ nl @
     ''</form>''"

definition query_result :: "string \<Rightarrow> string \<times> string \<Rightarrow> query_data \<Rightarrow> string \<Rightarrow> string" where
  "query_result heading zh data buildRev =
     (if \<not> qd_submitted data then []
      else if qd_error data \<noteq> []
      then ''<hr>'' @ nl @ ''<p><font color=\"#CC0000\">'' @ escapeHTML (qd_error data) @ ''</font></p>''
      else if qd_queryIsHostname data then ''<hr>'' @ nl @ renderHostnameBranch data
      else ''<hr>'' @ nl @ renderIPBranch heading zh data buildRev)"

definition renderQueryBody :: "string \<Rightarrow> string \<times> string \<Rightarrow> query_data \<Rightarrow> string \<Rightarrow> string" where
  "renderQueryBody heading zh data buildRev =
     query_form data @ nl @
     query_result heading zh data buildRev @ nl @
     nl @
     ''<hr>'' @ nl @
     ''<p><font size=\"-2\" color=\"#666666\">'' @ nl @
     ''Location estimates are based on the <a href=\"https://github.com/lennylxx/ipv6-hosts/wiki/1e100.net\">1e100.net PTR naming convention</a> (a community-maintained, unofficial document, for reference only).'' @ nl @
     ''</font></p>''"

definition query_html :: "string \<times> string \<Rightarrow> string \<Rightarrow> string \<times> string \<Rightarrow> build_info \<Rightarrow> query_data \<Rightarrow> string" where
  "query_html NAV_ZH heading zh build data =
     pageShell NAV_ZH build \<lparr>pg_title = ''Query'', pg_body = renderQueryBody heading zh data (b_revision build),
       pg_extraHead = None, pg_lang = None, pg_description = Some (queryDescription data)\<rparr>"

text \<open>The whole handler: a redirect to the address with the parameters, or the page.\<close>

definition query_response ::
  "string \<times> string \<Rightarrow> string \<Rightarrow> string \<times> string \<Rightarrow> string option \<Rightarrow> (string \<Rightarrow> js_date) \<Rightarrow> http \<Rightarrow> string \<Rightarrow> int \<Rightarrow> int
    \<Rightarrow> request \<Rightarrow> (tables, params + string) prog" where
  "query_response NAV_ZH heading zh commitSha legacy http dohUrl now later request =
     andThen (query_get legacy http dohUrl now later request) (\<lambda>p.
     case p of
       Redirect ps \<Rightarrow> ret (Inl ps)
     | Page data \<Rightarrow> ret (Inr (query_html NAV_ZH heading zh (buildInfoFromEnv commitSha) data)))"

end
