(* ===== verification/PageLaws.thy ===== *)
theory PageLaws
  imports Pages
begin

text \<open>
  No text of the database, of a resolver or of the visitor becomes markup. A scanner reads a
  page the way a browser tells text, tags and double-quoted attribute values apart; the
  characters of the tags outside of attribute values are the markup of the page. It depends
  only on how many rows there are and on flags, never on the contents of a name, an address,
  a time or a query.
\<close>

section \<open>The scanner\<close>

datatype mode = In_text | In_tag | In_quotes

fun read_char :: "mode \<Rightarrow> char \<Rightarrow> mode" where
  "read_char In_text c = (if c = CHR ''<'' then In_tag else In_text)"
| "read_char In_tag c = (if c = CHR 0x22 then In_quotes else if c = CHR ''>'' then In_text else In_tag)"
| "read_char In_quotes c = (if c = CHR 0x22 then In_tag else In_quotes)"

fun after :: "mode \<Rightarrow> string \<Rightarrow> mode" where
  "after m [] = m"
| "after m (c # cs) = after (read_char m c) cs"

text \<open>The characters read in a tag, with those that open or close one.\<close>

fun markup :: "mode \<Rightarrow> string \<Rightarrow> string" where
  "markup m [] = []"
| "markup m (c # cs) =
     (if m = In_tag \<or> read_char m c = In_tag then c # markup (read_char m c) cs
      else markup (read_char m c) cs)"

lemma after_append [simp]: "after m (s @ u) = after (after m s) u"
  by (induction s arbitrary: m) simp_all

lemma markup_append [simp]: "markup m (s @ u) = markup m s @ markup (after m s) u"
  by (induction s arbitrary: m) simp_all

definition harmless :: "string \<Rightarrow> bool" where
  "harmless s \<longleftrightarrow> CHR ''<'' \<notin> set s \<and> CHR 0x22 \<notin> set s"

lemma harmless_text [simp]:
  assumes "harmless s"
  shows "after In_text s = In_text" "after In_quotes s = In_quotes" "markup In_text s = []" "markup In_quotes s = []"
  using assms by (induction s) (auto simp: harmless_def)

text \<open>
  For evaluation on literals: one rule per pair of modes, no conditional around the rest, and
  conditional fragments read branch by branch.
\<close>

fun keep :: "mode \<Rightarrow> mode \<Rightarrow> char \<Rightarrow> string \<Rightarrow> string" where
  "keep In_tag m c rest = c # rest"
| "keep In_text In_tag c rest = c # rest"
| "keep In_quotes In_tag c rest = c # rest"
| "keep In_text In_text c rest = rest"
| "keep In_text In_quotes c rest = rest"
| "keep In_quotes In_text c rest = rest"
| "keep In_quotes In_quotes c rest = rest"

lemma markup_Cons [simp]: "markup m (c # cs) = keep m (read_char m c) c (markup (read_char m c) cs)"
  by (cases m; cases "read_char m c") simp_all

declare markup.simps(2) [simp del]

lemma scan_if [simp]:
  "after m (if b then s else u) = (if b then after m s else after m u)"
  "markup m (if b then s else u) = (if b then markup m s else markup m u)"
  by simp_all

lemma harmless_simps [simp]:
  "harmless []" "harmless (c # s) \<longleftrightarrow> c \<noteq> CHR ''<'' \<and> c \<noteq> CHR 0x22 \<and> harmless s"
  "harmless (s @ u) \<longleftrightarrow> harmless s \<and> harmless u"
  by (auto simp: harmless_def)

lemma harmless_if [simp]: "harmless (if b then s else u) \<longleftrightarrow> (if b then harmless s else harmless u)"
  by simp

lemma harmless_concat: "(\<And>w. w \<in> set ws \<Longrightarrow> harmless w) \<Longrightarrow> harmless (concat ws)"
  by (induction ws) simp_all

lemma harmless_escape [simp]: "harmless (escapeHTML s)"
  unfolding escape_pass by (rule harmless_concat) (auto simp: escape_char_def)

lemma harmless_percent: "n < 256 \<Longrightarrow> harmless (percent n)"
proof -
  have "harmless [''0123456789ABCDEF'' ! d]" if "d < 16" for d
    using lt16_cases [OF that] by (elim insertE) simp_all
  moreover assume "n < 256"
  then have "n div 16 < 16" "n mod 16 < 16" by auto
  ultimately show ?thesis by (simp add: percent_def)
qed

lemma harmless_uri [simp]: "harmless (encodeURIComponent s)"
  unfolding encodeURIComponent_def
proof (rule harmless_concat, elim imageE [of _ _ "set s", folded set_map])
  fix w c
  assume w: "w = (let n = of_char c in if uri_unreserved c then [c] else if n < 128 then percent n
      else percent (192 + n div 64) @ percent (128 + n mod 64))"
  have c: "(of_char c :: nat) < 256" by simp
  then have "of_char c div 64 < (64 :: nat)" by (intro less_mult_imp_div_less) (use c in linarith)
  then have "192 + of_char c div 64 < (256 :: nat)" "128 + of_char c mod 64 < (256 :: nat)" by auto
  moreover have "\<not> uri_unreserved CHR ''<''" "\<not> uri_unreserved CHR 0x22" by code_simp+
  ultimately show "harmless w" using c by (auto simp: w Let_def harmless_percent)
qed

lemma harmless_int [simp]: "harmless (int_text n)"
proof -
  have "harmless (num_str 10 k)" for k
  proof -
    have "is_dig 10 c" if "c \<in> set (num_str 10 k)" for c using num_str_dig [of 10 k] that by auto
    moreover have "\<not> is_dig 10 CHR ''<''" "\<not> is_dig 10 CHR 0x22" by code_simp+
    ultimately show ?thesis unfolding harmless_def by blast
  qed
  then show ?thesis by (simp add: int_text_def)
qed

text \<open>Fragments put together leave the scanner in text, and their markup is put together.\<close>

lemma after_concat: "(\<And>w. w \<in> set ws \<Longrightarrow> after In_text w = In_text) \<Longrightarrow> after In_text (concat ws) = In_text"
  by (induction ws) simp_all

lemma markup_concat:
  "(\<And>w. w \<in> set ws \<Longrightarrow> after In_text w = In_text) \<Longrightarrow> markup In_text (concat ws) = concat (map (markup In_text) ws)"
  by (induction ws) simp_all

lemma join_markup:
  assumes "after In_text sep = In_text" "\<And>w. w \<in> set ws \<Longrightarrow> after In_text w = In_text"
  shows "after In_text (join sep ws) = In_text \<and>
    markup In_text (join sep ws) = join (markup In_text sep) (map (markup In_text) ws)"
  using assms by (induction sep ws rule: join.induct) simp_all

lemma map_shapes:
  assumes "map shape xs = map shape ys" "\<And>x y. shape x = shape y \<Longrightarrow> f x = f y"
  shows "map f xs = map f ys"
  using assms(1) by (auto simp: map_equality_iff intro: assms(2))

section \<open>The frame\<close>

definition hex_sha :: "string option \<Rightarrow> bool" where
  "hex_sha sha \<longleftrightarrow> (case sha of None \<Rightarrow> True | Some s \<Rightarrow> list_all is_hex_digit s)"

lemma harmless_hex: "list_all is_hex_digit s \<Longrightarrow> harmless s"
proof -
  have "\<not> is_hex_digit CHR ''<''" "\<not> is_hex_digit CHR 0x22" by code_simp+
  then show "list_all is_hex_digit s \<Longrightarrow> harmless s" unfolding harmless_def list_all_iff by blast
qed

lemma harmless_build: "hex_sha sha \<Longrightarrow> harmless (b_revision (buildInfoFromEnv sha))"
proof (cases sha)
  case (Some s)
  moreover assume "hex_sha sha"
  ultimately have "list_all is_hex_digit (take 7 s)" by (auto simp: hex_sha_def list_all_iff dest: in_set_takeD)
  with harmless_hex Some show ?thesis by (simp add: buildInfoFromEnv_def)
qed (simp add: buildInfoFromEnv_def)

lemma footer_markup:
  "after In_text (footerHTML build) = In_text"
  "b_revision build = b_revision build' \<Longrightarrow> markup In_text (footerHTML build) = markup In_text (footerHTML build')"
  by (simp_all add: footerHTML_def repoURL_def del: append_Cons cong: if_cong split del: if_split)

lemma shell_markup:
  assumes "after In_text (pg_body o1) = In_text" "after In_text (pg_body o2) = In_text"
    and "markup In_text (pg_body o1) = markup In_text (pg_body o2)"
    and "pg_lang o1 = None" "pg_lang o2 = None" "pg_extraHead o1 = None" "pg_extraHead o2 = None"
  shows "after In_text (pageShell zh build o1) = In_text \<and>
    markup In_text (pageShell zh build o1) = markup In_text (pageShell zh build o2)"
proof -
  note frame = pageShell_def Let_def assms(4-7) NAV_EN_def or_else_def option.case fst_conv snd_conv
  have "after In_text (pageShell zh build o1) = In_text"
    by (simp add: frame footer_markup(1) assms(1,2) del: append_Cons cong: if_cong split del: if_split)
  moreover have "markup In_text (pageShell zh build o1) = markup In_text (pageShell zh build o2)"
    by (simp add: frame footer_markup(1) assms(1-3) del: append_Cons cong: if_cong split del: if_split)
  ultimately show ?thesis ..
qed

section \<open>The table of the home page\<close>

definition flag_mark :: "string \<Rightarrow> bool \<times> bool" where
  "flag_mark s = (s = ''Reachable'', s = ''Unreachable'')"

definition row_shape :: "ip_row \<Rightarrow> (bool \<times> bool) \<times> nat \<times> bool" where
  "row_shape row = (flag_mark (w_status row), length (w_ptrList row), w_countryCode row = [])"

text \<open>Repeated fragments of one shape: the markup depends on their number only.\<close>

lemma join_same:
  assumes "after In_text sep = In_text" "\<And>x. after In_text (f x) = In_text" "\<And>x y. markup In_text (f x) = markup In_text (f y)"
    and "length xs = length ys"
  shows "after In_text (join sep (map f xs)) = In_text \<and>
    markup In_text (join sep (map f xs)) = markup In_text (join sep (map f ys))"
proof -
  have j: "after In_text (join sep (map f zs)) = In_text \<and>
      markup In_text (join sep (map f zs)) = join (markup In_text sep) (map (\<lambda>x. markup In_text (f x)) zs)" for zs
    using join_markup [OF assms(1), of "map f zs"] assms(2) by (auto simp: comp_def)
  have "map (\<lambda>x. markup In_text (f x)) xs = map (\<lambda>x. markup In_text (f x)) ys"
    using assms(3,4) by (simp add: map_equality_iff)
  with j show ?thesis by simp
qed

lemma host_link_markup: "after In_text (host_link h) = In_text" "markup In_text (host_link h) = markup In_text (host_link h')"
  by (simp_all add: host_link_def del: append_Cons cong: if_cong split del: if_split)

lemma link_list:
  "after In_text (join ''<br>'' (map host_link hs)) = In_text"
  "length hs = length hs' \<Longrightarrow>
    markup In_text (join ''<br>'' (map host_link hs)) = markup In_text (join ''<br>'' (map host_link hs'))"
proof -
  have "after In_text ''<br>'' = In_text" by simp
  note same = join_same [where f = host_link, OF this host_link_markup]
  show "after In_text (join ''<br>'' (map host_link hs)) = In_text" using same [OF refl] by blast
  show "length hs = length hs' \<Longrightarrow>
    markup In_text (join ''<br>'' (map host_link hs)) = markup In_text (join ''<br>'' (map host_link hs'))"
    using same by blast
qed

lemma ptrCell_markup:
  "after In_text (ptrCellHTML hs) = In_text"
  "length hs = length hs' \<Longrightarrow> markup In_text (ptrCellHTML hs) = markup In_text (ptrCellHTML hs')"
proof -
  show "after In_text (ptrCellHTML hs) = In_text"
    by (simp add: ptrCellHTML_def link_list(1) del: append_Cons cong: if_cong split del: if_split)
  assume l: "length hs = length hs'"
  then have "hs = [] \<longleftrightarrow> hs' = []" by (metis length_0_conv)
  with link_list(2) [OF l] show "markup In_text (ptrCellHTML hs) = markup In_text (ptrCellHTML hs')"
    by (simp add: ptrCellHTML_def link_list(1) del: append_Cons cong: if_cong split del: if_split)
qed

lemma countryCell_markup:
  "after In_text (countryCellHTML r) = In_text"
  "(w_countryCode r = []) = (w_countryCode r' = []) \<Longrightarrow>
    markup In_text (countryCellHTML r) = markup In_text (countryCellHTML r')"
  by (simp_all add: countryCellHTML_def del: append_Cons cong: if_cong split del: if_split)

lemma home_row_markup:
  "after In_text (home_row r) = In_text"
  "row_shape r = row_shape r' \<Longrightarrow> markup In_text (home_row r) = markup In_text (home_row r')"
proof -
  show "after In_text (home_row r) = In_text"
    by (simp add: home_row_def home_statusHTML_def ptrCell_markup(1) countryCell_markup(1) del: append_Cons cong: if_cong split del: if_split)
  assume "row_shape r = row_shape r'"
  then have s: "(w_status r = ''Reachable'') = (w_status r' = ''Reachable'')"
    "(w_status r = ''Unreachable'') = (w_status r' = ''Unreachable'')"
    and l: "length (w_ptrList r) = length (w_ptrList r')"
    and c: "(w_countryCode r = []) = (w_countryCode r' = [])"
    by (simp_all add: row_shape_def flag_mark_def)
  show "markup In_text (home_row r) = markup In_text (home_row r')"
    by (simp add: home_row_def home_statusHTML_def ptrCell_markup(1) countryCell_markup(1) s
        ptrCell_markup(2) [OF l] countryCell_markup(2) [OF c] del: append_Cons cong: if_cong split del: if_split)
qed

lemma header_markup:
  "after In_text (sortHeaderHTML url s d) = In_text"
  "markup In_text (sortHeaderHTML url s d) = markup In_text (sortHeaderHTML url' s' d')"
  by (simp_all add: sortHeaderHTML_def sortColumns_def sort_arrow_def del: append_Cons cong: if_cong split del: if_split)

lemma filter_markup:
  "after In_text (familyFilterHTML url f) = In_text"
  "markup In_text (familyFilterHTML url f) = markup In_text (familyFilterHTML url' f)"
  by (simp_all add: familyFilterHTML_def family_option_def del: append_Cons cong: if_cong split del: if_split)

text \<open>Repeated fragments with the same shapes.\<close>

lemma join_shapes:
  assumes "after In_text sep = In_text" "\<And>x. after In_text (f x) = In_text"
    and "\<And>x y. shape x = shape y \<Longrightarrow> markup In_text (f x) = markup In_text (f y)" "map shape xs = map shape ys"
  shows "after In_text (join sep (map f xs)) = In_text \<and>
    markup In_text (join sep (map f xs)) = markup In_text (join sep (map f ys))"
proof -
  have j: "after In_text (join sep (map f zs)) = In_text \<and>
      markup In_text (join sep (map f zs)) = join (markup In_text sep) (map (\<lambda>x. markup In_text (f x)) zs)" for zs
    using join_markup [OF assms(1), of "map f zs"] assms(2) by (auto simp: comp_def)
  have "map (\<lambda>x. markup In_text (f x)) xs = map (\<lambda>x. markup In_text (f x)) ys"
    by (rule map_shapes [OF assms(4)]) (rule assms(3))
  with j show ?thesis by simp
qed

lemma rows_markup:
  assumes "map row_shape ips = map row_shape ips'"
  shows "after In_text (join nl (map home_row ips)) = In_text"
    and "markup In_text (join nl (map home_row ips)) = markup In_text (join nl (map home_row ips'))"
proof -
  have "after In_text nl = In_text" by simp
  from join_shapes [where f = home_row, OF this home_row_markup(1) home_row_markup(2) assms]
  show "after In_text (join nl (map home_row ips)) = In_text"
    and "markup In_text (join nl (map home_row ips)) = markup In_text (join nl (map home_row ips'))" by auto
qed

lemma table_markup:
  assumes "map row_shape ips = map row_shape ips'"
  shows "after In_text (home_table url ips s d) = In_text"
    and "markup In_text (home_table url ips s d) = markup In_text (home_table url' ips' s' d')"
proof -
  have e: "(ips = []) = (ips' = [])" using assms by (metis map_is_Nil_conv)
  note rows = rows_markup(1) [OF assms] rows_markup(1) [OF assms [symmetric]] rows_markup(2) [OF assms]
  show "after In_text (home_table url ips s d) = In_text"
    by (simp add: home_table_def rows header_markup(1) del: append_Cons cong: if_cong split del: if_split)
  show "markup In_text (home_table url ips s d) = markup In_text (home_table url' ips' s' d')"
    by (simp add: home_table_def rows header_markup(1) header_markup(2) [of url s d url' s' d'] e
        del: append_Cons cong: if_cong split del: if_split)
qed

lemma full_markup:
  assumes "map row_shape ips = map row_shape ips'"
  shows "after In_text (renderFullTable url ips st sm s d f) = In_text"
    and "markup In_text (renderFullTable url ips st sm s d f) = markup In_text (renderFullTable url' ips' st' sm' s' d' f)"
proof -
  show "after In_text (renderFullTable url ips st sm s d f) = In_text"
    by (simp add: renderFullTable_def table_markup(1) [OF assms] filter_markup(1)
        del: append_Cons cong: if_cong split del: if_split)
  show "markup In_text (renderFullTable url ips st sm s d f) = markup In_text (renderFullTable url' ips' st' sm' s' d' f)"
    by (simp add: renderFullTable_def table_markup(1) [OF assms] table_markup(1) [OF assms [symmetric]] filter_markup(1)
        table_markup(2) [OF assms, of url s d url' s' d'] filter_markup(2) [of url f url']
        del: append_Cons cong: if_cong split del: if_split)
qed

text \<open>
  C14: Nothing stored about an address becomes markup of the home page. For two databases with
  the same number of rows, the same flags and the same number of host names per row, and for
  any two URLs with one family filter, the pages have exactly the same tags and attribute
  names; all that differs is text and quoted attribute values. Every page ends outside of tags.
\<close>

theorem home_markup:
  assumes "map row_shape ips = map row_shape ips'"
  shows "markup In_text (home_shell nav build (renderFullTable url ips stats mode s d f) None) =
      markup In_text (home_shell nav build (renderFullTable url' ips' stats' mode' s' d' f) None) \<and>
    after In_text (home_shell nav build (renderFullTable url ips stats mode s d f) None) = In_text"
  using shell_markup [of "\<lparr>pg_title = ''Home'', pg_body = renderFullTable url ips stats mode s d f, pg_extraHead = None,
      pg_lang = None, pg_description = Some DEFAULT_HOME_DESCRIPTION\<rparr>"
    "\<lparr>pg_title = ''Home'', pg_body = renderFullTable url' ips' stats' mode' s' d' f, pg_extraHead = None,
      pg_lang = None, pg_description = Some DEFAULT_HOME_DESCRIPTION\<rparr>" nav build]
    full_markup(1) [OF assms] full_markup(1) [OF assms [symmetric]]
    full_markup(2) [OF assms, of url stats mode s d f url' stats' mode' s' d']
  by (simp add: home_shell_def)

lemma full_table_sample:
  fixes name :: string
  defines "row \<equiv> \<lambda>name. \<lparr>w_ip = ''1.2.3.4'', w_revision = 1, w_ptrList = [name], w_country = [], w_countryCode = [],
    w_status = ''Reachable'', w_firstSeen = [], w_lastSeen = [], w_lastRttMs = 5\<rparr>"
  shows "map row_shape [row name] = map row_shape [row name']"
  by (simp add: row_def row_shape_def)

theorem home_markup_witness:
  "let row = (\<lambda>name. \<lparr>w_ip = ''1.2.3.4'', w_revision = 1, w_ptrList = [name], w_country = [], w_countryCode = [],
       w_status = ''Reachable'', w_firstSeen = [], w_lastSeen = [], w_lastRttMs = 5\<rparr>);
     page = (\<lambda>name. home_shell ([], []) (buildInfoFromEnv None)
       (renderFullTable [] [row name] \<lparr>totalKnownIPs = 1, totalChecks = 1, lastCheckAt = None, st_scanMode = []\<rparr> [] None True None) None)
   in markup In_text (page ''<script>'') = markup In_text (page ''dns.google'') \<and> after In_text (page ''<script>'') = In_text"
  unfolding Let_def by (rule home_markup [OF full_table_sample])

section \<open>The results of a query\<close>

definition form_shape :: "hostname_form \<Rightarrow> (bool \<times> bool) list \<times> (bool \<times> bool) list \<times> bool" where
  "form_shape f = (map (\<lambda>a. flag_mark (as_status a)) (hf_ipv4 f), map (\<lambda>a. flag_mark (as_status a)) (hf_ipv6 f), hf_failed f)"

definition data_shape ::
  "query_data \<Rightarrow> bool list \<times> nat \<times> (bool \<times> bool) \<times> ((bool \<times> bool) list \<times> (bool \<times> bool) list \<times> bool) list" where
  "data_shape q =
     ([qd_submitted q, qd_error q = [], qd_queryIsHostname q, qd_matched q, qd_country q = [],
       qd_ptrFailed q, qd_hasHistory q, qd_canProbe q],
      length (qd_ptrHostnames q), flag_mark (qd_status q), map form_shape (qd_hostnameForms q))"

lemma query_status_markup:
  "harmless l1 \<Longrightarrow> harmless l2 \<Longrightarrow> after In_text (query_statusHTML s l1 l2) = In_text"
  "harmless l1 \<Longrightarrow> harmless l2 \<Longrightarrow> flag_mark s = flag_mark s' \<Longrightarrow>
    markup In_text (query_statusHTML s l1 l2) = markup In_text (query_statusHTML s' l1 l2)"
  by (simp_all add: query_statusHTML_def flag_mark_def del: append_Cons cong: if_cong split del: if_split)

definition addr_piece :: "addr_status \<Rightarrow> string" where
  "addr_piece a = ''<tt><a href=\"/query?ip='' @ encodeURIComponent (as_addr a) @ ''\">'' @
           escapeHTML (as_addr a) @ ''</a></tt> '' @ query_statusHTML (as_status a) [] [] @ ''<br>''"

lemma addr_piece_markup:
  "after In_text (addr_piece a) = In_text"
  "flag_mark (as_status a) = flag_mark (as_status b) \<Longrightarrow> markup In_text (addr_piece a) = markup In_text (addr_piece b)"
proof -
  have h: "harmless []" by simp
  show "after In_text (addr_piece a) = In_text"
    by (simp add: addr_piece_def query_status_markup(1) del: append_Cons)
  assume "flag_mark (as_status a) = flag_mark (as_status b)"
  from query_status_markup(2) [OF h h this] show "markup In_text (addr_piece a) = markup In_text (addr_piece b)"
    by (simp add: addr_piece_def query_status_markup(1) del: append_Cons)
qed

text \<open>The same for fragments without a separator.\<close>

lemma join_nothing: "join [] ws = concat ws"
  by (induction "[] :: string" ws rule: join.induct) simp_all

lemma addrs_markup:
  assumes "map (\<lambda>a. flag_mark (as_status a)) as = map (\<lambda>a. flag_mark (as_status a)) bs"
  shows "after In_text (concat (map addr_piece as)) = In_text"
    and "markup In_text (concat (map addr_piece as)) = markup In_text (concat (map addr_piece bs))"
proof -
  have "after In_text [] = In_text" by simp
  note j = join_shapes [where f = addr_piece, OF this addr_piece_markup(1) addr_piece_markup(2) assms, unfolded join_nothing]
  then show "after In_text (concat (map addr_piece as)) = In_text" by blast
  from j show "markup In_text (concat (map addr_piece as)) = markup In_text (concat (map addr_piece bs))" by blast
qed

lemma addr_cell_markup:
  assumes "map (\<lambda>a. flag_mark (as_status a)) as = map (\<lambda>a. flag_mark (as_status a)) bs" "hf_failed f = hf_failed g"
  shows "after In_text (addr_cell f as) = In_text"
    and "markup In_text (addr_cell f as) = markup In_text (addr_cell g bs)"
proof -
  have e: "(as = []) = (bs = [])" using assms(1) by (metis map_is_Nil_conv)
  have cell: "addr_cell f as = (if as \<noteq> [] then concat (map addr_piece as)
      else if hf_failed f then ''<i>lookup failed</i>'' else ''<i>none</i>'')" for f as
    unfolding addr_cell_def addr_piece_def ..
  show "after In_text (addr_cell f as) = In_text"
    by (simp add: cell addrs_markup(1) [OF refl] del: append_Cons cong: if_cong split del: if_split)
  show "markup In_text (addr_cell f as) = markup In_text (addr_cell g bs)"
    by (simp add: cell addrs_markup(2) [OF assms(1)] e assms(2) del: append_Cons cong: if_cong split del: if_split)
qed

lemma form_row_markup:
  "after In_text (form_row f) = In_text"
  "form_shape f = form_shape g \<Longrightarrow> markup In_text (form_row f) = markup In_text (form_row g)"
proof -
  show "after In_text (form_row f) = In_text"
    by (simp add: form_row_def addr_cell_markup(1) [OF refl refl] del: append_Cons)
  assume "form_shape f = form_shape g"
  then have c: "map (\<lambda>a. flag_mark (as_status a)) (hf_ipv4 f) = map (\<lambda>a. flag_mark (as_status a)) (hf_ipv4 g)"
    "map (\<lambda>a. flag_mark (as_status a)) (hf_ipv6 f) = map (\<lambda>a. flag_mark (as_status a)) (hf_ipv6 g)" "hf_failed f = hf_failed g"
    by (simp_all add: form_shape_def)
  show "markup In_text (form_row f) = markup In_text (form_row g)"
    by (simp add: form_row_def addr_cell_markup(1) [OF refl refl] addr_cell_markup(2) [OF c(1,3)]
        addr_cell_markup(2) [OF c(2,3)] del: append_Cons)
qed

lemma location_markup:
  "after In_text (location_cell q) = In_text"
  "(qd_country q = []) = (qd_country q' = []) \<Longrightarrow> markup In_text (location_cell q) = markup In_text (location_cell q')"
  by (simp_all add: location_cell_def del: append_Cons cong: if_cong split del: if_split)

lemma ptr_cell_markup:
  "after In_text (ptr_cell q) = In_text"
  "length (qd_ptrHostnames q) = length (qd_ptrHostnames q') \<Longrightarrow> qd_ptrFailed q = qd_ptrFailed q' \<Longrightarrow>
    markup In_text (ptr_cell q) = markup In_text (ptr_cell q')"
proof -
  show "after In_text (ptr_cell q) = In_text"
    by (simp add: ptr_cell_def link_list(1) del: append_Cons cong: if_cong split del: if_split)
  assume l: "length (qd_ptrHostnames q) = length (qd_ptrHostnames q')" and f: "qd_ptrFailed q = qd_ptrFailed q'"
  then have e: "(qd_ptrHostnames q = []) = (qd_ptrHostnames q' = [])" by (metis length_0_conv)
  show "markup In_text (ptr_cell q) = markup In_text (ptr_cell q')"
    by (simp add: ptr_cell_def link_list(1) link_list(2) [OF l] e f del: append_Cons cong: if_cong split del: if_split)
qed

text \<open>The parts of the page of an address, for data of one shape.\<close>

lemma shape_fields:
  assumes "data_shape q = data_shape q'"
  shows "qd_submitted q = qd_submitted q'" "(qd_error q = []) = (qd_error q' = [])"
    "qd_queryIsHostname q = qd_queryIsHostname q'" "qd_matched q = qd_matched q'" "(qd_country q = []) = (qd_country q' = [])"
    "qd_ptrFailed q = qd_ptrFailed q'" "qd_hasHistory q = qd_hasHistory q'" "qd_canProbe q = qd_canProbe q'"
    "length (qd_ptrHostnames q) = length (qd_ptrHostnames q')" "(qd_ptrHostnames q = []) = (qd_ptrHostnames q' = [])"
    "flag_mark (qd_status q) = flag_mark (qd_status q')"
    "map form_shape (qd_hostnameForms q) = map form_shape (qd_hostnameForms q')"
proof -
  show l: "length (qd_ptrHostnames q) = length (qd_ptrHostnames q')" using assms by (simp add: data_shape_def)
  then show "(qd_ptrHostnames q = []) = (qd_ptrHostnames q' = [])" by (metis length_0_conv)
qed (use assms in \<open>simp_all add: data_shape_def\<close>)

lemma ip_location_markup:
  assumes "data_shape q = data_shape q'"
  shows "after In_text (ip_location q) = In_text" "markup In_text (ip_location q) = markup In_text (ip_location q')"
  by (simp_all add: ip_location_def location_markup(1) location_markup(2) [OF shape_fields(5) [OF assms]]
      shape_fields(4,10) [OF assms] del: append_Cons cong: if_cong split del: if_split)

lemma ip_overview_markup:
  assumes "data_shape q = data_shape q'"
  shows "after In_text (ip_overview q) = In_text" "markup In_text (ip_overview q) = markup In_text (ip_overview q')"
proof -
  have h: "harmless ''Reachable''" "harmless ''Unreachable''" by simp_all
  show "after In_text (ip_overview q) = In_text" "markup In_text (ip_overview q) = markup In_text (ip_overview q')"
    by (simp_all add: ip_overview_def query_status_markup(1) [OF h] query_status_markup(2) [OF h shape_fields(11) [OF assms]]
        shape_fields(7) [OF assms] del: append_Cons cong: if_cong split del: if_split)
qed

lemma checks_table_markup:
  assumes "data_shape q = data_shape q'"
  shows "after In_text (checks_table q) = In_text" "markup In_text (checks_table q) = markup In_text (checks_table q')"
  by (simp_all add: checks_table_def shape_fields(7) [OF assms] del: append_Cons cong: if_cong split del: if_split)

lemma probe_cell_markup:
  assumes "data_shape q = data_shape q'" "harmless (fst zh)" "harmless (snd zh)"
  shows "after In_text (probe_cell zh q) = In_text" "markup In_text (probe_cell zh q) = markup In_text (probe_cell zh q')"
  by (simp_all add: probe_cell_def shape_fields(8) [OF assms(1)] assms(2,3) del: append_Cons cong: if_cong split del: if_split)

lemma ip_branch_markup:
  assumes "data_shape q = data_shape q'" "harmless heading" "harmless (fst zh)" "harmless (snd zh)" "harmless v"
  shows "after In_text (renderIPBranch heading zh q v) = In_text"
    and "markup In_text (renderIPBranch heading zh q v) = markup In_text (renderIPBranch heading zh q' v)"
proof -
  note q = assms(1)
  note zh = probe_cell_markup [OF q assms(3,4)]
  show "after In_text (renderIPBranch heading zh q v) = In_text"
    by (simp add: renderIPBranch_def ptr_cell_markup(1) ip_location_markup(1) [OF refl] ip_overview_markup(1) [OF refl]
        checks_table_markup(1) [OF refl] zh(1) assms(2,5) del: append_Cons cong: if_cong split del: if_split)
  show "markup In_text (renderIPBranch heading zh q v) = markup In_text (renderIPBranch heading zh q' v)"
    by (simp add: renderIPBranch_def ptr_cell_markup(1) ip_location_markup(1) [OF refl] ip_overview_markup(1) [OF refl]
        checks_table_markup(1) [OF refl] probe_cell_markup(1) [OF refl assms(3,4)] assms(2,5)
        ptr_cell_markup(2) [OF shape_fields(9,6) [OF q]] ip_location_markup(2) [OF q] ip_overview_markup(2) [OF q]
        checks_table_markup(2) [OF q] zh(2) del: append_Cons cong: if_cong split del: if_split)
qed

lemma host_branch_markup:
  assumes "data_shape q = data_shape q'"
  shows "after In_text (renderHostnameBranch q) = In_text"
    and "markup In_text (renderHostnameBranch q) = markup In_text (renderHostnameBranch q')"
proof -
  have "after In_text nl = In_text" by simp
  note rows = join_shapes [where f = form_row and shape = form_shape, OF this form_row_markup(1) form_row_markup(2)]
  have end_text: "after In_text (join nl (map form_row fs)) = In_text" for fs using rows [OF _ refl] by blast
  have same: "markup In_text (join nl (map form_row (qd_hostnameForms q))) = markup In_text (join nl (map form_row (qd_hostnameForms q')))"
    using rows [OF _ shape_fields(12) [OF assms]] by blast
  show "after In_text (renderHostnameBranch q) = In_text"
    by (simp add: renderHostnameBranch_def end_text host_location_def host_no_location_def location_markup(1) del: append_Cons cong: if_cong split del: if_split)
  show "markup In_text (renderHostnameBranch q) = markup In_text (renderHostnameBranch q')"
    by (simp add: renderHostnameBranch_def end_text same host_location_def host_no_location_def location_markup(1)
        location_markup(2) [OF shape_fields(5) [OF assms]] shape_fields(4) [OF assms] del: append_Cons cong: if_cong split del: if_split)
qed

lemma query_body_markup:
  assumes "data_shape q = data_shape q'" "harmless heading" "harmless (fst zh)" "harmless (snd zh)" "harmless v"
  shows "after In_text (renderQueryBody heading zh q v) = In_text"
    and "markup In_text (renderQueryBody heading zh q v) = markup In_text (renderQueryBody heading zh q' v)"
proof -
  note ip = ip_branch_markup [OF assms] and ip_end = ip_branch_markup(1) [OF refl assms(2-5)]
  note host = host_branch_markup [OF assms(1)] and host_end = host_branch_markup(1) [OF refl]
  show "after In_text (renderQueryBody heading zh q v) = In_text"
    by (simp add: renderQueryBody_def query_form_def query_result_def ip_end host_end del: append_Cons cong: if_cong split del: if_split)
  show "markup In_text (renderQueryBody heading zh q v) = markup In_text (renderQueryBody heading zh q' v)"
    by (simp add: renderQueryBody_def query_form_def query_result_def ip_end host_end ip(2) host(2)
        shape_fields(1-3) [OF assms(1)] del: append_Cons cong: if_cong split del: if_split)
qed

text \<open>
  C13: Nothing in the result of a query becomes markup of its page: neither the text of the
  visitor, nor host names and addresses from the DNS, nor anything stored. Two results with the
  same flags and the same numbers of host names and addresses give pages with exactly the same
  tags and attribute names, and every page ends outside of tags. The revision of the build is
  a hexadecimal number and the labels in Chinese hold no quote and no angle bracket.
\<close>

theorem query_markup:
  assumes "data_shape q = data_shape q'" "hex_sha sha" "harmless heading" "harmless (fst zh)" "harmless (snd zh)"
  shows "markup In_text (query_html nav heading zh (buildInfoFromEnv sha) q) =
      markup In_text (query_html nav heading zh (buildInfoFromEnv sha) q') \<and>
    after In_text (query_html nav heading zh (buildInfoFromEnv sha) q) = In_text"
proof -
  let ?b = "buildInfoFromEnv sha"
  let ?o = "\<lambda>q. \<lparr>pg_title = ''Query'', pg_body = renderQueryBody heading zh q (b_revision ?b), pg_extraHead = None,
      pg_lang = None, pg_description = Some (queryDescription q)\<rparr>"
  have v: "harmless (b_revision ?b)" by (rule harmless_build [OF assms(2)])
  note body = query_body_markup(1) [OF refl assms(3-5) v] query_body_markup(2) [OF assms(1,3-5) v]
  show ?thesis using shell_markup [of "?o q" "?o q'" nav ?b] body by (simp add: query_html_def)
qed

theorem query_markup_witness:
  "let page = (\<lambda>q. query_html ([], []) [] ([], []) (buildInfoFromEnv (Some ''0123456789abcdef''))
       ((emptyData q)\<lparr>qd_submitted := True, qd_error := q @ '' is not an address''\<rparr>))
   in markup In_text (page ''<script>'') = markup In_text (page ''x'') \<and> after In_text (page ''<script>'') = In_text"
proof -
  let ?q = "\<lambda>q. (emptyData q)\<lparr>qd_submitted := True, qd_error := q @ '' is not an address''\<rparr>"
  have shape: "data_shape (?q ''<script>'') = data_shape (?q ''x'')" by (simp add: data_shape_def emptyData_def)
  have sha: "hex_sha (Some ''0123456789abcdef'')" by code_simp
  have label: "harmless []" "harmless (fst ([], []))" "harmless (snd ([], []))" by simp_all
  show ?thesis unfolding Let_def by (rule query_markup [OF shape sha label])
qed

end
