(* ===== verification/Client.thy ===== *)
theory Client
  imports ApiLaws
begin

text \<open>
  The browser side of the pool page, src/public/static/home.js: a copy of the pool in
  IndexedDB, brought up to date by change responses. Several tabs share the copy. A
  transaction is atomic and transactions on the same stores run one after the other, as
  IndexedDB documents; a tab decides on one transaction from the snapshot it read and the
  server's answers, and other tabs may commit theirs before it. The file also filters, sorts
  and pages the rows it shows.
\<close>

section \<open>The copy in IndexedDB\<close>

record metadata =
  m_version :: int
  m_count :: "nat option"
  m_scanMode :: string
  m_totalKnownIPs :: int
  m_totalChecks :: int
  m_lastCheckAt :: string

record idb =
  i_rows :: "string \<Rightarrow> api_row option"
  i_meta :: "metadata option"

definition metadata :: "pool_body \<Rightarrow> metadata" where
  "metadata data =
     \<lparr>m_version = v_version data, m_count = v_count data, m_scanMode = v_scanMode data,
      m_totalKnownIPs = v_totalKnownIPs data, m_totalChecks = v_totalChecks data,
      m_lastCheckAt = v_lastCheckAt data\<rparr>"

definition put_rows :: "api_row list \<Rightarrow> (string \<Rightarrow> api_row option) \<Rightarrow> string \<Rightarrow> api_row option" where
  "put_rows rows m = foldl (\<lambda>m row. m(x_ip row \<mapsto> row)) m rows"

definition writeFullCache :: "pool_body \<Rightarrow> idb \<Rightarrow> idb" where
  "writeFullCache data d =
     (case i_meta d of
        Some current \<Rightarrow>
          if v_version data < m_version current then d
          else \<lparr>i_rows = put_rows (v_ips data) (\<lambda>_. None), i_meta = Some (metadata data)\<rparr>
      | None \<Rightarrow> \<lparr>i_rows = put_rows (v_ips data) (\<lambda>_. None), i_meta = Some (metadata data)\<rparr>)"

text \<open>All get requests of the transaction are placed before the first put, so each sees the old row.\<close>

definition newer_row :: "idb \<Rightarrow> api_row \<Rightarrow> bool" where
  "newer_row d row =
     (case i_rows d (x_ip row) of None \<Rightarrow> True | Some old \<Rightarrow> x_revision old \<le> x_revision row)"

definition applyChanges :: "pool_body \<Rightarrow> idb \<Rightarrow> idb" where
  "applyChanges data d =
     \<lparr>i_rows = put_rows (filter (newer_row d) (v_ips data)) (i_rows d),
      i_meta = (case i_meta d of
          None \<Rightarrow> Some (metadata data)
        | Some current \<Rightarrow> if m_version current \<le> v_version data then Some (metadata data) else Some current)\<rparr>"

section \<open>Synchronising\<close>

text \<open>What a tab ends up doing to the copy.\<close>

datatype tx = Keep | Full pool_body | Delta pool_body

fun run_tx :: "tx \<Rightarrow> idb \<Rightarrow> idb" where
  "run_tx Keep d = d"
| "run_tx (Full data) d = writeFullCache data d"
| "run_tx (Delta data) d = applyChanges data d"

text \<open>Only a status from 200 to 299 is \<open>ok\<close>; a handler that throws is answered with status 500.\<close>

definition fetchJSON :: "(tables, json reply \<times> put) prog \<Rightarrow> (tables, json) prog" where
  "fetchJSON handler =
     andThen handler (\<lambda>out.
     if 200 \<le> status (fst out) \<and> status (fst out) \<le> 299 then ret (body (fst out))
     else throw (JsError ''bad status''))"

text \<open>The other bodies never come with an ok status from these two handlers.\<close>

definition fetchFull ::
  "(string \<Rightarrow> js_date) \<Rightarrow> edge \<Rightarrow> (int \<times> int) option \<Rightarrow> (tables, tx) prog" where
  "fetchFull legacy edge hit =
     andThen (fetchJSON (pool_get legacy edge hit [])) (\<lambda>data.
     case data of Payload b \<Rightarrow> ret (Full b) | _ \<Rightarrow> throw TypeError)"

definition syncCache ::
  "(string \<Rightarrow> js_date) \<Rightarrow> edge \<Rightarrow> edge \<Rightarrow> (int \<times> int) option \<Rightarrow> (int \<times> int) option
    \<Rightarrow> metadata option \<Rightarrow> (tables, tx) prog"
where
  "syncCache legacy edgeFull edgeChanges hit1 hit2 cache =
     (case cache of
        None \<Rightarrow> fetchFull legacy edgeFull hit2
      | Some m \<Rightarrow>
          andThen (fetchJSON (changes_get legacy edgeChanges hit1 [(''since'', int_text (m_version m))])) (\<lambda>data.
          case data of
            Reset _ \<Rightarrow> fetchFull legacy edgeFull hit2
          | Unchanged v \<Rightarrow> if v = m_version m then ret Keep else throw TypeError
          | Payload b \<Rightarrow> if v_version b = m_version m then ret Keep else ret (Delta b)
          | _ \<Rightarrow> throw TypeError))"

section \<open>What the copy holds\<close>

definition snapshot :: "(string \<Rightarrow> js_date) \<Rightarrow> tables \<Rightarrow> string \<Rightarrow> api_row option" where
  "snapshot legacy t ip = map_option (api_row \<circ> shown legacy) (view t ip)"

definition holds :: "(string \<Rightarrow> js_date) \<Rightarrow> idb \<Rightarrow> tables \<Rightarrow> bool" where
  "holds legacy d t \<longleftrightarrow> i_rows d = snapshot legacy t \<and> map_option m_version (i_meta d) = Some (version t)"

lemma api_row_sel [simp]: "x_ip (api_row r) = w_ip r" "x_revision (api_row r) = w_revision r"
  by (simp_all add: api_row_def)

lemma metadata_sel [simp]: "m_version (metadata data) = v_version data"
  by (simp add: metadata_def)

lemma put_rows_at:
  "distinct (map x_ip rows) \<Longrightarrow> put_rows rows m ip = (case find_row x_ip ip rows of Some r \<Rightarrow> Some r | None \<Rightarrow> m ip)"
proof (induction rows arbitrary: m)
  case (Cons r rows)
  then have "put_rows (r # rows) m ip = (case find_row x_ip ip rows of Some r' \<Rightarrow> Some r' | None \<Rightarrow> (m(x_ip r \<mapsto> r)) ip)"
    by (simp add: put_rows_def)
  moreover have "find_row x_ip (x_ip r) rows = None" using Cons.prems by (auto simp: find_row_None)
  ultimately show ?case by (auto simp: find_row_def split: option.splits)
qed (simp add: put_rows_def find_row_def)

lemma find_row_shown:
  "find_row x_ip ip (map (api_row \<circ> shown legacy) rows) = map_option (api_row \<circ> shown legacy) (find_row q_ip ip rows)"
  by (induction rows) (auto simp: find_row_def)

lemma full_holds:
  assumes "full_rows None t rows" "v_ips b = map (api_row \<circ> shown legacy) rows" "v_version b = version t"
  shows "holds legacy \<lparr>i_rows = put_rows (v_ips b) (\<lambda>_. None), i_meta = Some (metadata b)\<rparr> t"
proof -
  have d: "distinct (map x_ip (v_ips b))" using assms(1,2) by (simp add: full_rows_def comp_def)
  have rows: "find_row q_ip ip rows = view t ip" for ip
    using assms(1) by (simp add: full_rows_def family_ok_def)
  have "put_rows (v_ips b) (\<lambda>_. None) ip = snapshot legacy t ip" for ip
    by (simp only: put_rows_at [OF d]) (simp add: assms(2) find_row_shown rows snapshot_def split: option.split)
  then show ?thesis using assms(3) by (simp add: holds_def fun_eq_iff)
qed

lemma find_row_filter_distinct:
  "distinct (map key rows) \<Longrightarrow> find_row key k (filter P rows) =
    (case find_row key k rows of None \<Rightarrow> None | Some r \<Rightarrow> if P r then Some r else None)"
proof (induction rows)
  case (Cons r rows)
  have "find_row key (key r) rows = None" using Cons.prems by (auto simp: find_row_None)
  with Cons show ?case by (cases "key r = k") (auto simp: find_row_def)
qed (simp add: find_row_def)

lemma view_ip: "view t ip = Some r \<Longrightarrow> q_ip r = ip"
  by (auto simp: view_def dest: find_row_Some)

text \<open>
  A change response computed from an older state than the copy holds, applied late: as long
  as no reset lies between, the copy ends up with the newer of the two states.
\<close>

lemma delta_holds:
  assumes H: "timeline H" "c \<in> H" "u \<in> H" "e \<in> H"
    and b: "v_version b = version u" "v_ips b = map (api_row \<circ> shown legacy) (changed_rows (version c) (version u) u)"
    and cu: "version c < version u" "reset_version u \<le> version c"
    and ce: "version c \<le> version e" "reset_version e \<le> version c"
    and d: "holds legacy d e"
  shows "holds legacy (applyChanges b d) (if version u \<le> version e then e else u)"
proof -
  have ok: "db_ok c" "db_ok u" "db_ok e" using H by (simp_all add: timeline_def)
  let ?w = "if version u \<le> version e then e else u"
  note changed = find_changed [OF ok(2), where a = "version c" and b = "version u"]
  obtain m where m: "i_meta d = Some m" "m_version m = version e" using d by (auto simp: holds_def)
  have rows: "i_rows d = snapshot legacy e" using d by (simp add: holds_def)
  have dist: "distinct (map x_ip (v_ips b))" using changed(2) by (simp add: b(2) comp_def)
  then have dist': "distinct (map x_ip (filter (newer_row d) (v_ips b)))" by (rule distinct_map_filter)
  have "put_rows (filter (newer_row d) (v_ips b)) (i_rows d) ip = snapshot legacy ?w ip" for ip
  proof -
    have put: "put_rows (filter (newer_row d) (v_ips b)) (i_rows d) ip =
        (case view u ip of
           Some r \<Rightarrow> if version c < q_revision r \<and> (\<forall>r'. view e ip = Some r' \<longrightarrow> q_revision r' \<le> q_revision r)
             then Some (api_row (shown legacy r)) else snapshot legacy e ip
         | None \<Rightarrow> snapshot legacy e ip)"
      using pool.rev_le [OF ok(2), of ip] view_ip [of u ip]
      by (simp only: put_rows_at [OF dist'] find_row_filter_distinct [OF dist])
        (auto simp: b(2) find_row_shown changed(1) newer_row_def rows snapshot_def split: option.splits if_splits)
    show ?thesis
    proof (cases "version u \<le> version e")
      case True
      have "view e ip = view u ip \<or> (\<exists>r. view e ip = Some r \<and> version u < q_revision r)"
      proof (cases "version u = version e")
        case False
        with True have "db_steps u e" by (intro older_state [OF H(1,3,4)]) simp
        from pool.steps_look [OF this ok(2), of ip] ce(2) cu(1) show ?thesis by force
      qed (simp add: same_view [OF H(1,3,4)])
      then show ?thesis using True pool.rev_le [OF ok(2), of ip] unfolding put
        by (auto simp: snapshot_def split: option.split)
    next
      case False
      then have "db_steps e u" by (intro older_state [OF H(1,4,3)]) simp
      from pool.steps_look [OF this ok(3), of ip] cu(2) ce(1)
      have "view u ip = view e ip \<or> (\<exists>r. view u ip = Some r \<and> version e < q_revision r)" by force
      then show ?thesis using False pool.rev_le [OF ok(3), of ip] ce(1) unfolding put
        by (cases "view u ip"; cases "view e ip") (auto simp: snapshot_def)
    qed
  qed
  moreover have "map_option m_version (i_meta (applyChanges b d)) = Some (version ?w)"
    using m b(1) by (auto simp: applyChanges_def)
  ultimately show ?thesis by (auto simp: holds_def applyChanges_def)
qed

section \<open>One synchronisation\<close>

lemma since_version: "0 \<le> v \<Longrightarrow> v < 2 ^ 53 \<Longrightarrow> since_number (int_text v) = Some v"
proof -
  assume v: "0 \<le> v" "v < 2 ^ 53"
  have dig: "list_all is_digit (num_str 10 (nat v))"
    using num_str_dig [of 10 "nat v"] by (simp add: list_all_iff is_digit_dig)
  have "nat v \<le> 2 ^ 53" using v by simp
  with dig have "js_Number (num_str 10 (nat v)) = Num (of_nat (nat v))"
    using js_Number_digits [of "num_str 10 (nat v)"] by simp
  then show ?thesis using v by (simp add: since_number_def int_text_def as_safe_integer_def)
qed

lemma reads_fetch:
  assumes "api.reads H (\<lambda>s out u. Q s (body (fst out))) handler"
  shows "api.reads H (\<lambda>s x u. Q s x) (fetchJSON handler)"
proof -
  have "\<And>out. api.reads H (\<lambda>s x u. x = body (fst out))
      (if 200 \<le> status (fst out) \<and> status (fst out) \<le> 299 then ret (body (fst out)) else throw (JsError ''bad status''))"
    by (auto simp: api.reads_def ret_def throw_def)
  from api.reads_bind [OF assms this] show ?thesis unfolding fetchJSON_def by (rule api.reads_weaken) auto
qed

text \<open>What a tab that read the snapshot of \<open>c\<close> may end up writing.\<close>

fun good_tx :: "tables set \<Rightarrow> (string \<Rightarrow> js_date) \<Rightarrow> int \<Rightarrow> tx \<Rightarrow> bool" where
  "good_tx H legacy since Keep = True"
| "good_tx H legacy since (Full b) = (\<exists>u \<in> H. \<exists>rows. since \<le> version u \<and> v_version b = version u
     \<and> full_rows None u rows \<and> v_ips b = map (api_row \<circ> shown legacy) rows)"
| "good_tx H legacy since (Delta b) = (\<exists>u \<in> H. v_version b = version u \<and> since < version u \<and> reset_version u \<le> since
     \<and> v_ips b = map (api_row \<circ> shown legacy) (changed_rows since (version u) u))"

lemma reads_throw: "api.reads H Q (throw e)"
  by (auto simp: api.reads_def throw_def)

lemma reads_fetchFull:
  assumes "timeline H" "honest_pool H legacy edge"
  shows "api.reads H (\<lambda>s tx u. \<exists>b. tx = Full b \<and> (s \<in> H \<longrightarrow> good_tx H legacy (version s) tx)) (fetchFull legacy edge hit)"
proof -
  have "family_param [] = None" by (simp add: family_param_def params_get_def)
  with pool_get_answer [OF assms, of "[]" hit]
  have "api.reads H (\<lambda>s x u. s \<in> H \<longrightarrow> pool_answer H legacy None s x) (fetchJSON (pool_get legacy edge hit []))"
    by (intro reads_fetch) (auto intro: api.reads_weaken)
  moreover have "\<And>x. api.reads H (\<lambda>s tx u. \<exists>b. x = Payload b \<and> tx = Full b)
      (case x of Payload b \<Rightarrow> ret (Full b) | _ \<Rightarrow> throw TypeError)"
    by (auto simp: api.reads_def ret_def throw_def split: json.split)
  ultimately show ?thesis unfolding fetchFull_def
    by (rule api.reads_weaken [OF api.reads_bind]) auto
qed

lemma reads_syncCache:
  assumes "timeline H" "honest_pool H legacy edgeFull" "honest_changes H legacy edgeChanges"
    and "0 \<le> m_version m" "m_version m < 2 ^ 53"
  shows "api.reads H (\<lambda>s tx u. s \<in> H \<and> m_version m \<le> version s \<longrightarrow> good_tx H legacy (m_version m) tx)
     (syncCache legacy edgeFull edgeChanges hit1 hit2 (Some m))"
proof -
  let ?ps = "[(''since'', int_text (m_version m))]"
  have "since_number (or_else (params_get ''since'' ?ps) []) = Some (m_version m)"
    using since_version [OF assms(4,5)] by (simp add: params_get_def or_else_def)
  from changes_get_answer [OF assms(1,3) this]
  have answer: "api.reads H (\<lambda>s x u. s \<in> H \<longrightarrow> changes_answer H legacy (m_version m) s x)
      (fetchJSON (changes_get legacy edgeChanges hit1 ?ps))"
    by (intro reads_fetch) (auto intro: api.reads_weaken)
  let ?next = "\<lambda>x. case x of Reset _ \<Rightarrow> fetchFull legacy edgeFull hit2
       | Unchanged v \<Rightarrow> if v = m_version m then ret Keep else throw TypeError
       | Payload b \<Rightarrow> if v_version b = m_version m then ret Keep else ret (Delta b)
       | _ \<Rightarrow> throw TypeError"
  have rest: "api.reads H (\<lambda>s tx u. (\<exists>b. x = Payload b \<and> tx = Delta b) \<or> tx = Keep
        \<or> (\<exists>b. tx = Full b \<and> (s \<in> H \<longrightarrow> good_tx H legacy (version s) tx))) (?next x)" for x
  proof (cases x)
    case (Reset v)
    show ?thesis unfolding Reset json.case
      by (rule api.reads_weaken [OF reads_fetchFull [OF assms(1,2)]]) simp
  next
    case (Payload b)
    show ?thesis unfolding Payload json.case
      by (rule api.reads_cases; rule api.reads_weaken [OF api.reads_ret]; simp)
  next
    case (Unchanged v)
    show ?thesis unfolding Unchanged json.case
      by (rule api.reads_cases) (rule api.reads_weaken [OF api.reads_ret], simp, rule reads_throw)
  qed (simp_all add: reads_throw)
  show ?thesis unfolding syncCache_def option.case
  proof (rule api.reads_weaken [OF api.reads_bind [OF answer rest]], intro impI, elim exE conjE)
    fix s tx u x w
    assume s: "s \<in> H" "m_version m \<le> version s" and w: "db_steps s w" "w \<in> H"
      and x: "s \<in> H \<longrightarrow> changes_answer H legacy (m_version m) s x"
      and tx: "(\<exists>b. x = Payload b \<and> tx = Delta b) \<or> tx = Keep
        \<or> (\<exists>b. tx = Full b \<and> (w \<in> H \<longrightarrow> good_tx H legacy (version w) tx))"
    have le: "m_version m \<le> version w" using pool.steps_ver [OF w(1)] s(2) by simp
    from tx show "good_tx H legacy (m_version m) tx"
    proof (elim disjE exE conjE)
      fix b assume "x = Payload b" "tx = Delta b"
      with x s show ?thesis by auto
    next
      fix b assume "tx = Full b" "w \<in> H \<longrightarrow> good_tx H legacy (version w) tx"
      with w le show ?thesis by (auto intro: order_trans)
    qed simp
  qed
qed

lemma sync_one_moment:
  assumes "timeline H" "honest_pool H legacy edgeFull" "honest_changes H legacy edgeChanges"
    and "c \<in> H" "e \<in> H" "reset_version e \<le> version c" "version c \<le> version e"
    and "i_meta d0 = Some m" "holds legacy d0 c" "holds legacy d e" "0 \<le> version c" "version c < 2 ^ 53"
    and "api.follows H db" "version c \<le> version (store db)"
    and "syncCache legacy edgeFull edgeChanges hit1 hit2 (i_meta d0) db = (Inr tx, db')"
  shows "\<exists>u \<in> H. version e \<le> version u \<and> holds legacy (run_tx tx d) u"
proof -
  have m: "m_version m = version c" using assms(8,9) by (simp add: holds_def)
  have "store db \<in> H" using assms(13) by (simp add: api.follows_def)
  with api.reads_run(3) [OF reads_syncCache [OF assms(1,2,3), of m hit1 hit2] assms(13)] assms m
  have good: "good_tx H legacy (version c) tx" by simp
  obtain k where k: "i_meta d = Some k" "m_version k = version e" using assms(10) by (auto simp: holds_def)
  show ?thesis
  proof (cases tx)
    case Keep
    with assms(5,10) show ?thesis by auto
  next
    case (Full b)
    with good obtain u rows where u: "u \<in> H" "v_version b = version u" "full_rows None u rows"
      "v_ips b = map (api_row \<circ> shown legacy) rows" by auto
    show ?thesis
    proof (cases "version u < version e")
      case True
      with Full k u assms(5,10) show ?thesis by (auto simp: writeFullCache_def)
    next
      case False
      with Full k have "run_tx tx d = \<lparr>i_rows = put_rows (v_ips b) (\<lambda>_. None), i_meta = Some (metadata b)\<rparr>"
        using u(2) by (simp add: writeFullCache_def)
      with False u(1) full_holds [OF u(3,4,2)] show ?thesis by (intro bexI [of _ u]) simp_all
    qed
  next
    case (Delta b)
    with good obtain u where u: "u \<in> H" "v_version b = version u" "version c < version u" "reset_version u \<le> version c"
      "v_ips b = map (api_row \<circ> shown legacy) (changed_rows (version c) (version u) u)" by auto
    from delta_holds [OF assms(1,4) u(1) assms(5) u(2,5,3,4) assms(7,6,10)] Delta u(1) assms(5)
    show ?thesis by (intro bexI [of _ "if version u \<le> version e then e else u"]) auto
  qed
qed


definition synced_db :: tables where
  "synced_db = run_batch [BumpRevision, PoolCheckInsert ''8.8.8.8'' 0 ''auto'' ''2024-01-01T00:00:00.000Z'' 12] empty_db"

lemma empty_db_sel [simp]: "version empty_db = 0" "reset_version empty_db = 0" "pool empty_db = []"
  by (simp_all add: empty_db_def)

lemma synced_db_sel: "version synced_db = 1" "reset_version synced_db = 0"
  by (simp_all add: synced_db_def)

lemma sample_timeline: "timeline {empty_db, synced_db}" "db_steps empty_db synced_db"
proof -
  have "db_step empty_db synced_db"
    unfolding synced_db_def by (rule pool_check_insert) (simp add: ipv6_flag_def)
  moreover have "db_ok empty_db" by (simp add: empty_db_def db_ok_parts)
  ultimately show "timeline {empty_db, synced_db}" "db_steps empty_db synced_db"
    using db_ok_step by (auto simp: timeline_def)
qed

definition empty_copy :: idb where
  "empty_copy = \<lparr>i_rows = (\<lambda>_. None), i_meta = Some \<lparr>m_version = 0, m_count = Some 0, m_scanMode = [],
     m_totalKnownIPs = 0, m_totalChecks = 0, m_lastCheckAt = ''-''\<rparr>\<rparr>"

lemma sample_copy: "holds (\<lambda>_. Invalid_Date) empty_copy empty_db"
  by (simp add: holds_def empty_copy_def snapshot_def view_def find_row_def fun_eq_iff)

lemma sample_sync:
  "\<exists>tx. syncCache (\<lambda>_. Invalid_Date) (\<lambda>_. None) (\<lambda>_. None) None None (i_meta empty_copy) (quiet synced_db)
      = (Inr tx, quiet synced_db)"
proof -
  have since: "since_number (int_text 0) = Some 0" by (rule since_version) simp_all
  show ?thesis
    by (simp add: syncCache_def empty_copy_def fetchJSON_def changes_get_def changes_load_def params_get_def since
        or_else_def d1_defs poolVersion_def poolResetVersion_def synced_db_sel loadPoolChanges_def listKnownIPsChanged_def
        overview_def cachedOverviewAggregates_def fresh_def Let_def)
qed


text \<open>
  C2: every full answer of /api/pool is the pool of one moment at or after the request: under
  its version it lists exactly the rows of the wanted family at a state with that version,
  each once, even when other requests commit between the reads; and what it leaves in the edge
  cache keeps the cache honest.
\<close>

theorem pool_snapshot:
  assumes "timeline H" "honest_pool H legacy edge" "api.follows H db"
    and "pool_get legacy edge hit ps db = (Inr (r, put), db')" "body r = Payload b"
  shows "(\<exists>u \<in> H. version (store db) \<le> version u \<and> v_version b = version u
      \<and> (\<exists>rows. distinct (map q_ip rows) \<and> v_ips b = map (api_row \<circ> shown legacy) rows
        \<and> (\<forall>ip. find_row q_ip ip rows = (if family_ok (family_param ps) ip then view u ip else None))))
    \<and> (\<forall>key b. put = Some (key, b) \<longrightarrow> honest_pool H legacy (edge(key \<mapsto> b)))"
proof -
  have "store db \<in> H" using assms(3) by (simp add: api.follows_def)
  with api.reads_run(3) [OF pool_get_answer [OF assms(1,2)] assms(3,4)] assms(5)
  have *: "pool_answer H legacy (family_param ps) (store db) (Payload b)" "\<forall>key b. put = Some (key, b) \<longrightarrow> pool_entry H legacy key b"
    by simp_all
  then have "\<forall>key b. put = Some (key, b) \<longrightarrow> honest_pool H legacy (edge(key \<mapsto> b))"
    using assms(2) by (simp add: honest_pool_def)
  with *(1) show ?thesis unfolding pool_answer.simps full_rows_def by blast
qed

theorem pool_snapshot_witness:
  "\<exists>b put. pool_get (\<lambda>_. Invalid_Date) (\<lambda>_. None) None [] (quiet synced_db) = (Inr (fresh 200 (Payload b), put), quiet synced_db)
    \<and> (\<exists>u \<in> {empty_db, synced_db}. v_version b = version u)"
proof -
  have "\<exists>b put. pool_get (\<lambda>_. Invalid_Date) (\<lambda>_. None) None [] (quiet synced_db)
      = (Inr (fresh 200 (Payload b), put), quiet synced_db)"
    by (simp add: pool_get_def d1_defs poolVersion_def loadPool_def listKnownIPs_def or_else_def
        overview_def cachedOverviewAggregates_def fresh_def Let_def)
  then obtain b put where get: "pool_get (\<lambda>_. Invalid_Date) (\<lambda>_. None) None [] (quiet synced_db)
      = (Inr (fresh 200 (Payload b), put), quiet synced_db)" by (elim exE)
  have "api.follows {empty_db, synced_db} (quiet synced_db)" by (rule api.follows_quiet) simp
  from pool_snapshot [OF sample_timeline(1) _ this get] get show ?thesis
    by (auto simp: honest_pool_def fresh_def)
qed

section \<open>Where the copy goes wrong\<close>

text \<open>
  A client ahead of the server (after the database was restored, say) is told to reset, but
  writeFullCache refuses the older snapshot: the copy stays as it is, now and ever after.
\<close>

lemma ahead_client_stuck:
  assumes "i_meta d = Some m" "version t < m_version m" "0 \<le> m_version m" "m_version m < 2 ^ 53"
  shows "\<exists>tx. syncCache legacy (\<lambda>_. None) (\<lambda>_. None) hit1 hit2 (Some m) (quiet t) = (Inr tx, quiet t)
    \<and> run_tx tx d = d"
proof -
  have since: "since_number (int_text (m_version m)) = Some (m_version m)" using assms by (intro since_version)
  have agg: "\<exists>x. cachedOverviewAggregates hit2 (quiet t) = (Inr x, quiet t)"
    by (cases hit2) (simp_all add: cachedOverviewAggregates_def d1_defs)
  then have "\<exists>s. overview legacy hit2 (quiet t) = (Inr s, quiet t)" by (auto simp: overview_def d1_defs)
  then obtain s where "overview legacy hit2 (quiet t) = (Inr s, quiet t)" by (elim exE)
  then show ?thesis using assms(1,2)
    by (simp add: syncCache_def fetchFull_def fetchJSON_def changes_get_def pool_get_def params_get_def since
        or_else_def d1_defs poolVersion_def loadPool_def listKnownIPs_def fresh_def Let_def writeFullCache_def)
qed

text \<open>
  A change response computed before an eviction and applied after another tab has replaced
  the copy by the snapshot taken after it brings the evicted row back, for good: the copy
  says it is of the newer version.
\<close>

lemma evicted_row_returns:
  assumes "i_meta d = Some m" "v_version b < m_version m" "distinct (map x_ip (v_ips b))"
    and "find_row x_ip ip (v_ips b) = Some r" "i_rows d ip = None"
  shows "i_rows (applyChanges b d) ip = Some r \<and> i_meta (applyChanges b d) = Some m"
proof -
  have "newer_row d r" using find_row_Some [OF assms(4)] assms(5) by (simp add: newer_row_def)
  then show ?thesis using assms distinct_map_filter [OF assms(3)]
    by (simp add: applyChanges_def put_rows_at find_row_filter_distinct)
qed

end
