(* ===== verification/HomeView.thy ===== *)
theory HomeView
  imports Client "HOL-Library.Multiset"
begin

text \<open>
  What the pool page shows, src/public/static/home.js: the rows of the copy with the country
  decoded in the browser, searched, sorted in a cycle of three states per column, and cut
  into pages. Drawing the rows is in HomeDraw.
\<close>

section \<open>Decoding in the browser\<close>

text \<open>\<open>renderData\<close>: every row gets its country and country code.\<close>

definition decoded_row :: "api_row \<Rightarrow> ip_row" where
  "decoded_row r =
     (let loc = decodeBest (x_ptrList r) in
      \<lparr>w_ip = x_ip r, w_revision = x_revision r, w_ptrList = x_ptrList r, w_country = g_country loc,
       w_countryCode = countryCode (g_country loc), w_status = x_status r,
       w_firstSeen = x_firstSeen r, w_lastSeen = x_lastSeen r, w_lastRttMs = x_lastRttMs r\<rparr>)"

lemma decodeBest_Nil: "g_country (decodeBest []) = []"
  by (simp add: decodeBest_def emptyLocation_def)

lemma decoded_api_row: "decoded_row (api_row (toIPRow st)) = toIPRow st"
  by (cases "s_ptrHostname st")
    (simp_all add: decoded_row_def api_row_def toIPRow_def decodeBest_Nil countryCode_def countryCodes_def Let_def)

section \<open>The state of the page\<close>

record home =
  allRows :: "ip_row list"
  matched :: "ip_row list"
  naturalOrder :: "ip_row list"
  page :: int
  sortCol :: "string option"
  sortDir :: int

definition PAGE_SIZE :: int where
  "PAGE_SIZE = 1000"

text \<open>\<open>renderPage\<close>: the page number is brought into range; the rows drawn are one slice of matched.\<close>

definition totalPages :: "home \<Rightarrow> int" where
  "totalPages h = max 1 ((int (length (matched h)) + PAGE_SIZE - 1) div PAGE_SIZE)"

definition renderPage :: "home \<Rightarrow> home" where
  "renderPage h =
     (let total = totalPages h;
          p = (if page h > total then total else page h);
          p = (if p < 1 then 1 else p)
      in h\<lparr>page := p\<rparr>)"

definition drawn :: "home \<Rightarrow> ip_row list" where
  "drawn h = take (nat PAGE_SIZE) (drop (nat ((page h - 1) * PAGE_SIZE)) (matched h))"

definition prev_page :: "home \<Rightarrow> home" where
  "prev_page h = renderPage (h\<lparr>page := page h - 1\<rparr>)"

definition next_page :: "home \<Rightarrow> home" where
  "next_page h = renderPage (h\<lparr>page := page h + 1\<rparr>)"

section \<open>Searching\<close>

definition haystack :: "ip_row \<Rightarrow> string" where
  "haystack r = to_lower (w_ip r @ '' '' @ join '' '' (w_ptrList r) @ '' '' @ w_country r)"

definition row_matches :: "string \<Rightarrow> string \<Rightarrow> ip_row \<Rightarrow> bool" where
  "row_matches q family r =
     (let isIPv6 = str_includes (w_ip r) '':'';
          familyMatch = (if family = ''6'' then isIPv6 else \<not> isIPv6)
      in familyMatch \<and> str_includes (haystack r) (to_lower (trim q)))"

text \<open>\<open>filter\<close>.\<close>

definition filter_page :: "string \<Rightarrow> string \<Rightarrow> home \<Rightarrow> home" where
  "filter_page q family h =
     (let rows = filter (row_matches q family) (allRows h) in
      renderPage (h\<lparr>matched := rows, naturalOrder := rows, page := 1\<rparr>))"

definition renderData :: "string \<Rightarrow> string \<Rightarrow> api_row list \<Rightarrow> home \<Rightarrow> home" where
  "renderData q family ips h =
     (let h = h\<lparr>allRows := map decoded_row ips\<rparr> in
      if ips = [] then h else filter_page q family h)"

section \<open>Sorting\<close>

text \<open>
  The comparators of \<open>sort\<close>; the columns of the page are rtt, ip, ptr, country, firstSeen and
  lastSeen. The one for ip never returns 0, which matters only for equal addresses, and the
  addresses of the copy are distinct.
\<close>

definition column_text :: "string \<Rightarrow> ip_row \<Rightarrow> string" where
  "column_text col r =
     to_lower (if col = ''ptr'' then join '' '' (w_ptrList r)
       else if col = ''country'' then w_country r
       else if col = ''firstSeen'' then w_firstSeen r
       else if col = ''lastSeen'' then w_lastSeen r
       else if col = ''status'' then w_status r else [])"

definition column_less :: "string \<Rightarrow> ip_row \<Rightarrow> ip_row \<Rightarrow> bool" where
  "column_less col a b =
     (if col = ''rtt'' then w_lastRttMs a < w_lastRttMs b
      else if col = ''ip'' then w_ip a < w_ip b
      else column_text col a < column_text col b)"

definition column_before :: "string \<Rightarrow> bool \<Rightarrow> ip_row \<Rightarrow> ip_row \<Rightarrow> bool" where
  "column_before col desc a b = (if desc then column_less col b a else column_less col a b)"

definition sort_cycle :: "bool \<Rightarrow> int list" where
  "sort_cycle defaultDesc = (if defaultDesc then [1, 0, 2] else [0, 1, 2])"

definition next_dir :: "int list \<Rightarrow> int \<Rightarrow> int" where
  "next_dir cycle d =
     (let i = (case find (\<lambda>j. cycle ! j = d) [0..<length cycle] of None \<Rightarrow> -1 | Some j \<Rightarrow> int j)
      in cycle ! nat ((i + 1) mod 3))"

text \<open>\<open>sort\<close>.\<close>

definition sort_page :: "string \<Rightarrow> bool \<Rightarrow> home \<Rightarrow> home" where
  "sort_page col defaultDesc h =
     (let cycle = sort_cycle defaultDesc;
          dir = (if sortCol h = Some col then next_dir cycle (sortDir h) else cycle ! 0);
          rows = (if dir = 2 then naturalOrder h else sort_by (column_before col (dir = 1)) (matched h))
      in renderPage (h\<lparr>sortCol := Some col, sortDir := dir, matched := rows\<rparr>))"

section \<open>What the page shows\<close>

lemma column_weak: "column_before col desc x y \<Longrightarrow> column_before col desc x z \<or> column_before col desc z y"
  by (cases desc) (auto simp: column_before_def column_less_def)

lemma column_asym: "column_before col desc x y \<Longrightarrow> \<not> column_before col desc y x"
  by (cases desc) (auto simp: column_before_def column_less_def)

interpretation column: sql_order "column_before col desc" for col desc
  by unfold_locales (fact column_asym column_weak)+

lemma renderPage_sel [simp]:
  "allRows (renderPage h) = allRows h" "matched (renderPage h) = matched h"
  "naturalOrder (renderPage h) = naturalOrder h" "sortCol (renderPage h) = sortCol h" "sortDir (renderPage h) = sortDir h"
  by (simp_all add: renderPage_def Let_def)

lemma mset_insert_by: "mset (insert_by before x ys) = add_mset x (mset ys)"
  by (induction ys) auto

lemma mset_sort_by [simp]: "mset (sort_by before xs) = mset xs"
  by (induction xs) (simp_all add: mset_insert_by)

lemma slices: "concat (map (\<lambda>i. take n (drop (i * n) xs)) [0..<k]) = take (k * n) xs"
proof (induction k)
  case (Suc k)
  then show ?case using take_add [of "k * n" n xs] by (simp add: add.commute)
qed simp

text \<open>
  Paging loses nothing: the slices of the pages from the first to the last, put together,
  are the matched rows in their order, and whatever page is asked for, the page drawn is one
  of them.
\<close>

theorem pages_cover:
  "concat (map (\<lambda>i. drawn (h\<lparr>page := 1 + int i\<rparr>)) [0..<nat (totalPages h)]) = matched h
   \<and> 1 \<le> page (renderPage h) \<and> page (renderPage h) \<le> totalPages h"
proof -
  have slice: "drawn (h\<lparr>page := 1 + int i\<rparr>) = take 1000 (drop (i * 1000) (matched h))" for i
    by (simp add: drawn_def PAGE_SIZE_def nat_mult_distrib)
  have "length (matched h) \<le> nat (totalPages h) * 1000"
  proof -
    have "int (length (matched h)) \<le> ((int (length (matched h)) + 999) div 1000) * 1000" by linarith
    then have "int (length (matched h)) \<le> totalPages h * 1000"
      by (simp add: totalPages_def PAGE_SIZE_def max_def) linarith
    then show ?thesis by linarith
  qed
  then have "concat (map (\<lambda>i. drawn (h\<lparr>page := 1 + int i\<rparr>)) [0..<nat (totalPages h)]) = matched h"
    unfolding slice slices by simp
  moreover have "1 \<le> totalPages h" by (simp add: totalPages_def)
  ultimately show ?thesis by (auto simp: renderPage_def Let_def)
qed

text \<open>
  Sorting never loses or doubles a row; the first two clicks on a column order the rows by
  it, in its default direction and then in the other, and the third brings the order of the
  last search back.
\<close>

theorem sort_three_states:
  fixes desc :: bool
  assumes "sortCol h \<noteq> Some col" "mset (matched h) = mset (naturalOrder h)"
  defines "h1 \<equiv> sort_page col desc h"
  defines "h2 \<equiv> sort_page col desc h1"
  shows "mset (matched h1) = mset (naturalOrder h) \<and> mset (matched h2) = mset (naturalOrder h)
    \<and> sorted_wrt (\<lambda>a b. \<not> column_before col desc b a) (matched h1)
    \<and> sorted_wrt (\<lambda>a b. \<not> column_before col (\<not> desc) b a) (matched h2)
    \<and> matched (sort_page col desc h2) = naturalOrder h"
proof -
  have dirs: "sort_cycle desc ! 0 = (if desc then 1 else 0)" "next_dir (sort_cycle desc) (if desc then 1 else 0) = (if desc then 0 else 1)"
    "next_dir (sort_cycle desc) (if desc then 0 else 1) = 2"
    by (auto simp: sort_cycle_def next_dir_def upt_rec eval_nat_numeral)
  have 1: "sortCol h1 = Some col" "sortDir h1 = (if desc then 1 else 0)" "naturalOrder h1 = naturalOrder h"
    "matched h1 = sort_by (column_before col desc) (matched h)"
    using assms(1) by (auto simp: h1_def sort_page_def dirs Let_def)
  have 2: "sortCol h2 = Some col" "sortDir h2 = (if desc then 0 else 1)" "naturalOrder h2 = naturalOrder h"
    "matched h2 = sort_by (column_before col (\<not> desc)) (matched h1)"
    unfolding h2_def sort_page_def using dirs(2) by (auto simp: 1 Let_def)
  have "matched (sort_page col desc h2) = naturalOrder h"
    using dirs(3) by (simp add: sort_page_def 2 Let_def)
  then show ?thesis using assms(2) by (simp add: 1(4) 2(4) column.sort_sorted)
qed

theorem sort_three_states_witness:
  "let r = \<lparr>w_ip = ''8.8.8.8'', w_revision = 1, w_ptrList = [], w_country = [], w_countryCode = [], w_status = ''-'',
        w_firstSeen = ''-'', w_lastSeen = ''-'', w_lastRttMs = 5\<rparr>;
     h = \<lparr>allRows = [r, r\<lparr>w_lastRttMs := 7\<rparr>], matched = [r, r\<lparr>w_lastRttMs := 7\<rparr>],
          naturalOrder = [r, r\<lparr>w_lastRttMs := 7\<rparr>], page = 1, sortCol = None, sortDir = -1\<rparr>
   in matched (sort_page ''rtt'' True (sort_page ''rtt'' True (sort_page ''rtt'' True h))) = [r, r\<lparr>w_lastRttMs := 7\<rparr>]"
  unfolding Let_def by (subst sort_three_states [THEN conjunct2, THEN conjunct2, THEN conjunct2, THEN conjunct2]) simp_all

text \<open>
  After sorting, a search (or a refresh of the data) shows the rows in their natural order
  again, while the column still counts as sorted and keeps its arrow; the next click then
  goes on with the second direction.
\<close>

lemma search_drops_sort:
  "matched (filter_page q family (sort_page col desc h)) = filter (row_matches q family) (allRows h)
   \<and> sortCol (filter_page q family (sort_page col desc h)) = Some col"
  by (simp add: filter_page_def sort_page_def Let_def)

end
