(* ===== verification/HomeDraw.thy ===== *)
theory HomeDraw
  imports PageLaws HomeView
begin

text \<open>
  Drawing the pool page in the browser, the rest of src/public/static/home.js: the cells of a
  row as a tree of elements, the texts around the table, opening and reading the copy, and the
  sequence of a page load. A tree is compared with the HTML the server renders for readers
  without JavaScript by the texts a browser reads as that tree.
\<close>

section \<open>Trees and their texts\<close>

text \<open>A text node with one character beyond the type of characters is a \<open>Sign\<close> with its code point.\<close>

datatype dom = El string "(string \<times> string) list" "dom list" | Txt string | Sign int

text \<open>A text of the page that stands for \<open>s\<close>, in a text node or in a quoted attribute.\<close>

definition denotes :: "string \<Rightarrow> string \<Rightarrow> bool" where
  "denotes w s \<longleftrightarrow> harmless w \<and> unescape w = s"

fun attrs_written :: "(string \<times> string) list \<Rightarrow> string \<Rightarrow> bool" where
  "attrs_written [] w = (w = [])"
| "attrs_written ((k, v) # as) w = (\<exists>x rest. w = '' '' @ k @ ''=\"'' @ x @ ''\"'' @ rest \<and> denotes x v \<and> attrs_written as rest)"

definition void_tag :: "string \<Rightarrow> bool" where
  "void_tag tag \<longleftrightarrow> tag = ''br'' \<or> tag = ''img''"

inductive writes :: "dom \<Rightarrow> string \<Rightarrow> bool" and writes_all :: "dom list \<Rightarrow> string \<Rightarrow> bool" where
  words: "denotes w s \<Longrightarrow> writes (Txt s) w"
| sign: "writes (Sign n) (''&#'' @ int_text n @ '';'')"
| void: "void_tag tag \<Longrightarrow> attrs_written attrs a \<Longrightarrow> writes (El tag attrs []) (''<'' @ tag @ a @ ''>'')"
| element: "\<not> void_tag tag \<Longrightarrow> attrs_written attrs a \<Longrightarrow> writes_all kids w \<Longrightarrow>
    writes (El tag attrs kids) (''<'' @ tag @ a @ ''>'' @ w @ ''</'' @ tag @ ''>'')"
| none: "writes_all [] []"
| more: "writes n w \<Longrightarrow> writes_all ns u \<Longrightarrow> writes_all (n # ns) (w @ u)"

inductive_simps writes_all_simps [simp]: "writes_all [] w" "writes_all (n # ns) w"

lemma writes_all_append: "writes_all ns w \<Longrightarrow> writes_all ks u \<Longrightarrow> writes_all (ns @ ks) (w @ u)"
  by (induction ns arbitrary: w) force+

lemma writes_one: "writes n w \<Longrightarrow> writes_all [n] w"
  using writes_writes_all.more [OF _ writes_writes_all.none] by fastforce

lemma denotes_escape: "denotes (escapeHTML s) s"
proof -
  have "unescape (escapeHTML s) = s"
    unfolding escape_pass by (induction s) (simp_all add: unescape_escape_char unescape.simps [of "[]"])
  then show ?thesis by (simp add: denotes_def)
qed

lemma unescape_plain: "CHR ''&'' \<notin> set s \<Longrightarrow> unescape s = s"
proof (induction s)
  case (Cons c s)
  have "entity_at (c # s) = None"
    using Cons.prems by (auto simp: entity_at_def entities_def starts_with_def)
  with Cons show ?case by (simp add: unescape.simps [of "c # s"])
qed (simp add: unescape.simps)

lemma denotes_plain: "harmless s \<Longrightarrow> CHR ''&'' \<notin> set s \<Longrightarrow> denotes s s"
  by (simp add: denotes_def unescape_plain)

section \<open>Cells\<close>

definition text_node :: "string \<Rightarrow> dom list" where
  "text_node s = (if s = [] then [] else [Txt s])"

definition query_anchor :: "string \<Rightarrow> dom" where
  "query_anchor h = El ''a'' [(''href'', ''/query?ip='' @ encodeURIComponent h)] (text_node h)"

text \<open>Links with a line break before each but the first.\<close>

fun ptr_links :: "string list \<Rightarrow> dom list" where
  "ptr_links [] = []"
| "ptr_links [h] = [query_anchor h]"
| "ptr_links (h # hs) = query_anchor h # El ''br'' [] [] # ptr_links hs"

definition fillPtrCell :: "string list \<Rightarrow> dom" where
  "fillPtrCell ptrList =
     El ''td'' [] (if ptrList \<noteq> [] then [El ''tt'' [] (ptr_links ptrList)] else [Txt ''-''])"

definition fillCountryCell :: "string \<Rightarrow> string \<Rightarrow> dom" where
  "fillCountryCell land code =
     El ''td'' []
       ((if code \<noteq> []
         then [El ''img'' [(''src'', ''/static/flags/'' @ encodeURIComponent code @ ''.gif''), (''alt'', code),
                 (''title'', land), (''height'', ''11'')] [], Txt '' '']
         else []) @ [Txt (if land \<noteq> [] then land else ''-'')])"

definition text_cell :: "string \<Rightarrow> dom" where
  "text_cell s = El ''td'' [] (text_node s)"

text \<open>The mark of a row: a check mark or a ballot cross.\<close>

definition status_mark :: "string \<Rightarrow> dom list" where
  "status_mark st =
     (if st = ''Reachable'' \<or> st = ''Unreachable''
      then [El ''font'' [(''class'', ''gwsdb-row-status''), (''color'', if st = ''Reachable'' then ''#008000'' else ''#CC0000''),
              (''title'', st), (''aria-label'', st)] [Sign (if st = ''Reachable'' then 0x2713 else 0x2717)]]
      else [])"

definition data_cells :: "ip_row \<Rightarrow> dom list" where
  "data_cells row =
     [fillPtrCell (w_ptrList row), fillCountryCell (w_country row) (w_countryCode row),
      text_cell (w_firstSeen row), text_cell (w_lastSeen row),
      text_cell (if w_lastRttMs row \<noteq> 0 then int_text (w_lastRttMs row) @ '' ms'' else ''-'')]"

definition buildRow :: "ip_row \<Rightarrow> dom" where
  "buildRow row =
     El ''tr'' (if w_status row = ''Unreachable'' then [(''class'', ''gwsdb-unreachable'')] else [])
       (El ''td'' [] (status_mark (w_status row) @ [El ''tt'' [] [query_anchor (w_ip row)]]) # data_cells row)"

section \<open>The same cells as the server's\<close>

lemma writes_td: "writes_all kids w \<Longrightarrow> writes (El ''td'' [] kids) (''<td>'' @ w @ ''</td>'')"
  using writes_writes_all.element [of "''td''" "[]" "[]" kids w] by (simp add: void_tag_def)

lemma writes_text: "denotes w s \<Longrightarrow> writes_all (text_node s) w"
proof (cases s)
  case Nil
  moreover assume "denotes w s"
  ultimately have "unescape w = []" by (simp add: denotes_def)
  then have "w = []" by (subst (asm) unescape.simps) (auto split: list.splits option.splits)
  then show ?thesis by (simp add: Nil text_node_def writes_writes_all.none)
next
  case (Cons c s')
  moreover assume "denotes w s"
  ultimately show ?thesis by (simp add: text_node_def writes_one writes_writes_all.words)
qed

lemma uri_no_amp: "CHR ''&'' \<notin> set (encodeURIComponent s)"
proof -
  have "\<not> uri_unreserved CHR ''&''" by code_simp
  moreover have "CHR ''&'' \<notin> set (percent n)" if "n < 256" for n
  proof -
    have "''0123456789ABCDEF'' ! d \<noteq> CHR ''&''" if "d < 16" for d using lt16_cases [OF that] by (elim insertE) simp_all
    moreover have "n div 16 < 16" "n mod 16 < 16" using \<open>n < 256\<close> by auto
    ultimately show ?thesis by (auto simp: percent_def dest: sym)
  qed
  moreover have "192 + of_char c div 64 < (256 :: nat)" "128 + of_char c mod 64 < (256 :: nat)" for c :: char
  proof -
    have "(of_char c :: nat) < 256" by simp
    then have "of_char c div 64 < (64 :: nat)" by (intro less_mult_imp_div_less) linarith
    then show "192 + of_char c div 64 < (256 :: nat)" "128 + of_char c mod 64 < (256 :: nat)" by auto
  qed
  ultimately show ?thesis by (auto simp: encodeURIComponent_def Let_def split: if_splits)
qed

lemma denotes_uri: "harmless p \<Longrightarrow> CHR ''&'' \<notin> set p \<Longrightarrow> harmless q \<Longrightarrow> CHR ''&'' \<notin> set q \<Longrightarrow>
    denotes (p @ encodeURIComponent h @ q) (p @ encodeURIComponent h @ q)"
  using uri_no_amp by (intro denotes_plain) simp_all

lemma attrs_more:
  "denotes x v \<Longrightarrow> attrs_written as rest \<Longrightarrow> attrs_written ((k, v) # as) ('' '' @ k @ ''=\"'' @ x @ ''\"'' @ rest)"
  unfolding attrs_written.simps by (intro exI conjI, rule refl)

lemma host_link_written: "writes (query_anchor h) (host_link h)"
proof -
  have "denotes (''/query?ip='' @ encodeURIComponent h) (''/query?ip='' @ encodeURIComponent h)"
    using denotes_uri [of "''/query?ip=''" "[]" h] by simp
  then have "attrs_written [(''href'', ''/query?ip='' @ encodeURIComponent h)]
      ('' href=\"'' @ (''/query?ip='' @ encodeURIComponent h) @ ''\"'')" by simp
  from writes_writes_all.element [OF _ this writes_text [OF denotes_escape], of "''a''" h] show ?thesis
    by (simp add: query_anchor_def host_link_def void_tag_def)
qed

lemma links_written: "writes_all (ptr_links hs) (join ''<br>'' (map host_link hs))"
proof (induction hs rule: ptr_links.induct)
  case (3 h h' hs)
  have br: "writes (El ''br'' [] []) ''<br>''"
    using writes_writes_all.void [of "''br''" "[]" "[]"] by (simp add: void_tag_def)
  from writes_writes_all.more [OF host_link_written writes_writes_all.more [OF br 3]] show ?case by simp
qed (auto intro: writes_writes_all.none writes_one host_link_written)

lemma ptr_cell_written: "writes (fillPtrCell hs) (''<td>'' @ ptrCellHTML hs @ ''</td>'')"
proof (cases "hs = []")
  case True
  have "writes_all [Txt ''-''] ''-''" by (intro writes_one writes_writes_all.words denotes_plain) simp_all
  from writes_td [OF this] True show ?thesis by (simp add: fillPtrCell_def ptrCellHTML_def)
next
  case False
  have "writes (El ''tt'' [] (ptr_links hs)) (''<tt>'' @ join ''<br>'' (map host_link hs) @ ''</tt>'')"
    using writes_writes_all.element [OF _ _ links_written, of "''tt''" "[]" "[]"] by (simp add: void_tag_def)
  from writes_td [OF writes_one [OF this]] False show ?thesis by (simp add: fillPtrCell_def ptrCellHTML_def)
qed

lemma country_cell_written:
  "writes (fillCountryCell (w_country row) (w_countryCode row)) (''<td>'' @ countryCellHTML row @ ''</td>'')"
proof -
  let ?c = "w_country row" and ?code = "w_countryCode row"
  have "writes_all [Txt (if ?c \<noteq> [] then ?c else ''-'')] (if escapeHTML ?c \<noteq> [] then escapeHTML ?c else ''-'')"
  proof (cases "?c = []")
    case True
    have "denotes ''-'' ''-''" by (intro denotes_plain) simp_all
    with True show ?thesis by (simp add: escapeHTML_def writes_one writes_writes_all.words)
  next
    case False
    have "escapeHTML ?c \<noteq> []" using denotes_escape [of ?c] False by (auto simp: denotes_def unescape.simps)
    with False show ?thesis using denotes_escape by (simp add: writes_one writes_writes_all.words)
  qed
  note label = this
  have img: "writes_all
      [El ''img'' [(''src'', ''/static/flags/'' @ encodeURIComponent ?code @ ''.gif''), (''alt'', ?code),
         (''title'', ?c), (''height'', ''11'')] [], Txt '' '']
      (''<img src=\"/static/flags/'' @ encodeURIComponent ?code @ ''.gif\" alt=\"'' @
         escapeHTML ?code @ ''\" title=\"'' @ escapeHTML ?c @ ''\" height=\"11\"> '')"
  proof -
    let ?src = "''/static/flags/'' @ encodeURIComponent ?code @ ''.gif''"
    have src: "denotes ?src ?src" by (rule denotes_uri) simp_all
    have height: "denotes ''11'' ''11''" and space: "denotes '' '' '' ''" by (intro denotes_plain; simp)+
    have none: "attrs_written [] []" by simp
    have sp: "writes (Txt '' '') '' ''" by (rule writes_writes_all.words [OF space])
    note attrs = attrs_more [OF src attrs_more [OF denotes_escape attrs_more [OF denotes_escape attrs_more [OF height none]]],
        of "''src''" "''alt''" ?code "''title''" ?c "''height''"]
    from writes_writes_all.more [OF writes_writes_all.void [OF _ attrs, of "''img''"] writes_one [OF sp]]
    show ?thesis by (simp add: void_tag_def)
  qed
  show ?thesis
  proof (cases "?code = []")
    case True
    from writes_td [OF label] True show ?thesis by (simp add: fillCountryCell_def countryCellHTML_def)
  next
    case False
    from writes_td [OF writes_all_append [OF img label]] False show ?thesis
      by (simp add: fillCountryCell_def countryCellHTML_def)
  qed
qed

lemma text_cell_written: "writes (text_cell s) (''<td>'' @ escapeHTML s @ ''</td>'')"
  unfolding text_cell_def by (intro writes_td writes_text denotes_escape)


section \<open>The texts around the table\<close>

record page_texts =
  pt_visibleCount :: nat
  pt_pageInfo :: string
  pt_prevDisabled :: bool
  pt_nextDisabled :: bool

text \<open>What renderPage writes once it has brought the page number into range.\<close>

definition page_texts :: "home \<Rightarrow> page_texts" where
  "page_texts h =
     (let n = int (length (matched h));
          start = (page h - 1) * PAGE_SIZE;
          end = min (start + PAGE_SIZE) n
      in \<lparr>pt_visibleCount = length (matched h),
          pt_pageInfo = ''Showing '' @ int_text (if matched h \<noteq> [] then start + 1 else 0) @ ''-'' @ int_text end
            @ '' of '' @ int_text n,
          pt_prevDisabled = (page h \<le> 1), pt_nextDisabled = (totalPages h \<le> page h)\<rparr>)"

text \<open>The count of the family that filter shows, and the button that clears the search.\<close>

definition family_count :: "string \<Rightarrow> home \<Rightarrow> nat" where
  "family_count family h =
     length (filter (\<lambda>r. if family = ''6'' then str_includes (w_ip r) '':'' else \<not> str_includes (w_ip r) '':'') (allRows h))"

definition clear_search :: "string \<Rightarrow> home \<Rightarrow> home" where
  "clear_search family h = filter_page [] family h"

text \<open>The rows that match are among those counted.\<close>

lemma matched_le_count: "length (matched (filter_page q family h)) \<le> family_count family h"
proof -
  let ?A = "\<lambda>r. if family = ''6'' then str_includes (w_ip r) '':'' else \<not> str_includes (w_ip r) '':''"
  have "filter (row_matches q family) rows = filter (\<lambda>r. str_includes (haystack r) (to_lower (trim q))) (filter ?A rows)" for rows
    unfolding filter_filter by (rule filter_cong) (auto simp: row_matches_def Let_def)
  then show ?thesis
    using length_filter_le [of _ "filter ?A (allRows h)"] by (simp add: filter_page_def family_count_def Let_def del: filter_filter)
qed

text \<open>The text after the label of column \<open>col\<close>: blanks, or two blanks and an arrow.\<close>

definition arrow_text :: "home \<Rightarrow> string \<Rightarrow> dom list" where
  "arrow_text h col =
     (let blank = CHR 0xA0 in
      if sortCol h = Some col \<and> sortDir h \<noteq> 2
      then [Txt [blank, blank], Sign (if sortDir h = 1 then 0x2193 else 0x2191)]
      else [Txt [blank, blank, blank]])"

record stats_texts =
  tt_totalKnownIPs :: string
  tt_totalChecks :: string
  tt_lastCheck :: string

definition stats_texts :: "metadata \<Rightarrow> stats_texts" where
  "stats_texts data =
     \<lparr>tt_totalKnownIPs = int_text (m_totalKnownIPs data), tt_totalChecks = int_text (m_totalChecks data),
      tt_lastCheck = m_lastCheckAt data @ (if m_scanMode data \<noteq> [] then '' ('' @ m_scanMode data @ '')'' else [])\<rparr>"

text \<open>The status line: None while it is hidden.\<close>

definition status_line :: "api_row list \<Rightarrow> string option" where
  "status_line ips =
     (if ips \<noteq> [] then None else Some ''No data yet. Please run a scan and import the results first.'')"

definition pool_load_error :: "bool \<Rightarrow> string" where
  "pool_load_error cached =
     (if cached then ''Showing cached data -- could not reach the server to check for updates.''
      else ''Could not load data from the server.'')"

section \<open>Opening and reading the copy\<close>

text \<open>The events of one open request; the first that settles the promise decides.\<close>

datatype open_event = Upgrade_needed | Open_success | Open_error | Open_blocked

datatype open_result = Opening | Connected | Not_connected

record open_state =
  oc_result :: open_result
  oc_closed :: bool
  oc_copy :: idb

definition empty_idb :: idb where
  "empty_idb = \<lparr>i_rows = (\<lambda>_. None), i_meta = None\<rparr>"

definition open_step :: "open_event \<Rightarrow> open_state \<Rightarrow> open_state" where
  "open_step ev oc =
     (case ev of
        Upgrade_needed \<Rightarrow> oc\<lparr>oc_copy := empty_idb\<rparr>
      | Open_success \<Rightarrow>
          if oc_result oc \<noteq> Opening then oc\<lparr>oc_closed := True\<rparr> else oc\<lparr>oc_result := Connected\<rparr>
      | Open_error \<Rightarrow> if oc_result oc \<noteq> Opening then oc else oc\<lparr>oc_result := Not_connected\<rparr>
      | Open_blocked \<Rightarrow> if oc_result oc \<noteq> Opening then oc else oc\<lparr>oc_result := Not_connected\<rparr>)"

text \<open>Once settled the result stays, and a connection that comes later is closed.\<close>

lemma open_settled:
  assumes "oc_result oc \<noteq> Opening"
  shows "oc_result (fold open_step evs oc) = oc_result oc \<and>
    oc_closed (fold open_step evs oc) = (oc_closed oc \<or> Open_success \<in> set evs)"
  using assms
proof (induction evs arbitrary: oc)
  case (Cons ev evs)
  have "oc_result (open_step ev oc) = oc_result oc"
    "oc_closed (open_step ev oc) = (oc_closed oc \<or> ev = Open_success)"
    using Cons.prems by (simp_all add: open_step_def split: open_event.split)
  with Cons.IH [of "open_step ev oc"] Cons.prems show ?case by auto
qed simp

text \<open>\<open>getAll\<close> returns the rows in the order of their key, the address.\<close>

definition readCache :: "idb \<Rightarrow> (metadata \<times> api_row list) option" where
  "readCache d =
     (case i_meta d of
        None \<Rightarrow> None
      | Some meta \<Rightarrow> Some (meta, map (\<lambda>ip. the (i_rows d ip)) (sorted_list_of_set (dom (i_rows d)))))"

section \<open>Loading the page\<close>

definition blank_home :: home where
  "blank_home = \<lparr>allRows = [], matched = [], naturalOrder = [], page = 1, sortCol = None, sortDir = -1\<rparr>"

definition draw_data :: "string \<Rightarrow> string \<Rightarrow> (metadata \<times> api_row list) option \<Rightarrow> home \<Rightarrow> home" where
  "draw_data q family data h = (case data of None \<Rightarrow> h | Some (_, rows) \<Rightarrow> renderData q family rows h)"

text \<open>
  \<open>load\<close> once the copy is open: \<open>d0\<close> is the copy when it is read, \<open>d1\<close> when the transaction of
  the synchronisation runs, and \<open>tabs\<close> what other tabs do to it before it is read again. The
  result is the page and whether the error of showLoadError is shown.
\<close>

definition load_page ::
  "(string \<Rightarrow> js_date) \<Rightarrow> edge \<Rightarrow> edge \<Rightarrow> (int \<times> int) option \<Rightarrow> (int \<times> int) option \<Rightarrow> string \<Rightarrow> string
    \<Rightarrow> idb \<Rightarrow> idb \<Rightarrow> (idb \<Rightarrow> idb) \<Rightarrow> (tables, home \<times> string option) prog" where
  "load_page legacy edgeFull edgeChanges hit1 hit2 q family d0 d1 tabs =
     (let cache = readCache d0; first = draw_data q family cache blank_home in
      catching
        (andThen (syncCache legacy edgeFull edgeChanges hit1 hit2 (map_option fst cache)) (\<lambda>tx.
         let got = (case tx of Keep \<Rightarrow> cache | _ \<Rightarrow> readCache (tabs (run_tx tx d1))) in
         ret (if got \<noteq> None \<and> (cache = None \<or> map_option (m_version \<circ> fst) got \<noteq> map_option (m_version \<circ> fst) cache)
              then draw_data q family got first else first, None)))
        (\<lambda>_. ret (first, Some (pool_load_error (cache \<noteq> None)))))"

text \<open>Without IndexedDB.\<close>

definition loadWithoutCache ::
  "(string \<Rightarrow> js_date) \<Rightarrow> edge \<Rightarrow> (int \<times> int) option \<Rightarrow> string \<Rightarrow> string \<Rightarrow> (tables, home \<times> string option) prog" where
  "loadWithoutCache legacy edge hit q family =
     catching
       (andThen (fetchJSON (pool_get legacy edge hit [])) (\<lambda>data.
        case data of
          Payload b \<Rightarrow> ret (renderData q family (v_ips b) blank_home, None)
        | _ \<Rightarrow> throw TypeError))
       (\<lambda>_. ret (blank_home, Some (pool_load_error False)))"

section \<open>What is on the page\<close>

text \<open>The rows of the pool of one state, as the server shows them, in the order of the addresses.\<close>

definition pool_table :: "(string \<Rightarrow> js_date) \<Rightarrow> tables \<Rightarrow> ip_row list" where
  "pool_table legacy t = map (\<lambda>ip. shown legacy (the (view t ip))) (sorted_list_of_set (dom (view t)))"

lemma pool_table_cong: "view t = view u \<Longrightarrow> pool_table legacy t = pool_table legacy u"
  by (simp add: pool_table_def)

lemma finite_view: "finite (dom (view t))"
proof (rule finite_subset)
  show "dom (view t) \<subseteq> set (map p_ip (pool t))"
    by (auto simp: view_def dest!: find_row_Some)
qed simp

lemma read_holds:
  assumes "holds legacy d u"
  shows "\<exists>m rows. readCache d = Some (m, rows) \<and> m_version m = version u \<and> map decoded_row rows = pool_table legacy u"
proof -
  obtain m where m: "i_meta d = Some m" "m_version m = version u" using assms by (auto simp: holds_def)
  have rows: "i_rows d = snapshot legacy u" using assms by (simp add: holds_def)
  have dom: "dom (snapshot legacy u) = dom (view u)" by (auto simp: snapshot_def dom_def)
  have each: "decoded_row (the (snapshot legacy u ip)) = shown legacy (the (view u ip))" if "ip \<in> dom (view u)" for ip
    using that by (auto simp: snapshot_def shown_def decoded_api_row)
  have "set (sorted_list_of_set (dom (view u))) = dom (view u)" using finite_view by simp
  then have "map decoded_row (map (\<lambda>ip. the (i_rows d ip)) (sorted_list_of_set (dom (i_rows d)))) = pool_table legacy u"
    unfolding pool_table_def map_map rows dom by (intro map_cong refl) (use each in auto)
  with m show ?thesis by (auto simp: readCache_def)
qed

lemma allRows_draw: "allRows (renderData q family rows h) = map decoded_row rows"
  by (simp add: renderData_def filter_page_def Let_def)

lemma draw_cached: "draw_data q family (Some (m, rows)) h = renderData q family rows h"
  by (simp add: draw_data_def)



end
