(* ===== verification/Publish.thy ===== *)
theory Publish
  imports StoreRead JsNumber Html
begin

text \<open>
  src/src/publish.ts: the DNS records that point at the best addresses. The Cloudflare API is a
  parameter \<open>cf\<close>: the reply to a request and the state of the zone afterwards, or the error the
  request fails with. One synchronisation lists the records of a type, creates what is missing
  and then deletes what is not wanted any more. \<open>lastSyncAt\<close> of the module is explicit state.
\<close>

section \<open>The API\<close>

record dns_record =
  dr_id :: string
  dr_content :: string

datatype cf_request = List_records string | Create_record string string int | Delete_record string

record cf_response =
  cf_success :: bool
  cf_errors :: "(int \<times> string) list"
  cf_result :: "dns_record list"

type_synonym 'z cf = "cf_request \<Rightarrow> 'z \<Rightarrow> cf_response res \<times> 'z"

definition cfErr :: "string \<Rightarrow> (int \<times> string) list \<Rightarrow> js_error" where
  "cfErr op errors =
     (case errors of
        [] \<Rightarrow> JsError (op @ '': cloudflare reported failure with no error detail'')
      | (code, message) # _ \<Rightarrow> JsError (op @ '': cloudflare error '' @ int_text code @ '': '' @ message))"

text \<open>One call: a reply that is no success is thrown.\<close>

definition cf_call :: "'z cf \<Rightarrow> string \<Rightarrow> cf_request \<Rightarrow> 'z \<Rightarrow> dns_record list res \<times> 'z" where
  "cf_call cf op req z =
     (case cf req z of
        (Inl e, z') \<Rightarrow> (Inl e, z')
      | (Inr r, z') \<Rightarrow> (if cf_success r then Inr (cf_result r) else Inl (cfErr op (cf_errors r)), z'))"

fun cf_each :: "('x \<Rightarrow> 'z \<Rightarrow> dns_record list res \<times> 'z) \<Rightarrow> 'x list \<Rightarrow> 'z \<Rightarrow> unit res \<times> 'z" where
  "cf_each f [] z = (Inr (), z)"
| "cf_each f (x # xs) z = (case f x z of (Inl e, z') \<Rightarrow> (Inl e, z') | (Inr _, z') \<Rightarrow> cf_each f xs z')"

section \<open>One family\<close>

record publish_env =
  DNS_PUBLISH_NAME :: string
  DNS_PUBLISH_LIMIT :: string
  DNS_PUBLISH_TTL :: string

definition DEFAULT_TTL :: int where "DEFAULT_TTL = 300"
definition DEFAULT_LIMIT :: int where "DEFAULT_LIMIT = 4"

text \<open>A setting that is not a number from 0 on is outside the model.\<close>

definition number_setting :: "string \<Rightarrow> int \<Rightarrow> int" where
  "number_setting s dflt = (if s \<noteq> [] then (case parse_int10 s of Some n \<Rightarrow> n | None \<Rightarrow> 0) else dflt)"

text \<open>\<open>new Map(have.map((r) => [r.content, r.id]))\<close>: of records with one content the last id counts.\<close>

definition have_by_content :: "dns_record list \<Rightarrow> (string \<times> string) list" where
  "have_by_content have' = foldl (\<lambda>m r. al_put (dr_content r) (dr_id r) m) [] have'"

definition sync_records :: "'z cf \<Rightarrow> publish_env \<Rightarrow> string \<Rightarrow> string list \<Rightarrow> 'z \<Rightarrow> unit res \<times> 'z" where
  "sync_records cf env dnsType want z =
     (let wantSet = js_set want in
      case cf_call cf ''list'' (List_records dnsType) z of
        (Inl e, z') \<Rightarrow> (Inl e, z')
      | (Inr have', z') \<Rightarrow>
          let haveByContent = have_by_content have';
              ttl = number_setting (DNS_PUBLISH_TTL env) DEFAULT_TTL
          in (case cf_each (\<lambda>ip. cf_call cf ''create'' (Create_record dnsType ip ttl))
                (filter (\<lambda>ip. map_of haveByContent ip = None) wantSet) z' of
                (Inl e, z2) \<Rightarrow> (Inl e, z2)
              | (Inr _, z2) \<Rightarrow>
                  cf_each (\<lambda>id. cf_call cf ''delete'' (Delete_record id))
                    (map snd (filter (\<lambda>(content, id). content \<notin> set wantSet) haveByContent)) z2))"

definition syncFamily ::
  "'z cf \<Rightarrow> publish_env \<Rightarrow> int \<Rightarrow> string \<Rightarrow> tables d1 \<times> 'z \<Rightarrow> unit res \<times> (tables d1 \<times> 'z)" where
  "syncFamily cf env family dnsType s =
     (case topIPsForPublish family (nat (number_setting (DNS_PUBLISH_LIMIT env) DEFAULT_LIMIT)) (fst s) of
        (Inl e, db) \<Rightarrow> (Inl e, (db, snd s))
      | (Inr want, db) \<Rightarrow> (case sync_records cf env dnsType want (snd s) of (r, z) \<Rightarrow> (r, (db, z))))"

section \<open>Both families\<close>

definition MIN_SYNC_INTERVAL_MS :: int where "MIN_SYNC_INTERVAL_MS = 5 * 60 * 1000"

text \<open>The result, the new \<open>lastSyncAt\<close>, and the database and zone afterwards.\<close>

definition syncPublish ::
  "'z cf \<Rightarrow> publish_env \<Rightarrow> int \<Rightarrow> int \<Rightarrow> tables d1 \<times> 'z \<Rightarrow> unit res \<times> int \<times> (tables d1 \<times> 'z)" where
  "syncPublish cf env now lastSyncAt s =
     (if DNS_PUBLISH_NAME env = [] then (Inr (), lastSyncAt, s)
      else if now - lastSyncAt < MIN_SYNC_INTERVAL_MS then (Inr (), lastSyncAt, s)
      else case syncFamily cf env 4 ''A'' s of (r4, s4) \<Rightarrow>
           (case syncFamily cf env 6 ''AAAA'' s4 of (r6, s6) \<Rightarrow>
              (case r4 of Inl e \<Rightarrow> Inl e | Inr _ \<Rightarrow> r6, now, s6)))"

section \<open>The records converge\<close>

text \<open>
  What the API documents, for a reading \<open>records\<close> of the zone: list returns the records of the
  type, create adds one under a fresh id, delete removes the one with the id, and other types
  are left alone.
\<close>

definition cf_documented :: "'z cf \<Rightarrow> ('z \<Rightarrow> string \<Rightarrow> dns_record list) \<Rightarrow> bool" where
  "cf_documented cf records \<longleftrightarrow>
     (\<forall>z ty. \<exists>r. cf (List_records ty) z = (Inr r, z) \<and> cf_success r \<and> cf_result r = records z ty)
     \<and> (\<forall>z ty c ttl. \<exists>r z' new. cf (Create_record ty c ttl) z = (Inr r, z') \<and> cf_success r
          \<and> (\<forall>ty'. new \<notin> dr_id ` set (records z ty'))
          \<and> records z' = (records z)(ty := records z ty @ [\<lparr>dr_id = new, dr_content = c\<rparr>]))
     \<and> (\<forall>z id. \<exists>r z'. cf (Delete_record id) z = (Inr r, z') \<and> cf_success r
          \<and> records z' = (\<lambda>ty. filter (\<lambda>d. dr_id d \<noteq> id) (records z ty)))"

lemma list_call:
  assumes "cf_documented cf records"
  shows "cf_call cf op (List_records ty) z = (Inr (records z ty), z)"
proof -
  from assms obtain r where "cf (List_records ty) z = (Inr r, z)" "cf_success r" "cf_result r = records z ty"
    unfolding cf_documented_def by blast
  then show ?thesis by (simp add: cf_call_def)
qed

lemma create_call:
  assumes "cf_documented cf records"
  obtains z1 new where "cf_call cf op (Create_record ty c ttl) z = (Inr (cf_result (projr (fst (cf (Create_record ty c ttl) z)))), z1)"
    and "\<forall>ty'. new \<notin> dr_id ` set (records z ty')"
    and "records z1 = (records z)(ty := records z ty @ [\<lparr>dr_id = new, dr_content = c\<rparr>])"
proof -
  from assms have "\<exists>r z1 new. cf (Create_record ty c ttl) z = (Inr r, z1) \<and> cf_success r
      \<and> (\<forall>ty'. new \<notin> dr_id ` set (records z ty'))
      \<and> records z1 = (records z)(ty := records z ty @ [\<lparr>dr_id = new, dr_content = c\<rparr>])"
    unfolding cf_documented_def by blast
  then obtain r z1 new where 1: "cf (Create_record ty c ttl) z = (Inr r, z1)" "cf_success r"
    "\<forall>ty'. new \<notin> dr_id ` set (records z ty')"
    "records z1 = (records z)(ty := records z ty @ [\<lparr>dr_id = new, dr_content = c\<rparr>])" by (elim exE conjE)
  have "cf_call cf op (Create_record ty c ttl) z = (Inr (cf_result (projr (fst (cf (Create_record ty c ttl) z)))), z1)"
    by (simp add: cf_call_def 1(1,2))
  from that [OF this 1(3,4)] show thesis .
qed

lemma delete_call:
  assumes "cf_documented cf records"
  obtains z1 where "cf_call cf op (Delete_record i) z = (Inr (cf_result (projr (fst (cf (Delete_record i) z)))), z1)"
    and "records z1 = (\<lambda>ty. filter (\<lambda>d. dr_id d \<noteq> i) (records z ty))"
proof -
  from assms have "\<exists>r z1. cf (Delete_record i) z = (Inr r, z1) \<and> cf_success r
      \<and> records z1 = (\<lambda>ty. filter (\<lambda>d. dr_id d \<noteq> i) (records z ty))"
    unfolding cf_documented_def by blast
  then obtain r z1 where 1: "cf (Delete_record i) z = (Inr r, z1)" "cf_success r"
    "records z1 = (\<lambda>ty. filter (\<lambda>d. dr_id d \<noteq> i) (records z ty))" by (elim exE conjE)
  have "cf_call cf op (Delete_record i) z = (Inr (cf_result (projr (fst (cf (Delete_record i) z)))), z1)"
    by (simp add: cf_call_def 1(1,2))
  from that [OF this 1(3)] show thesis .
qed

lemma cf_each_step: "f x z = (Inr r, z1) \<Longrightarrow> cf_each f (x # xs) z = cf_each f xs z1"
  by simp

lemma create_calls:
  assumes "cf_documented cf records"
  shows "\<exists>z' new. cf_each (\<lambda>ip. cf_call cf op (Create_record ty ip ttl)) cs z = (Inr (), z')
    \<and> records z' = (records z)(ty := records z ty @ new) \<and> map dr_content new = cs
    \<and> (\<forall>ty'. dr_id ` set new \<inter> dr_id ` set (records z ty') = {})"
proof (induction cs arbitrary: z)
  case Nil
  show ?case by (intro exI [of _ z] exI [of _ "[]"]) simp
next
  case (Cons c cs)
  obtain z1 new where 1: "cf_call cf op (Create_record ty c ttl) z = (Inr (cf_result (projr (fst (cf (Create_record ty c ttl) z)))), z1)"
    "\<forall>ty'. new \<notin> dr_id ` set (records z ty')"
    "records z1 = (records z)(ty := records z ty @ [\<lparr>dr_id = new, dr_content = c\<rparr>])"
    by (rule create_call [OF assms])
  from Cons.IH [of z1] obtain z2 news where 2: "cf_each (\<lambda>ip. cf_call cf op (Create_record ty ip ttl)) cs z1 = (Inr (), z2)"
    "records z2 = (records z1)(ty := records z1 ty @ news)" "map dr_content news = cs"
    "\<forall>ty'. dr_id ` set news \<inter> dr_id ` set (records z1 ty') = {}" by (elim exE conjE)
  have run: "cf_each (\<lambda>ip. cf_call cf op (Create_record ty ip ttl)) (c # cs) z = (Inr (), z2)"
    using cf_each_step [where f = "\<lambda>ip. cf_call cf op (Create_record ty ip ttl)", OF 1(1)] 2(1) by (rule trans)
  have recs: "records z2 = (records z)(ty := records z ty @ \<lparr>dr_id = new, dr_content = c\<rparr> # news)"
    by (simp add: 2(2) 1(3))
  have "dr_id ` set (records z ty') \<subseteq> dr_id ` set (records z1 ty')" for ty' by (auto simp: 1(3))
  with 2(4) have "\<forall>ty'. dr_id ` set news \<inter> dr_id ` set (records z ty') = {}" by blast
  with 1(2) have fresh: "\<forall>ty'. dr_id ` set (\<lparr>dr_id = new, dr_content = c\<rparr> # news) \<inter> dr_id ` set (records z ty') = {}"
    by simp
  have "map dr_content (\<lparr>dr_id = new, dr_content = c\<rparr> # news) = c # cs" by (simp add: 2(3))
  with run recs fresh show ?case by (intro exI conjI)
qed

lemma delete_calls:
  assumes "cf_documented cf records"
  shows "\<exists>z'. cf_each (\<lambda>id. cf_call cf op (Delete_record id)) ids z = (Inr (), z')
    \<and> records z' = (\<lambda>ty. filter (\<lambda>d. dr_id d \<notin> set ids) (records z ty))"
proof (induction ids arbitrary: z)
  case (Cons i ids)
  obtain z1 where 1: "cf_call cf op (Delete_record i) z = (Inr (cf_result (projr (fst (cf (Delete_record i) z)))), z1)"
    "records z1 = (\<lambda>ty. filter (\<lambda>d. dr_id d \<noteq> i) (records z ty))" by (rule delete_call [OF assms])
  from Cons.IH [of z1] obtain z2 where 2: "cf_each (\<lambda>id. cf_call cf op (Delete_record id)) ids z1 = (Inr (), z2)"
    "records z2 = (\<lambda>ty. filter (\<lambda>d. dr_id d \<notin> set ids) (records z1 ty))" by (elim exE conjE)
  have "cf_each (\<lambda>id. cf_call cf op (Delete_record id)) (i # ids) z = (Inr (), z2)"
    using cf_each_step [where f = "\<lambda>id. cf_call cf op (Delete_record id)", OF 1(1)] 2(1) by (rule trans)
  moreover have "records z2 = (\<lambda>ty. filter (\<lambda>d. dr_id d \<notin> set (i # ids)) (records z ty))"
    by (simp add: 1(2) 2(2) conj_commute)
  ultimately show ?case by (intro exI conjI)
qed simp

lemma have_map:
  "distinct (map dr_content rs) \<Longrightarrow> have_by_content rs = map (\<lambda>r. (dr_content r, dr_id r)) rs"
proof -
  have "al_put k v m = m @ [(k, v)]" if "k \<notin> fst ` set m" for k :: string and v :: string and m
    using that by (induction m) auto
  then show "distinct (map dr_content rs) \<Longrightarrow> have_by_content rs = map (\<lambda>r. (dr_content r, dr_id r)) rs"
    by (induction rs rule: rev_induct) (auto simp: have_by_content_def image_image)
qed

text \<open>What one run asks for, when no two records of the type share their content.\<close>

definition missing :: "dns_record list \<Rightarrow> string list \<Rightarrow> string list" where
  "missing rs want = filter (\<lambda>ip. ip \<notin> dr_content ` set rs) (js_set want)"

definition unwanted :: "dns_record list \<Rightarrow> string list \<Rightarrow> string list" where
  "unwanted rs want = map dr_id (filter (\<lambda>d. dr_content d \<notin> set want) rs)"

lemma sync_records_run:
  assumes "cf_documented cf records" "distinct (map dr_content (records z ty))"
  shows "sync_records cf env ty want z =
    (case cf_each (\<lambda>ip. cf_call cf ''create'' (Create_record ty ip (number_setting (DNS_PUBLISH_TTL env) DEFAULT_TTL)))
       (missing (records z ty) want) z of
       (Inl e, z2) \<Rightarrow> (Inl e, z2)
     | (Inr _, z2) \<Rightarrow> cf_each (\<lambda>id. cf_call cf ''delete'' (Delete_record id)) (unwanted (records z ty) want) z2)"
proof -
  have "filter (\<lambda>ip. map_of (map (\<lambda>r. (dr_content r, dr_id r)) (records z ty)) ip = None) (js_set want)
      = missing (records z ty) want"
    by (simp add: missing_def map_of_eq_None_iff image_image)
  moreover have "map snd (filter (\<lambda>(content, id). content \<notin> set (js_set want)) (map (\<lambda>r. (dr_content r, dr_id r)) (records z ty)))
      = unwanted (records z ty) want"
    by (simp add: unwanted_def filter_map comp_def)
  ultimately show ?thesis
    by (simp only: sync_records_def Let_def list_call [OF assms(1)] have_map [OF assms(2)] prod.case sum.case)
qed

lemma unwanted_removed:
  assumes "distinct (map dr_id rs)"
  shows "filter (\<lambda>d. dr_id d \<notin> set (unwanted rs want)) rs = filter (\<lambda>d. dr_content d \<in> set want) rs"
proof (rule filter_cong [OF refl])
  fix d assume "d \<in> set rs"
  with assms show "(dr_id d \<notin> set (unwanted rs want)) = (dr_content d \<in> set want)"
    by (auto simp: unwanted_def distinct_map dest: inj_onD)
qed

lemma unwanted_others:
  assumes "dr_id ` set xs \<inter> dr_id ` set rs = {}"
  shows "filter (\<lambda>d. dr_id d \<notin> set (unwanted rs want)) xs = xs"
  using assms by (intro filter_True) (auto simp: unwanted_def)

lemma missing_set: "set (missing rs want) = set want - dr_content ` set rs"
  by (auto simp: missing_def)

lemma nothing_to_do:
  assumes "dr_content ` set rs = set want"
  shows "missing rs want = []" "unwanted rs want = []"
  using assms by (auto simp: missing_def unwanted_def filter_empty_conv)

lemma sync_records_result:
  assumes "cf_documented cf records"
    and "distinct (map dr_content (records z ty))" "distinct (map dr_id (records z ty))"
    and "\<forall>ty'. ty' \<noteq> ty \<longrightarrow> dr_id ` set (records z ty') \<inter> dr_id ` set (records z ty) = {}"
  obtains z' new where "sync_records cf env ty want z = (Inr (), z')"
    and "records z' = (records z)(ty := filter (\<lambda>d. dr_content d \<in> set want) (records z ty) @ new)"
    and "map dr_content new = missing (records z ty) want"
    and "dr_id ` set new \<inter> dr_id ` set (records z ty) = {}"
proof -
  let ?rs = "records z ty"
  obtain z1 new where 1:
    "cf_each (\<lambda>ip. cf_call cf ''create'' (Create_record ty ip (number_setting (DNS_PUBLISH_TTL env) DEFAULT_TTL)))
       (missing ?rs want) z = (Inr (), z1)"
    "records z1 = (records z)(ty := ?rs @ new)" "map dr_content new = missing ?rs want"
    "\<forall>ty'. dr_id ` set new \<inter> dr_id ` set (records z ty') = {}"
    using create_calls [OF assms(1), of "''create''" ty "number_setting (DNS_PUBLISH_TTL env) DEFAULT_TTL" "missing ?rs want" z]
    by (elim exE conjE)
  obtain z2 where 2: "cf_each (\<lambda>id. cf_call cf ''delete'' (Delete_record id)) (unwanted ?rs want) z1 = (Inr (), z2)"
    "records z2 = (\<lambda>ty. filter (\<lambda>d. dr_id d \<notin> set (unwanted ?rs want)) (records z1 ty))"
    using delete_calls [OF assms(1), of "''delete''" "unwanted ?rs want" z1] by (elim exE conjE)
  have run: "sync_records cf env ty want z = (Inr (), z2)"
    by (simp only: sync_records_run [OF assms(1,2)] 1(1) 2(1) prod.case sum.case)
  have fresh: "dr_id ` set new \<inter> dr_id ` set ?rs = {}" using 1(4) by (rule spec)
  have "records z2 ty' = ((records z)(ty := filter (\<lambda>d. dr_content d \<in> set want) ?rs @ new)) ty'" for ty'
  proof (cases "ty' = ty")
    case True
    then show ?thesis
      by (simp only: 2(2) 1(2) fun_upd_same filter_append unwanted_removed [OF assms(3)] unwanted_others [OF fresh])
  next
    case False
    with assms(4) have "dr_id ` set (records z ty') \<inter> dr_id ` set ?rs = {}" by simp
    from unwanted_others [OF this, of want] False show ?thesis by (simp add: 2(2) 1(2))
  qed
  then have "records z2 = (records z)(ty := filter (\<lambda>d. dr_content d \<in> set want) ?rs @ new)" by (rule ext)
  from that [OF run this 1(3) fresh] show thesis .
qed


text \<open>A zone as a list of typed records, with ids longer than all the ids there are.\<close>

definition zone_records :: "(string \<times> dns_record) list \<Rightarrow> string \<Rightarrow> dns_record list" where
  "zone_records z ty = map snd (filter (\<lambda>(t, _). t = ty) z)"

definition fresh_id :: "(string \<times> dns_record) list \<Rightarrow> string" where
  "fresh_id z = replicate (Suc (sum_list (map (length \<circ> dr_id \<circ> snd) z))) (CHR ''r'')"

fun zone_api :: "(string \<times> dns_record) list cf" where
  "zone_api (List_records ty) z = (Inr \<lparr>cf_success = True, cf_errors = [], cf_result = zone_records z ty\<rparr>, z)"
| "zone_api (Create_record ty c ttl) z =
     (Inr \<lparr>cf_success = True, cf_errors = [], cf_result = []\<rparr>, z @ [(ty, \<lparr>dr_id = fresh_id z, dr_content = c\<rparr>)])"
| "zone_api (Delete_record i) z =
     (Inr \<lparr>cf_success = True, cf_errors = [], cf_result = []\<rparr>, filter (\<lambda>(_, d). dr_id d \<noteq> i) z)"

lemma fresh_id_fresh: "fresh_id z \<notin> dr_id ` set (zone_records z ty)"
proof
  assume "fresh_id z \<in> dr_id ` set (zone_records z ty)"
  then obtain t d where d: "(t, d) \<in> set z" "fresh_id z = dr_id d" by (auto simp: zone_records_def)
  then have "length (dr_id d) \<in> set (map (length \<circ> dr_id \<circ> snd) z)" by force
  from member_le_sum_list [OF this] have "length (dr_id d) < length (fresh_id z)" by (simp add: fresh_id_def)
  with d(2) show False by simp
qed

lemma zone_created:
  "zone_records (z @ [(ty, d)]) = (zone_records z)(ty := zone_records z ty @ [d])"
  by (rule ext) (simp add: zone_records_def)

lemma zone_deleted:
  "zone_records (filter (\<lambda>(_, d). dr_id d \<noteq> i) z) = (\<lambda>ty. filter (\<lambda>d. dr_id d \<noteq> i) (zone_records z ty))"
proof
  fix ty
  show "zone_records (filter (\<lambda>(_, d). dr_id d \<noteq> i) z) ty = filter (\<lambda>d. dr_id d \<noteq> i) (zone_records z ty)"
    unfolding zone_records_def by (induction z) auto
qed

lemma zone_api_documented: "cf_documented zone_api zone_records"
  unfolding cf_documented_def
proof (intro conjI allI)
  fix z :: "(string \<times> dns_record) list" and ty :: string
  show "\<exists>r. zone_api (List_records ty) z = (Inr r, z) \<and> cf_success r \<and> cf_result r = zone_records z ty"
    by simp
next
  fix z :: "(string \<times> dns_record) list" and ty c :: string and ttl :: int
  show "\<exists>r z' new. zone_api (Create_record ty c ttl) z = (Inr r, z') \<and> cf_success r
      \<and> (\<forall>ty'. new \<notin> dr_id ` set (zone_records z ty'))
      \<and> zone_records z' = (zone_records z)(ty := zone_records z ty @ [\<lparr>dr_id = new, dr_content = c\<rparr>])"
    by (intro exI conjI allI, rule zone_api.simps, simp, rule fresh_id_fresh, rule zone_created)
next
  fix z :: "(string \<times> dns_record) list" and i :: string
  show "\<exists>r z'. zone_api (Delete_record i) z = (Inr r, z') \<and> cf_success r
      \<and> zone_records z' = (\<lambda>ty. filter (\<lambda>d. dr_id d \<noteq> i) (zone_records z ty))"
    by (intro exI conjI, rule zone_api.simps, simp, rule zone_deleted)
qed

definition sample_zone :: "(string \<times> dns_record) list" where
  "sample_zone =
     [(''A'', \<lparr>dr_id = ''a'', dr_content = ''1.1.1.1''\<rparr>), (''A'', \<lparr>dr_id = ''b'', dr_content = ''3.3.3.3''\<rparr>)]"

lemma sample_zone_records:
  "zone_records sample_zone ''A'' = [\<lparr>dr_id = ''a'', dr_content = ''1.1.1.1''\<rparr>, \<lparr>dr_id = ''b'', dr_content = ''3.3.3.3''\<rparr>]"
  "ty' \<noteq> ''A'' \<Longrightarrow> zone_records sample_zone ty' = []"
  by (auto simp: zone_records_def sample_zone_def)


end
