(* ===== verification/HistoryView.thy ===== *)
theory HistoryView
  imports Client HomeView Handlers
begin

text \<open>
  The browser side of the query page, src/public/static/query.js: the button that asks for a
  probe, the copy of the check history of one address in IndexedDB with its synchronisation
  against GET /api/history, and the table that pages through it. Drawing is a value, the text
  and attributes of the cells; the fixed Chinese notes of the button are constructors.
\<close>

section \<open>The probe button\<close>

datatype probe_note =
    Error_note string
  | Mixed_note
  | Reachable_note int
  | Unreachable_note
  | Failed_note

text \<open>
  The note after a click and whether the history is asked to refresh. A handler that throws is
  answered without JSON, which rejects like a failed request.
\<close>

definition probe_click :: "check_reply reply res \<Rightarrow> probe_note \<times> bool" where
  "probe_click outcome =
     (case outcome of
        Inl _ \<Rightarrow> (Failed_note, False)
      | Inr r \<Rightarrow>
          (case body r of
             Failure e \<Rightarrow> Error_note e
           | Probed p \<Rightarrow>
               if pb_mixed p then Mixed_note
               else if pb_ok p then Reachable_note (or_else (pb_rttMs p) 0)
               else Unreachable_note, True))"

section \<open>One row of the table\<close>

definition reasonLabels :: "(string \<times> string) list" where
  "reasonLabels =
     [(''dial'', ''tcp: TCP dial timeout''),
      (''handshake'', ''tls: TLS handshake failed''),
      (''cn'', ''tls: Certificate CN mismatch''),
      (''http'', ''http: HTTP timeout''),
      (''status'', ''http: HTTP status code mismatch''),
      (''ping'', ''icmp: ICMP ping timeout''),
      (''rtt'', ''rtt: RTT out of range'')]"

text \<open>\<open>/^(scan|recheck):(.*)$/\<close>; the dot matches anything but a line terminator.\<close>

definition one_line :: "string \<Rightarrow> bool" where
  "one_line s \<longleftrightarrow> CHR 0x0A \<notin> set s \<and> CHR 0x0D \<notin> set s"

definition originTag :: "check_json \<Rightarrow> string \<times> string" where
  "originTag check =
     (let r = u_reason check in
      case strip_prefix ''scan:'' r of
        Some rest \<Rightarrow> if one_line rest then (''[scan] '', rest) else ([], r)
      | None \<Rightarrow>
          (case strip_prefix ''recheck:'' r of
             Some rest \<Rightarrow> if one_line rest then (''[recheck] '', rest) else ([], r)
           | None \<Rightarrow> ([], r)))"

text \<open>
  \<open>reasonLabels[reason] || reason\<close>. Names that every object inherits, such as constructor, are
  no reasons of the scanner and are left out.
\<close>

definition reasonLabel :: "check_json \<Rightarrow> string" where
  "reasonLabel check =
     (let (tag, reason) = originTag check in
      if reason = ''ping''
      then tag @ (if str_includes (u_detail check) ''rtt_too_low'' then ''icmp: RTT too low'' else ''icmp: ICMP ping timeout'')
      else tag @ or_else (map_of reasonLabels reason) reason)"

definition history_time :: "(string \<Rightarrow> js_date) \<Rightarrow> string option \<Rightarrow> string" where
  "history_time legacy value =
     (if or_else value [] = [] then ''-''
      else case new_date legacy (or_else value []) of
        Invalid_Date \<Rightarrow> ''-''
      | Time t \<Rightarrow> formatTime (Some (Time t)))"

text \<open>The cell of the reason: text, a line break, the detail in a fixed font.\<close>

datatype piece = Label string | Break | Detail string

record history_line =
  hl_unreachable :: bool
  hl_time :: string
  hl_color :: string
  hl_title :: string
  hl_reason :: "piece list"
  hl_rtt :: string

definition reason_cell :: "check_json \<Rightarrow> piece list" where
  "reason_cell check =
     (let label = (if u_ok check then trim (fst (originTag check)) else reasonLabel check);
          detail = u_detail check in
      if label = [] \<and> detail = [] then [Label ''-'']
      else (if label \<noteq> [] then [Label label] else [])
        @ (if label \<noteq> [] \<and> detail \<noteq> [] then [Break] else [])
        @ (if detail \<noteq> [] then [Detail detail] else []))"

definition history_line :: "(string \<Rightarrow> js_date) \<Rightarrow> check_json \<Rightarrow> history_line" where
  "history_line legacy check =
     \<lparr>hl_unreachable = (\<not> u_ok check), hl_time = history_time legacy (u_checkedAt check),
      hl_color = (if u_ok check then ''#008000'' else ''#CC0000''),
      hl_title = (if u_ok check then ''Reachable'' else ''Unreachable''),
      hl_reason = reason_cell check,
      hl_rtt = (if u_rttMs check \<noteq> 0 then int_text (u_rttMs check) @ '' ms'' else ''-'')\<rparr>"

section \<open>Paging\<close>

record history_snapshot =
  hs_ip :: string
  hs_version :: int
  hs_checks :: "check_json list"

record history_tab =
  ht_cache :: "history_snapshot option"
  ht_checks :: "check_json list"
  ht_page :: int

record history_table =
  hv_rows :: "history_line list"
  hv_count :: nat
  hv_pageInfo :: string
  hv_prevDisabled :: bool
  hv_nextDisabled :: bool

datatype history_view = No_history | Table history_table

definition HISTORY_PAGE_SIZE :: int where
  "HISTORY_PAGE_SIZE = 100"

definition historyPages :: "history_tab \<Rightarrow> int" where
  "historyPages tab = max 1 ((int (length (ht_checks tab)) + HISTORY_PAGE_SIZE - 1) div HISTORY_PAGE_SIZE)"

definition render_history :: "(string \<Rightarrow> js_date) \<Rightarrow> history_tab \<Rightarrow> history_tab \<times> history_view" where
  "render_history legacy tab =
     (if ht_checks tab = [] then (tab, No_history)
      else
        let total = historyPages tab;
            p = (if ht_page tab > total then total else ht_page tab);
            p = (if p < 1 then 1 else p);
            start = (p - 1) * HISTORY_PAGE_SIZE;
            end = min (int (length (ht_checks tab))) (start + HISTORY_PAGE_SIZE)
        in (tab\<lparr>ht_page := p\<rparr>,
            Table \<lparr>hv_rows = map (\<lambda>i. history_line legacy (ht_checks tab ! nat i)) [start..end - 1],
                   hv_count = length (ht_checks tab),
                   hv_pageInfo = ''Showing '' @ int_text (start + 1) @ ''-'' @ int_text end @ '' of ''
                     @ int_text (int (length (ht_checks tab))),
                   hv_prevDisabled = (p \<le> 1), hv_nextDisabled = (total \<le> p)\<rparr>))"

definition history_prev :: "(string \<Rightarrow> js_date) \<Rightarrow> history_tab \<Rightarrow> history_tab \<times> history_view" where
  "history_prev legacy tab = render_history legacy (tab\<lparr>ht_page := ht_page tab - 1\<rparr>)"

definition history_next :: "(string \<Rightarrow> js_date) \<Rightarrow> history_tab \<Rightarrow> history_tab \<times> history_view" where
  "history_next legacy tab = render_history legacy (tab\<lparr>ht_page := ht_page tab + 1\<rparr>)"

section \<open>The copy and its synchronisation\<close>

type_synonym history_idb = "string \<Rightarrow> history_snapshot option"

text \<open>One read-write transaction: a newer copy, saved by another tab, is kept unless forced.\<close>

definition write_history :: "string \<Rightarrow> history_snapshot \<Rightarrow> bool \<Rightarrow> history_idb \<Rightarrow> history_snapshot \<times> history_idb" where
  "write_history ip copy force idb =
     (case idb ip of
        Some current \<Rightarrow>
          if \<not> force \<and> hs_version copy < hs_version current then (current, idb)
          else (copy, idb(ip \<mapsto> copy))
      | None \<Rightarrow> (copy, idb(ip \<mapsto> copy)))"

definition history_params :: "string \<Rightarrow> history_snapshot option \<Rightarrow> params" where
  "history_params ip cache =
     (case cache of
        None \<Rightarrow> [(''ip'', ip)]
      | Some c \<Rightarrow> [(''ip'', ip), (''since'', int_text (hs_version c))])"

definition fetch_history ::
  "(string \<Rightarrow> js_date) \<Rightarrow> (params \<Rightarrow> history_body option) \<Rightarrow> params \<Rightarrow> (tables, history_body) prog" where
  "fetch_history legacy edge ps =
     andThen (history_get legacy edge ps) (\<lambda>out.
     if 200 \<le> status (fst out) \<and> status (fst out) \<le> 299
     then (case body (fst out) of History b \<Rightarrow> ret b | _ \<Rightarrow> throw TypeError)
     else throw (JsError ''bad status''))"

text \<open>
  \<open>idb\<close> is the store when the write transaction runs, None where IndexedDB cannot be used. The
  result is the fresh copy and the store.
\<close>

definition sync_history ::
  "(string \<Rightarrow> js_date) \<Rightarrow> (params \<Rightarrow> history_body option) \<Rightarrow> string \<Rightarrow> history_snapshot option \<Rightarrow> history_idb option
    \<Rightarrow> (tables, history_snapshot \<times> history_idb option) prog" where
  "sync_history legacy edge ip cache idb =
     andThen (fetch_history legacy edge (history_params ip cache)) (\<lambda>data.
     let reset = or_else (n_reset data) False;
         copy = \<lparr>hs_ip = ip, hs_version = n_version data, hs_checks = n_checks data\<rparr>;
         save = (case idb of
             None \<Rightarrow> (copy, None)
           | Some copies \<Rightarrow> let (saved, copies') = write_history ip copy reset copies in (saved, Some copies'))
     in ret (case cache of
          None \<Rightarrow> save
        | Some c \<Rightarrow>
            if n_version data = hs_version c then (c, idb)
            else if \<not> reset \<and> n_version data < hs_version c then (c, idb)
            else save))"

text \<open>The tab shows the fresh copy from its first page when the version differs.\<close>

definition show_history :: "history_snapshot \<Rightarrow> history_tab \<Rightarrow> history_tab" where
  "show_history got tab =
     (if ht_cache tab = None \<or> map_option hs_version (ht_cache tab) \<noteq> Some (hs_version got)
      then \<lparr>ht_cache = Some got, ht_checks = hs_checks got, ht_page = 1\<rparr>
      else tab)"

definition load_error :: "history_tab \<Rightarrow> string" where
  "load_error tab =
     (if ht_cache tab \<noteq> None then ''Showing cached history -- could not reach the server to check for updates.''
      else ''Could not load check history from the server.'')"

text \<open>
  Opening the page: the copy is read and drawn, or, where IndexedDB cannot be opened or read, the
  tab starts empty.
\<close>

definition open_history :: "string \<Rightarrow> history_idb option \<Rightarrow> history_tab" where
  "open_history ip idb =
     (case idb of
        None \<Rightarrow> \<lparr>ht_cache = None, ht_checks = [], ht_page = 1\<rparr>
      | Some copies \<Rightarrow> \<lparr>ht_cache = copies ip,
            ht_checks = (case copies ip of None \<Rightarrow> [] | Some c \<Rightarrow> hs_checks c), ht_page = 1\<rparr>)"

section \<open>The pages partition the history\<close>

lemma upto_page:
  assumes "0 \<le> a" "0 \<le> k" "a + k \<le> int (length xs)"
  shows "map (\<lambda>i. f (xs ! nat i)) [a..a + k - 1] = map f (take (nat k) (drop (nat a) xs))"
  using assms by (intro nth_equalityI) (auto simp: nth_upto nat_add_distrib)

lemma page_slices:
  assumes "0 < k"
  shows "concat (map (\<lambda>i. take k (drop (i * k) xs)) [0..<n]) = take (n * k) xs"
proof (induction n)
  case (Suc n)
  have "take (Suc n * k) xs = take (n * k) xs @ take k (drop (n * k) xs)"
    by (metis add.commute mult_Suc take_add)
  with Suc show ?case by simp
qed simp

lemma page_rows:
  assumes "1 \<le> p" "p \<le> historyPages tab" "ht_checks tab \<noteq> []"
  shows "\<exists>v. render_history legacy (tab\<lparr>ht_page := p\<rparr>) = (tab\<lparr>ht_page := p\<rparr>, Table v)
    \<and> hv_rows v = map (history_line legacy) (take 100 (drop (nat ((p - 1) * 100)) (ht_checks tab)))
    \<and> hv_prevDisabled v = (p = 1) \<and> hv_nextDisabled v = (p = historyPages tab)"
proof -
  let ?n = "int (length (ht_checks tab))"
  have pages: "historyPages tab = (?n + 99) div 100"
    using assms(3) by (cases "ht_checks tab") (auto simp: historyPages_def HISTORY_PAGE_SIZE_def)
  have total: "historyPages (tab\<lparr>ht_page := p\<rparr>) = historyPages tab" by (simp add: historyPages_def)
  let ?s = "(p - 1) * 100"
  have "p \<le> (?n + 99) div 100" using assms(2) pages by simp
  then have s: "0 \<le> ?s" "?s < ?n" using assms(1) by presburger+
  let ?k = "min ?n (?s + 100) - ?s"
  have k: "0 \<le> ?k" "?s + ?k \<le> ?n" "?s + ?k - 1 = min ?n (?s + 100) - 1" using s by auto
  have "map (\<lambda>i. history_line legacy (ht_checks tab ! nat i)) [?s..min ?n (?s + 100) - 1]
      = map (history_line legacy) (take (nat ?k) (drop (nat ?s) (ht_checks tab)))"
    using upto_page [OF s(1) k(1,2), of "history_line legacy"] k(3) by simp
  also have "take (nat ?k) (drop (nat ?s) (ht_checks tab)) = take 100 (drop (nat ?s) (ht_checks tab))"
    using s by (cases "?n \<le> ?s + 100") (auto simp: min_def nat_diff_distrib)
  finally show ?thesis
    using assms total by (auto simp: render_history_def Let_def HISTORY_PAGE_SIZE_def)
qed

text \<open>
  The pages of a history show every check exactly once and in order: put together, the rows
  of all pages are the rows of the whole history. The first page has no previous and the last
  one no next page, and a page number out of range shows the nearest page.
\<close>

theorem history_paged:
  assumes "ht_checks tab \<noteq> []"
  shows "\<exists>v. (\<forall>p. snd (render_history legacy (tab\<lparr>ht_page := p\<rparr>)) = Table (v p)
        \<and> v p = v (max 1 (min p (historyPages tab))) \<and> length (hv_rows (v p)) \<le> 100
        \<and> (hv_prevDisabled (v p) \<longleftrightarrow> min p (historyPages tab) \<le> 1) \<and> (hv_nextDisabled (v p) \<longleftrightarrow> historyPages tab \<le> max 1 p))
    \<and> concat (map (\<lambda>p. hv_rows (v p)) [1..historyPages tab]) = map (history_line legacy) (ht_checks tab)"
proof -
  let ?total = "historyPages tab" and ?at = "\<lambda>p. render_history legacy (tab\<lparr>ht_page := p\<rparr>)"
  define v where "v p = (case snd (?at p) of Table w \<Rightarrow> w)" for p
  have total: "1 \<le> ?total" by (simp add: historyPages_def)
  have in_range: "snd (?at p) = Table (v p) \<and> length (hv_rows (v p)) \<le> 100
      \<and> hv_rows (v p) = map (history_line legacy) (take 100 (drop (nat ((p - 1) * 100)) (ht_checks tab)))
      \<and> (hv_prevDisabled (v p) \<longleftrightarrow> p = 1) \<and> (hv_nextDisabled (v p) \<longleftrightarrow> p = ?total)"
    if "1 \<le> p" "p \<le> ?total" for p
    using page_rows [OF that assms, of legacy] by (auto simp: v_def)
  have clamp: "snd (?at p) = snd (?at (max 1 (min p ?total)))" for p
  proof -
    have pages: "historyPages (tab\<lparr>ht_page := p\<rparr>) = ?total" for p by (simp add: historyPages_def)
    have sel: "ht_page (tab\<lparr>ht_page := p\<rparr>) = p" "ht_checks (tab\<lparr>ht_page := p\<rparr>) = ht_checks tab" for p by simp_all
    have bring: "(if (if p > ?total then ?total else p) < 1 then 1 else if p > ?total then ?total else p) = max 1 (min p ?total)" for p
      by (simp add: max_def min_def)
    have "max 1 (min (max 1 (min p ?total)) ?total) = max 1 (min p ?total)" using total by linarith
    then show ?thesis by (simp only: render_history_def Let_def pages bring sel assms if_False snd_conv)
  qed
  have v: "v p = v (max 1 (min p ?total))" for p
    using arg_cong [OF clamp [of p], of "case_history_view undefined (\<lambda>w. w)"] by (simp only: v_def)
  have each: "snd (?at p) = Table (v p) \<and> v p = v (max 1 (min p ?total)) \<and> length (hv_rows (v p)) \<le> 100
      \<and> (hv_prevDisabled (v p) \<longleftrightarrow> min p ?total \<le> 1) \<and> (hv_nextDisabled (v p) \<longleftrightarrow> ?total \<le> max 1 p)" for p
  proof -
    let ?q = "max 1 (min p ?total)"
    have q: "1 \<le> ?q" "?q \<le> ?total" "?q = 1 \<longleftrightarrow> min p ?total \<le> 1" "?q = ?total \<longleftrightarrow> ?total \<le> max 1 p"
      using total by linarith+
    have "hv_prevDisabled (v p) \<longleftrightarrow> ?q = 1" "hv_nextDisabled (v p) \<longleftrightarrow> ?q = ?total" "length (hv_rows (v p)) \<le> 100"
      using in_range [OF q(1,2)] by (metis v [of p])+
    moreover have "snd (?at p) = Table (v p)"
      using in_range [OF q(1,2)] by (simp only: clamp [of p, symmetric] v [of p, symmetric])
    ultimately show ?thesis unfolding q(3,4) by (intro conjI v [of p]) assumption+
  qed
  have index: "[1..?total] = map (\<lambda>i. int i + 1) [0..<nat ?total]"
    by (rule nth_equalityI) auto
  have "concat (map (\<lambda>p. hv_rows (v p)) [1..?total])
      = concat (map (\<lambda>p. map (history_line legacy) (take 100 (drop (nat ((p - 1) * 100)) (ht_checks tab)))) [1..?total])"
    using in_range by (intro arg_cong [where f = concat] map_cong) auto
  also have "\<dots> = map (history_line legacy) (concat (map (\<lambda>i. take 100 (drop (i * 100) (ht_checks tab))) [0..<nat ?total]))"
    by (simp add: index map_concat comp_def nat_mult_distrib)
  also have "\<dots> = map (history_line legacy) (ht_checks tab)"
  proof -
    have "int (length (ht_checks tab)) \<le> ?total * 100" by (simp add: historyPages_def HISTORY_PAGE_SIZE_def)
    then have "length (ht_checks tab) \<le> nat ?total * 100" using total by linarith
    then show ?thesis using page_slices [of 100 "ht_checks tab" "nat ?total"] by simp
  qed
  finally have all: "concat (map (\<lambda>p. hv_rows (v p)) [1..?total]) = map (history_line legacy) (ht_checks tab)" .
  show ?thesis by (rule exI [of _ v], rule conjI, rule allI, rule each, rule all)
qed

lemma history_paged_sample:
  "ht_checks \<lparr>ht_cache = None, ht_checks = [\<lparr>u_ok = True, u_rttMs = 1, u_reason = [], u_detail = [],
     u_checkedAt = None, u_scanMode = []\<rparr>], ht_page = 1\<rparr> \<noteq> []"
  by simp

theorem history_paged_witness:
  "let tab = \<lparr>ht_cache = None, ht_checks = [\<lparr>u_ok = True, u_rttMs = 1, u_reason = [], u_detail = [],
     u_checkedAt = None, u_scanMode = []\<rparr>], ht_page = 1\<rparr>
   in \<exists>v :: int \<Rightarrow> history_table. concat (map (\<lambda>p. hv_rows (v p)) [1..historyPages tab]) = map (history_line (\<lambda>_. Invalid_Date)) (ht_checks tab)"
proof -
  from history_paged [OF history_paged_sample, of "\<lambda>_. Invalid_Date"]
  show ?thesis unfolding Let_def by (elim exE conjE) (rule exI)
qed

section \<open>One synchronisation\<close>

text \<open>What the server holds: the version of an address and its newest checks as JSON.\<close>

definition history_version :: "string \<Rightarrow> tables \<Rightarrow> int" where
  "history_version ip t = (case map k_id (checks_of ip t) of [] \<Rightarrow> 0 | i # is \<Rightarrow> foldr max is i)"

definition history_now :: "(string \<Rightarrow> js_date) \<Rightarrow> string \<Rightarrow> tables \<Rightarrow> check_json list res" where
  "history_now legacy ip t =
     (case ipHistory legacy ip CHECK_HISTORY_RETENTION 0 (quiet t) of
        (Inr rows, _) \<Rightarrow> map_res check_json rows | (Inl e, _) \<Rightarrow> Inl e)"

text \<open>An entry of the edge cache under the current version holds the current history.\<close>

definition honest_history :: "(string \<Rightarrow> js_date) \<Rightarrow> string \<Rightarrow> tables \<Rightarrow> (params \<Rightarrow> history_body option) \<Rightarrow> bool" where
  "honest_history legacy ip t edge \<longleftrightarrow>
     (\<forall>b. edge (history_key ip (history_version ip t)) = Some b \<longrightarrow>
        n_version b = history_version ip t \<and> n_reset b = Some False \<and> history_now legacy ip t = Inr (n_checks b))"

lemma version_run: "ipHistoryVersion ip (quiet t) = (Inr (history_version ip t), quiet t)"
  by (simp add: ipHistoryVersion_def history_version_def d1_defs)

lemma load_answer:
  assumes "honest_history legacy ip t edge"
    and "history_load legacy edge ip reset (history_version ip t) (quiet t) = (Inr out, d')" "status (fst out) = 200"
  shows "\<exists>b. body (fst out) = History b \<and> n_version b = history_version ip t \<and> n_reset b = Some reset
    \<and> history_now legacy ip t = Inr (n_checks b)"
proof (cases "if reset then None else edge (history_key ip (history_version ip t))")
  case (Some b)
  then have r: "\<not> reset" "edge (history_key ip (history_version ip t)) = Some b" by (auto split: if_splits)
  then have "out = (fresh 200 (History b), None)" using assms(2) by (simp add: history_load_def ret_def)
  with r assms(1) show ?thesis by (auto simp: honest_history_def fresh_def)
next
  case None
  obtain rows where rows: "ipHistory legacy ip CHECK_HISTORY_RETENTION 0 (quiet t) = (Inr rows, quiet t)"
    by (simp add: ipHistory_def d1_defs)
  show ?thesis using assms(2,3)
    by (auto simp: history_load_def None andThen_def rows version_run lift_eq ret_eq history_now_def fresh_def Let_def
        split: sum.splits)
qed

lemma get_answer:
  assumes "honest_history legacy ip t edge" "normalizeIPAddress ip = Some ip"
    and "case cache of None \<Rightarrow> True | Some c \<Rightarrow> 0 \<le> hs_version c \<and> hs_version c < 2 ^ 53"
    and "fetch_history legacy edge (history_params ip cache) (quiet t) = (Inr b, d')"
  shows "n_version b = history_version ip t \<and>
    (if map_option hs_version cache = Some (history_version ip t) then n_reset b = None
     else n_reset b = Some (case cache of None \<Rightarrow> False | Some c \<Rightarrow> history_version ip t < hs_version c)
       \<and> history_now legacy ip t = Inr (n_checks b))"
proof -
  let ?ps = "history_params ip cache"
  have ip: "params_get ''ip'' ?ps = Some ip" by (simp add: history_params_def params_get_def split: option.split)
  have since: "history_since ?ps = Some (map_option hs_version cache)"
    using assms(3) since_version by (auto simp: history_params_def history_since_def params_get_def split: option.splits)
  obtain out d1 where out: "history_get legacy edge ?ps (quiet t) = (Inr out, d1)"
    "200 \<le> status (fst out)" "status (fst out) \<le> 299" "body (fst out) = History b"
    using assms(4) unfolding fetch_history_def
    by (auto simp: andThen_def ret_def throw_def split: sum.splits prod.splits if_splits history_json.splits)
  show ?thesis
  proof (cases "map_option hs_version cache = Some (history_version ip t)")
    case True
    with out(1,4) show ?thesis
      by (auto simp: history_get_def ip since or_else_def assms(2) andThen_def version_run ret_def fresh_def)
  next
    case False
    let ?reset = "case cache of None \<Rightarrow> False | Some c \<Rightarrow> history_version ip t < hs_version c"
    have load: "history_load legacy edge ip ?reset (history_version ip t) (quiet t) = (Inr out, d1)"
      using out(1) False by (simp add: history_get_def ip since or_else_def assms(2) andThen_def version_run option.case_distrib
            option.map_sel case_map_option comp_def del: map_option_eq_Some, cases cache, simp_all)
    have "status (fst out) = 200"
      using load out(2,3) unfolding history_load_def
      by (auto simp: andThen_def ret_def lift_def fresh_def Let_def split: option.splits sum.splits prod.splits if_splits)
    from load_answer [OF assms(1) load this] out(4) False show ?thesis by (cases cache) auto
  qed
qed


lemma history_ahead_run:
  fixes c :: history_snapshot
  assumes "hs_version c = 5"
  shows "sync_history (\<lambda>_. Invalid_Date) (\<lambda>_. None) ''1.2.3.4'' (Some c) (Some [''1.2.3.4'' \<mapsto> c]) (quiet empty_db)
    = (Inr (\<lparr>hs_ip = ''1.2.3.4'', hs_version = 0, hs_checks = []\<rparr>,
        Some [''1.2.3.4'' \<mapsto> \<lparr>hs_ip = ''1.2.3.4'', hs_version = 0, hs_checks = []\<rparr>]), quiet empty_db)"
proof -
  let ?ps = "history_params ''1.2.3.4'' (Some c)"
  have ip: "normalizeIPAddress (or_else (params_get ''ip'' ?ps) []) = Some ''1.2.3.4''"
    by (simp add: history_params_def params_get_def or_else_def) code_simp
  have since: "history_since ?ps = Some (Some 5)"
    using since_version [of 5] by (simp add: history_params_def history_since_def params_get_def assms)
  have none: "checks_of ip empty_db = []" for ip by (simp add: checks_of_def empty_db_def)
  have "history_get (\<lambda>_. Invalid_Date) (\<lambda>_. None) ?ps (quiet empty_db)
      = (Inr (fresh 200 (History \<lparr>n_version = 0, n_reset = Some True, n_checks = []\<rparr>), None), quiet empty_db)"
    by (simp add: history_get_def ip since history_load_def ipHistory_def ipHistoryVersion_def none history_page_def
        order_by_def d1_defs)
  then show ?thesis
    by (simp add: sync_history_def fetch_history_def andThen_def ret_def fresh_def assms or_else_def write_history_def Let_def)
qed


end
