(* ===== verification/PtrResolve.thy ===== *)
theory PtrResolve
  imports Resolver StoreRead "HOL-Library.Multiset"
begin

text \<open>
  Resolution of host names in the browser, src/public/static/ptrResolve.js: reverse names, one
  lookup over DNS-over-HTTPS, the cache in localStorage and the queue that keeps at most
  \<open>CONCURRENCY\<close> lookups running. The module is a state machine: a page asks for addresses, a
  running lookup settles, and the timer that writes the cache fires, in any order.
\<close>

section \<open>Reverse names\<close>

definition client_dedupeSorted :: "string list \<Rightarrow> string list" where
  "client_dedupeSorted names = sort (js_set (filter (\<lambda>n. n \<noteq> []) (map strip_dot names)))"

text \<open>Unlike the resolver of the server this one takes a zone off and allows empty groups.\<close>

definition client_group :: "string \<Rightarrow> bool" where
  "client_group g \<longleftrightarrow> length g \<le> 4 \<and> list_all is_hex_digit g"

fun client_groups :: "string \<Rightarrow> string list \<Rightarrow> string option" where
  "client_groups hex [] = Some hex"
| "client_groups hex (g # gs) =
     (if \<not> client_group g then None
      else client_groups (hex @ to_lower (pad_start 4 CHR ''0'' g)) gs)"

definition client_expandIPv6 :: "string \<Rightarrow> string option" where
  "client_expandIPv6 ip =
     (let withoutZone = hd (split_char CHR ''%'' ip);
          dbl = index_of ''::'' withoutZone;
          head = (case dbl of Some i \<Rightarrow> take i withoutZone | None \<Rightarrow> withoutZone);
          tail = (case dbl of Some i \<Rightarrow> drop (i + 2) withoutZone | None \<Rightarrow> []);
          headParts = (if head \<noteq> [] then split_char CHR '':'' head else []);
          tailParts = (if tail \<noteq> [] then split_char CHR '':'' tail else [])
      in if dbl = None \<and> length headParts \<noteq> 8 then None
         else if dbl \<noteq> None \<and> 8 \<le> length headParts + length tailParts then None
         else
           let missing = 8 - length headParts - length tailParts;
               groups = (if dbl \<noteq> None then headParts @ replicate missing ''0'' @ tailParts else headParts)
           in if length groups \<noteq> 8 then None else client_groups [] groups)"

definition client_reverseNibblesDotted :: "string \<Rightarrow> string" where
  "client_reverseNibblesDotted fullHex = join ''.'' (map (\<lambda>i. [fullHex ! i]) (rev [0..<length fullHex]))"

definition client_reverseName :: "string \<Rightarrow> string option" where
  "client_reverseName ip =
     (if CHR ''.'' \<in> set ip \<and> CHR '':'' \<notin> set ip
      then let parts = split_char CHR ''.'' ip in
        if length parts \<noteq> 4 then None
        else Some (parts ! 3 @ ''.'' @ parts ! 2 @ ''.'' @ parts ! 1 @ ''.'' @ parts ! 0 @ ''.in-addr.arpa'')
      else case client_expandIPv6 ip of
        None \<Rightarrow> None
      | Some full \<Rightarrow> if full = [] then None else Some (client_reverseNibblesDotted full @ ''.ip6.arpa''))"

lemma client_groups_agree: "hex_groups hex gs = Some r \<Longrightarrow> client_groups hex gs = Some r"
  by (induction hex gs rule: hex_groups.induct) (auto simp: group_text_def client_group_def split: if_splits)

lemma no_zone: "\<not> str_includes ip ''%'' \<Longrightarrow> hd (split_char CHR ''%'' ip) = ip"
  by (simp add: str_includes_percent split_char_word)

lemma client_expand_agrees:
  assumes "expandIPv6 ip = Some hex"
  shows "client_expandIPv6 ip = Some hex"
proof -
  have zone: "\<not> str_includes ip ''%''" using assms unfolding expandIPv6_def none_else by blast
  show ?thesis
    using assms client_groups_agree unfolding expandIPv6_def client_expandIPv6_def Let_def none_else no_zone [OF zone]
    by blast
qed

lemma nibbles_agree: "client_reverseNibblesDotted s = reverseNibblesDotted s"
proof -
  have "map (\<lambda>i. [s ! i]) (rev [0..<length s]) = map (\<lambda>c. [c]) (map ((!) s) (rev [0..<length s]))" by simp
  also have "map ((!) s) (rev [0..<length s]) = rev s" by (simp only: rev_map [symmetric] map_nth)
  finally show ?thesis by (simp add: client_reverseNibblesDotted_def reverseNibblesDotted_def)
qed

lemma four_parts: "length ps = 4 \<Longrightarrow> \<exists>a b c d. ps = [a, b, c, d]"
  by (auto simp: numeral_eq_Suc length_Suc_conv)

text \<open>
  C17: the browser asks for the same reverse name as the server. For every text for which the
  server's resolver has a reverse name, the hand-kept copy in the browser computes the same.
\<close>

theorem reverse_names_agree:
  assumes "reverseName ip = Inr name"
  shows "client_reverseName ip = Some name"
proof (cases "CHR ''.'' \<in> set ip \<and> CHR '':'' \<notin> set ip")
  case True
  with assms have l: "length (split_char CHR ''.'' ip) = 4"
    and n: "name = join ''.'' (rev (split_char CHR ''.'' ip)) @ ''.in-addr.arpa''"
    by (simp_all add: reverseName_def Let_def split: if_splits)
  from four_parts [OF l] obtain a b c d where "split_char CHR ''.'' ip = [a, b, c, d]" by blast
  with True n show ?thesis by (simp add: client_reverseName_def)
next
  case False
  with assms obtain hex where hex: "expandIPv6 ip = Some hex" "name = reverseNibblesDotted hex @ ''.ip6.arpa''"
    by (auto simp: reverseName_def split: option.splits)
  then have "hex \<noteq> []" using expand_hex by fastforce
  with False hex client_expand_agrees [OF hex(1)] show ?thesis
    by (auto simp: client_reverseName_def nibbles_agree)
qed

theorem reverse_names_agree_witness:
  "client_reverseName ''2001:4860::8844'' =
     Some ''4.4.8.8.0.0.0.0.0.0.0.0.0.0.0.0.0.0.0.0.0.0.0.0.0.6.8.4.1.0.0.2.ip6.arpa''"
proof (rule reverse_names_agree)
  show "reverseName ''2001:4860::8844'' = Inr ''4.4.8.8.0.0.0.0.0.0.0.0.0.0.0.0.0.0.0.0.0.0.0.0.0.6.8.4.1.0.0.2.ip6.arpa''"
    by code_simp
qed

text \<open>The other direction fails: a text with an empty group is no address for the server.\<close>

lemma client_accepts_more:
  "client_reverseName ''1:::2'' \<noteq> None" "\<exists>e. reverseName ''1:::2'' = Inl e"
  "client_reverseName ''fe80::1%eth0'' \<noteq> None" "\<exists>e. reverseName ''fe80::1%eth0'' = Inl e"
proof -
  show "client_reverseName ''1:::2'' \<noteq> None" "client_reverseName ''fe80::1%eth0'' \<noteq> None" by code_simp+
  have "expandIPv6 ''1:::2'' = None" "expandIPv6 ''fe80::1%eth0'' = None" by code_simp+
  then show "\<exists>e. reverseName ''1:::2'' = Inl e" "\<exists>e. reverseName ''fe80::1%eth0'' = Inl e"
    by (simp_all add: reverseName_def)
qed

section \<open>One lookup\<close>

definition DOH_URL :: string where
  "DOH_URL = ''https://cloudflare-dns.com/dns-query''"

definition client_queryDoH :: "http \<Rightarrow> string \<Rightarrow> doh_reply res" where
  "client_queryDoH http name =
     (case http (DOH_URL @ ''?name='' @ encodeURIComponent name @ ''&type=PTR'') of
        Inl e \<Rightarrow> Inl e
      | Inr resp \<Rightarrow>
          if \<not> http_ok resp then Inl (JsError (''doh status '' @ num_str 10 (http_status resp))) else Inr resp)"

text \<open>The loop over the answers; the status of the reply is not looked at, and every error is a miss.\<close>

fun collect_ptr :: "doh_answer list \<Rightarrow> string list \<Rightarrow> int \<Rightarrow> string list \<times> int" where
  "collect_ptr [] hostnames minSeconds = (hostnames, minSeconds)"
| "collect_ptr (a # as) hostnames minSeconds =
     (if da_type a \<noteq> 12 then collect_ptr as hostnames minSeconds
      else
        let h = strip_dot (da_data a) in
        if h \<noteq> [] then collect_ptr as (hostnames @ [h])
          (if minSeconds = 0 \<or> da_TTL a < minSeconds then da_TTL a else minSeconds)
        else collect_ptr as hostnames minSeconds)"

definition resolveLive :: "http \<Rightarrow> string \<Rightarrow> lookup" where
  "resolveLive http ip =
     (case client_reverseName ip of
        None \<Rightarrow> no_lookup
      | Some name \<Rightarrow>
     (case client_queryDoH http name of
        Inl _ \<Rightarrow> no_lookup
      | Inr json \<Rightarrow>
          let (hostnames, minSeconds) = collect_ptr (or_else (dns_Answer json) []) [] 0;
              deduped = client_dedupeSorted hostnames
          in \<lparr>lk_values = deduped, lk_ttlSeconds = minSeconds, lk_ok = (deduped \<noteq> [])\<rparr>))"

lemma collect_filter:
  "collect_ptr as hs m =
    (let used = filter (\<lambda>a. da_type a = 12 \<and> strip_dot (da_data a) \<noteq> []) as
     in (hs @ map (\<lambda>a. strip_dot (da_data a)) used, foldl observe_ttl m (map da_TTL used)))"
  by (induction as hs m rule: collect_ptr.induct) (auto simp: Let_def observe_ttl_def)

text \<open>On an answer without an error both resolvers find the same names and time to live.\<close>

lemma resolve_agrees:
  assumes "reverseName ip = Inr name" "dohUrl \<noteq> []" "http_ok r" "dns_Status r = 0"
    and "http (DOH_URL @ ''?name='' @ encodeURIComponent name @ ''&type=PTR'') = Inr r"
    and "http' (dohUrl @ ''?name='' @ encodeURIComponent name @ ''&type='' @ int_text 12) = Inr r"
    and "client_reverseName ip = Some name"
  shows "\<exists>l. lookupPTR http' ip dohUrl = Inr l \<and> lk_values l = lk_values (resolveLive http ip)
    \<and> lk_ttlSeconds l = lk_ttlSeconds (resolveLive http ip)"
  using assms
  by (auto simp: resolveLive_def client_queryDoH_def lookupPTR_def queryDoH_def collect_filter Let_def DNSType_PTR_def
      or_else_def client_dedupeSorted_def dedupeSorted_def no_lookup_def filter_empty_conv js_set_def
      split: option.splits)

section \<open>The cache and the queue\<close>

record ptr_cached =
  pc_hostnames :: "string list"
  pc_ok :: bool
  pc_exp :: int

text \<open>
  A request is its number and the address asked for. \<open>ps_running\<close> are the lookups under way and
  \<open>ps_answered\<close> the promises resolved so far; \<open>ps_active\<close> is the counter of the code.
\<close>

type_synonym ptr_request = "nat \<times> string"

record ptr_state =
  ps_cache :: "string \<Rightarrow> ptr_cached option"
  ps_stored :: "string \<Rightarrow> ptr_cached option"
  ps_writeScheduled :: bool
  ps_active :: int
  ps_queue :: "ptr_request list"
  ps_running :: "ptr_request list"
  ps_answered :: "(ptr_request \<times> string list \<times> bool) list"

definition MIN_TTL_SECONDS :: int where "MIN_TTL_SECONDS = 60 * 60"
definition CONCURRENCY :: int where "CONCURRENCY = 24"

text \<open>A text in localStorage that cannot be parsed counts as an empty cache.\<close>

definition open_ptr :: "(string \<Rightarrow> ptr_cached option) option \<Rightarrow> ptr_state" where
  "open_ptr raw =
     \<lparr>ps_cache = or_else raw (\<lambda>_. None), ps_stored = or_else raw (\<lambda>_. None), ps_writeScheduled = False,
      ps_active = 0, ps_queue = [], ps_running = [], ps_answered = []\<rparr>"

definition startJob :: "ptr_request \<Rightarrow> ptr_state \<Rightarrow> ptr_state" where
  "startJob item st = st\<lparr>ps_active := ps_active st + 1, ps_running := ps_running st @ [item]\<rparr>"

function pump :: "ptr_state \<Rightarrow> ptr_state" where
  "pump st =
     (if ps_active st < CONCURRENCY
      then (case ps_queue st of [] \<Rightarrow> st | item # rest \<Rightarrow> pump (startJob item (st\<lparr>ps_queue := rest\<rparr>)))
      else st)"
  by pat_completeness auto
termination by (relation "measure (\<lambda>st. length (ps_queue st))") (auto simp: startJob_def)

declare pump.simps [simp del]

definition resolvePTR :: "int \<Rightarrow> ptr_request \<Rightarrow> ptr_state \<Rightarrow> ptr_state" where
  "resolvePTR now item st =
     (case ps_cache st (snd item) of
        Some cached \<Rightarrow>
          if now < pc_exp cached
          then st\<lparr>ps_answered := ps_answered st @ [(item, pc_hostnames cached, pc_ok cached)]\<rparr>
          else pump (st\<lparr>ps_queue := ps_queue st @ [item]\<rparr>)
      | None \<Rightarrow> pump (st\<lparr>ps_queue := ps_queue st @ [item]\<rparr>))"

text \<open>What startJob does once its lookup has settled.\<close>

definition settle :: "int \<Rightarrow> ptr_request \<Rightarrow> lookup \<Rightarrow> ptr_state \<Rightarrow> ptr_state" where
  "settle now item result st =
     pump (st\<lparr>ps_active := ps_active st - 1, ps_running := remove1 item (ps_running st),
       ps_cache := (ps_cache st)(snd item \<mapsto> \<lparr>pc_hostnames = lk_values result, pc_ok = lk_ok result,
         pc_exp = now + max (lk_ttlSeconds result) MIN_TTL_SECONDS * 1000\<rparr>),
       ps_writeScheduled := True,
       ps_answered := ps_answered st @ [(item, lk_values result, lk_ok result)]\<rparr>)"

text \<open>The timer of scheduleWrite; \<open>fits\<close> is whether localStorage takes the text.\<close>

definition write_timer :: "int \<Rightarrow> bool \<Rightarrow> ptr_state \<Rightarrow> ptr_state" where
  "write_timer t fits st =
     (let pruned = (\<lambda>ip. case ps_cache st ip of Some c \<Rightarrow> if t < pc_exp c then Some c else None | None \<Rightarrow> None)
      in st\<lparr>ps_writeScheduled := False, ps_cache := pruned,
            ps_stored := (if fits then pruned else ps_stored st)\<rparr>)"

text \<open>The states reached after the requests asked so far, whatever the network answers and when.\<close>

inductive ptr_run :: "ptr_request list \<Rightarrow> ptr_state \<Rightarrow> bool" where
  opened: "ptr_run [] (open_ptr raw)"
| asked: "ptr_run asks st \<Longrightarrow> ptr_run (asks @ [item]) (resolvePTR now item st)"
| settled: "ptr_run asks st \<Longrightarrow> item \<in> set (ps_running st) \<Longrightarrow>
    ptr_run asks (settle now item (resolveLive http (snd item)) st)"
| written: "ptr_run asks st \<Longrightarrow> ps_writeScheduled st \<Longrightarrow> ptr_run asks (write_timer now fits st)"

definition all_requests :: "ptr_state \<Rightarrow> ptr_request multiset" where
  "all_requests st = mset (ps_queue st) + mset (ps_running st) + mset (map fst (ps_answered st))"

definition counted :: "ptr_state \<Rightarrow> bool" where
  "counted st \<longleftrightarrow> ps_active st = int (length (ps_running st)) \<and> ps_active st \<le> CONCURRENCY"

lemma pump_keeps:
  "counted st \<Longrightarrow> counted (pump st) \<and> (ps_queue (pump st) \<noteq> [] \<longrightarrow> ps_active (pump st) = CONCURRENCY)
    \<and> all_requests (pump st) = all_requests st"
proof (induction st rule: pump.induct)
  case (1 st)
  show ?case
  proof (cases "ps_active st < CONCURRENCY \<and> ps_queue st \<noteq> []")
    case True
    then obtain item rest where q: "ps_queue st = item # rest" by (auto simp: neq_Nil_conv)
    let ?next = "startJob item (st\<lparr>ps_queue := rest\<rparr>)"
    have p: "pump st = pump ?next" using True q by (simp add: pump.simps [of st])
    have "counted ?next" "all_requests ?next = all_requests st"
      using 1(2) True q by (simp_all add: counted_def startJob_def all_requests_def)
    with 1(1) [OF _ q] True p show ?thesis by simp
  next
    case False
    then have "pump st = st" by (auto simp: pump.simps [of st] split: list.split)
    with False 1(2) show ?thesis by (auto simp: counted_def)
  qed
qed

text \<open>
  C16: the queue neither overruns nor stalls nor loses a request. In every state the module
  reaches, at most 24 lookups run, the counter is their number, lookups wait only while 24 run,
  and every request asked so far is exactly once waiting, running or answered; so once no lookup
  runs any more, every request has been answered exactly once.
\<close>

theorem ptr_queue_complete:
  assumes "ptr_run asks st"
  shows "ps_active st = int (length (ps_running st)) \<and> ps_active st \<le> 24
    \<and> (ps_queue st \<noteq> [] \<longrightarrow> ps_active st = 24)
    \<and> mset asks = mset (ps_queue st) + mset (ps_running st) + mset (map fst (ps_answered st))
    \<and> (ps_running st = [] \<longrightarrow> mset (map fst (ps_answered st)) = mset asks)"
proof -
  from assms have inv: "counted st \<and> (ps_queue st \<noteq> [] \<longrightarrow> ps_active st = CONCURRENCY) \<and> all_requests st = mset asks"
  proof induction
    case (opened raw)
    show ?case by (simp add: open_ptr_def counted_def all_requests_def CONCURRENCY_def)
  next
    case (asked asks st item now)
    let ?queued = "st\<lparr>ps_queue := ps_queue st @ [item]\<rparr>"
    have "counted ?queued" "all_requests ?queued = mset (asks @ [item])"
      using asked.IH by (simp_all add: counted_def all_requests_def)
    with pump_keeps [of ?queued] asked.IH show ?case
      by (auto simp: resolvePTR_def counted_def all_requests_def split: option.split)
  next
    case (settled asks st item now http)
    let ?done = "st\<lparr>ps_active := ps_active st - 1, ps_running := remove1 item (ps_running st),
       ps_cache := (ps_cache st)(snd item \<mapsto> \<lparr>pc_hostnames = lk_values (resolveLive http (snd item)),
         pc_ok = lk_ok (resolveLive http (snd item)),
         pc_exp = now + max (lk_ttlSeconds (resolveLive http (snd item))) MIN_TTL_SECONDS * 1000\<rparr>),
       ps_writeScheduled := True,
       ps_answered := ps_answered st @ [(item, lk_values (resolveLive http (snd item)), lk_ok (resolveLive http (snd item)))]\<rparr>"
    have "counted ?done"
      using settled.IH settled.hyps(2) length_pos_if_in_set [OF settled.hyps(2)]
      by (simp add: counted_def length_remove1 of_nat_diff Suc_le_eq)
    moreover have "mset (ps_running st) = add_mset item (mset (remove1 item (ps_running st)))"
      using settled.hyps(2) by simp
    then have "all_requests ?done = all_requests st"
      by (simp add: all_requests_def del: mset_remove1)
    with settled.IH have "all_requests ?done = mset asks" by simp
    ultimately show ?case using pump_keeps [of ?done] by (simp add: settle_def)
  next
    case (written asks st now fits)
    then show ?case by (auto simp: write_timer_def Let_def counted_def all_requests_def)
  qed
  then show ?thesis by (auto simp: counted_def CONCURRENCY_def all_requests_def)
qed

theorem ptr_queue_complete_witness:
  "let first = resolvePTR 0 (0, ''8.8.8.8'') (open_ptr None);
     settled = settle 0 (0, ''8.8.8.8'') (resolveLive (\<lambda>_. Inl TypeError) ''8.8.8.8'') first
   in ps_running settled = [] \<longrightarrow> mset (map fst (ps_answered settled)) = mset [(0, ''8.8.8.8'')]"
proof -
  let ?first = "resolvePTR 0 (0, ''8.8.8.8'') (open_ptr None)"
  have "ptr_run [(0, ''8.8.8.8'')] ?first"
    using ptr_run.asked [OF ptr_run.opened, of "(0, ''8.8.8.8'')" 0 None] by simp
  moreover have "(0, ''8.8.8.8'') \<in> set (ps_running ?first)"
    by (simp add: resolvePTR_def open_ptr_def or_else_def pump.simps startJob_def CONCURRENCY_def)
  ultimately have "ptr_run [(0, ''8.8.8.8'')] (settle 0 (0, ''8.8.8.8'') (resolveLive (\<lambda>_. Inl TypeError) ''8.8.8.8'') ?first)"
    using ptr_run.settled [of "[(0, ''8.8.8.8'')]" ?first "(0, ''8.8.8.8'')" 0 "\<lambda>_. Inl TypeError"] by simp
  from ptr_queue_complete [OF this] show ?thesis unfolding Let_def by blast
qed

text \<open>A settled lookup is answered from the cache for at least an hour.\<close>

lemma cached_an_hour:
  assumes "t < now + MIN_TTL_SECONDS * 1000"
  shows "\<exists>c. ps_cache (settle now item result st) (snd item) = Some c \<and> t < pc_exp c
    \<and> pc_hostnames c = lk_values result \<and> pc_ok c = lk_ok result"
proof -
  have "ps_cache (pump st) = ps_cache st" for st
    by (induction st rule: pump.induct)
      (auto simp: pump.simps [of "st :: ptr_state" for st] startJob_def split: list.split)
  with assms show ?thesis by (auto simp: settle_def MIN_TTL_SECONDS_def)
qed

end
