(* ===== verification/ProbeWorker.thy ===== *)
theory ProbeWorker
  imports Handlers
begin

text \<open>
  The worker between the site and the probe server, src/worker/src/index.ts: it forwards a probe
  request that carries the shared token and nothing else. What the probe server answers is the
  parameter \<open>probe\<close> of check_post in Handlers.
\<close>

record worker_request =
  wr_method :: string
  wr_token :: "string option"
  wr_body :: "string option json_body"

text \<open>A reply of its own, or the request passed on: URL, token and address.\<close>

datatype worker_reply = Plain_reply nat string | Forwarded string string string

text \<open>The body is an object with or without an address; anything else makes the worker throw.\<close>

definition worker_fetch :: "string \<Rightarrow> string \<Rightarrow> worker_request \<Rightarrow> worker_reply res" where
  "worker_fetch PROBE_ADDR PROBE_TOKEN req =
     (if wr_method req \<noteq> ''POST'' then Inr (Plain_reply 405 ''method not allowed'')
      else if wr_token req \<noteq> Some PROBE_TOKEN then Inr (Plain_reply 401 ''unauthorized'')
      else case wr_body req of
        Bad_json e \<Rightarrow> Inl (JsError e)
      | Null_json \<Rightarrow> Inl TypeError
      | Json ip \<Rightarrow>
          if or_else ip [] = [] then Inr (Plain_reply 400 ''missing ip'')
          else Inr (Forwarded (''http://'' @ PROBE_ADDR @ ''/probe'') PROBE_TOKEN (or_else ip [])))"

text \<open>A request reaches the probe server exactly when it is a POST with the token and an address.\<close>

lemma worker_gate:
  "worker_fetch addr token req = Inr (Forwarded url t ip) \<longleftrightarrow>
     wr_method req = ''POST'' \<and> wr_token req = Some token \<and> wr_body req = Json (Some ip) \<and> ip \<noteq> []
     \<and> url = ''http://'' @ addr @ ''/probe'' \<and> t = token"
  by (auto simp: worker_fetch_def or_else_def split: json_body.splits option.splits)

text \<open>The request that check.ts sends for an address is always passed on.\<close>

lemma check_reaches_probe:
  "ip \<noteq> [] \<Longrightarrow> \<exists>url. worker_fetch addr token
     \<lparr>wr_method = ''POST'', wr_token = Some token, wr_body = Json (Some ip)\<rparr> = Inr (Forwarded url token ip)"
  by (simp add: worker_gate)

end
